(* ===== verification/Prelude.thy ===== *)
theory Prelude
  imports Main "HOL-Library.AList" "HOL-Library.Multiset" "HOL-Library.List_Lexorder"
    "HOL-Library.Char_ord"
begin

text \<open>
  What every component of the development shares:
  \<^item> Go's error values and the three ways a Go function can end (a result, a returned
    error, a panic), and computations that thread a mutable state through them;
  \<^item> triples over such computations, with one postcondition for a result and one for a
    returned error (a triple also says that the computation does not panic);
  \<^item> the loops of the source as folds, with their invariant rules;
  \<^item> the pieces of Go's standard library the source uses: decimal formatting,
    \<open>strings.Split\<close>, \<open>strings.TrimSpace\<close>, \<open>strings.Contains\<close>, and the
    unspecified iteration order of maps.
\<close>

named_theorems io_defs \<open>unfolding of the combinators of computations\<close>
named_theorems triple_rules \<open>structural rules for triples\<close>

section \<open>Errors and outcomes\<close>

text \<open>
  An error is kept as the format string and the arguments it was made from: \<open>Errorf\<close>
  for \<open>fmt.Errorf\<close>, \<open>Wrapf\<close> for \<open>errors.Wrap\<close> and \<open>errors.Wrapf\<close>, and
  \<open>ApiError\<close> for an error that a client library returned, kept as its text.
\<close>

datatype error =
    Errorf string "string list"
  | Wrapf error string "string list"
  | ApiError string

datatype 'a outcome = Ok 'a | Err error | Panic string

type_synonym ('s, 'a) io = "'s \<Rightarrow> 'a outcome \<times> 's"

section \<open>Computations\<close>

definition ret :: "'a \<Rightarrow> ('s, 'a) io" where
  [io_defs]: "ret v = (\<lambda>s. (Ok v, s))"

definition throw :: "error \<Rightarrow> ('s, 'a) io" where
  [io_defs]: "throw e = (\<lambda>s. (Err e, s))"

definition panic :: "string \<Rightarrow> ('s, 'a) io" where
  [io_defs]: "panic m = (\<lambda>s. (Panic m, s))"

definition bindIO :: "('s, 'a) io \<Rightarrow> ('a \<Rightarrow> ('s, 'b) io) \<Rightarrow> ('s, 'b) io" where
  [io_defs]: "bindIO f g = (\<lambda>s. case f s of
     (Ok v, s') \<Rightarrow> g v s'
   | (Err e, s') \<Rightarrow> (Err e, s')
   | (Panic m, s') \<Rightarrow> (Panic m, s'))"

text \<open>\<open>result, err := f()\<close> where the code goes on after an error.\<close>

definition tryIO :: "('s, 'a) io \<Rightarrow> ('s, error + 'a) io" where
  [io_defs]: "tryIO f = (\<lambda>s. case f s of
     (Ok v, s') \<Rightarrow> (Ok (Inr v), s')
   | (Err e, s') \<Rightarrow> (Ok (Inl e), s')
   | (Panic m, s') \<Rightarrow> (Panic m, s'))"

text \<open>\<open>if err != nil { return errors.Wrapf(err, ...) }\<close>\<close>

definition wrapErr :: "(error \<Rightarrow> error) \<Rightarrow> ('s, 'a) io \<Rightarrow> ('s, 'a) io" where
  [io_defs]: "wrapErr w f = (\<lambda>s. case f s of
     (Ok v, s') \<Rightarrow> (Ok v, s')
   | (Err e, s') \<Rightarrow> (Err (w e), s')
   | (Panic m, s') \<Rightarrow> (Panic m, s'))"

definition getsIO :: "('s \<Rightarrow> 'a) \<Rightarrow> ('s, 'a) io" where
  [io_defs]: "getsIO f = (\<lambda>s. (Ok (f s), s))"

definition modifyIO :: "('s \<Rightarrow> 's) \<Rightarrow> ('s, unit) io" where
  [io_defs]: "modifyIO f = (\<lambda>s. (Ok (), f s))"

text \<open>A computation on one component of the state.\<close>

definition onSnd :: "('s, 'a) io \<Rightarrow> ('x \<times> 's, 'a) io" where
  [io_defs]: "onSnd f = (\<lambda>(x, s). case f s of (r, s') \<Rightarrow> (r, (x, s')))"

definition onFst :: "('x, 'a) io \<Rightarrow> ('x \<times> 's, 'a) io" where
  [io_defs]: "onFst f = (\<lambda>(x, s). case f x of (r, x') \<Rightarrow> (r, (x', s)))"

text \<open>\<open>for _, x := range xs\<close>, with an accumulator for the variables the body assigns.\<close>

primrec foldIO :: "('b \<Rightarrow> 'a \<Rightarrow> ('s, 'b) io) \<Rightarrow> 'b \<Rightarrow> 'a list \<Rightarrow> ('s, 'b) io" where
  "foldIO f a [] = ret a"
| "foldIO f a (x # xs) = bindIO (f a x) (\<lambda>a'. foldIO f a' xs)"

definition forIO :: "('a \<Rightarrow> ('s, unit) io) \<Rightarrow> 'a list \<Rightarrow> ('s, unit) io" where
  "forIO f xs = foldIO (\<lambda>_. f) () xs"

lemma forIO_simps [simp]:
  "forIO f [] = ret ()"
  "forIO f (x # xs) = bindIO (f x) (\<lambda>_. forIO f xs)"
  by (simp_all add: forIO_def)

lemma bindIO_ret [simp]: "bindIO (ret v) g = g v"
  by (simp add: io_defs)

lemma bindIO_throw [simp]: "bindIO (throw e) g = throw e"
  by (simp add: io_defs)

lemma bindIO_panic [simp]: "bindIO (panic m) g = panic m"
  by (simp add: io_defs)

lemma bindIO_ret_right [simp]: "bindIO f ret = f"
  by (auto simp: io_defs fun_eq_iff split: prod.split outcome.split)

lemma bindIO_unit: "bindIO f (\<lambda>_. ret u) = (f :: ('s, unit) io)"
  using bindIO_ret_right [of f] by simp

lemma bindIO_assoc: "bindIO (bindIO f g) h = bindIO f (\<lambda>v. bindIO (g v) h)"
  by (auto simp: io_defs fun_eq_iff split: prod.split outcome.split)

lemma bindIO_Ok:
  "bindIO f g s = (Ok v, s'') \<longleftrightarrow> (\<exists>u s'. f s = (Ok u, s') \<and> g u s' = (Ok v, s''))"
  by (auto simp: bindIO_def split: prod.split outcome.split)

lemma bindIO_run:
  "f s = (Ok u, s') \<Longrightarrow> bindIO f g s = g u s'"
  "f s = (Err e, s') \<Longrightarrow> bindIO f g s = (Err e, s')"
  by (simp_all add: bindIO_def)

section \<open>Triples\<close>

text \<open>
  \<open>triple P f Q E\<close>: from every state with \<open>P\<close> the computation ends without a panic,
  with a result \<open>v\<close> in a state with \<open>Q v\<close> or with a returned error \<open>e\<close> in a state
  with \<open>E e\<close>.
\<close>

fun post :: "('a \<Rightarrow> 's \<Rightarrow> bool) \<Rightarrow> (error \<Rightarrow> 's \<Rightarrow> bool) \<Rightarrow> 'a outcome \<times> 's \<Rightarrow> bool" where
  "post Q E (Ok v, s) = Q v s"
| "post Q E (Err e, s) = E e s"
| "post Q E (Panic m, s) = False"

definition triple ::
  "('s \<Rightarrow> bool) \<Rightarrow> ('s, 'a) io \<Rightarrow> ('a \<Rightarrow> 's \<Rightarrow> bool) \<Rightarrow> (error \<Rightarrow> 's \<Rightarrow> bool) \<Rightarrow> bool" where
  "triple P f Q E \<longleftrightarrow> (\<forall>s. P s \<longrightarrow> post Q E (f s))"

lemma tripleI: "(\<And>s. P s \<Longrightarrow> post Q E (f s)) \<Longrightarrow> triple P f Q E"
  by (simp add: triple_def)

lemma tripleD: "triple P f Q E \<Longrightarrow> P s \<Longrightarrow> post Q E (f s)"
  by (simp add: triple_def)

lemma post_cases:
  assumes "post Q E r"
  obtains (Ok) v s where "r = (Ok v, s)" "Q v s" | (Err) e s where "r = (Err e, s)" "E e s"
  using assms by (cases "(Q, E, r)" rule: post.cases) auto

lemma post_mono:
  "post Q' E' r \<Longrightarrow> (\<And>v s. Q' v s \<Longrightarrow> Q v s) \<Longrightarrow> (\<And>e s. E' e s \<Longrightarrow> E e s) \<Longrightarrow> post Q E r"
  by (cases "(Q, E, r)" rule: post.cases) auto

lemma triple_elim:
  assumes "triple P f Q E" "P s"
  obtains (Ok) v s' where "f s = (Ok v, s')" "Q v s'"
    | (Err) e s' where "f s = (Err e, s')" "E e s'"
  using tripleD [OF assms] by (cases rule: post_cases) (auto intro: that)

lemma triple_OkD: "triple P f Q E \<Longrightarrow> P s \<Longrightarrow> f s = (Ok v, s') \<Longrightarrow> Q v s'"
  using tripleD [of P f Q E s] by simp

lemma triple_ErrD: "triple P f Q E \<Longrightarrow> P s \<Longrightarrow> f s = (Err e, s') \<Longrightarrow> E e s'"
  using tripleD [of P f Q E s] by simp

lemma triple_no_panic: "triple P f Q E \<Longrightarrow> P s \<Longrightarrow> f s \<noteq> (Panic m, s')"
  using tripleD [of P f Q E s] by auto

lemma triple_conseq:
  assumes "triple P' f Q' E'" "\<And>s. P s \<Longrightarrow> P' s" "\<And>v s. Q' v s \<Longrightarrow> Q v s" "\<And>e s. E' e s \<Longrightarrow> E e s"
  shows "triple P f Q E"
  using assms by (blast intro: tripleI post_mono dest: tripleD)

lemma triple_pre: "triple P' f Q E \<Longrightarrow> (\<And>s. P s \<Longrightarrow> P' s) \<Longrightarrow> triple P f Q E"
  by (rule triple_conseq)

lemma triple_post:
  "triple P f Q' E' \<Longrightarrow> (\<And>v s. Q' v s \<Longrightarrow> Q v s) \<Longrightarrow> (\<And>e s. E' e s \<Longrightarrow> E e s) \<Longrightarrow> triple P f Q E"
  by (rule triple_conseq)

lemma triple_no_error: "triple P f Q (\<lambda>_ _. False) \<Longrightarrow> triple P f Q E"
  by (erule triple_post) auto

lemma triple_ret [triple_rules]: "(\<And>s. P s \<Longrightarrow> Q v s) \<Longrightarrow> triple P (ret v) Q E"
  by (rule tripleI) (simp add: ret_def)

lemma triple_throw [triple_rules]: "(\<And>s. P s \<Longrightarrow> E e s) \<Longrightarrow> triple P (throw e) Q E"
  by (rule tripleI) (simp add: throw_def)

lemma triple_bind [triple_rules]:
  assumes f: "triple P f R E" and g: "\<And>v. triple (R v) (g v) Q E"
  shows "triple P (bindIO f g) Q E"
proof (rule tripleI)
  fix s assume "P s"
  with f show "post Q E (bindIO f g s)"
    by (cases rule: triple_elim) (auto simp: bindIO_def dest: tripleD [OF g])
qed

lemma triple_bindE:
  assumes "triple P f R E'" "\<And>v. triple (R v) (g v) Q E" "\<And>e s. E' e s \<Longrightarrow> E e s"
  shows "triple P (bindIO f g) Q E"
  using triple_post [OF assms(1), of R E] assms(2,3) by (blast intro: triple_bind)

lemma triple_gets [triple_rules]: "(\<And>s. P s \<Longrightarrow> Q (f s) s) \<Longrightarrow> triple P (getsIO f) Q E"
  by (rule tripleI) (simp add: getsIO_def)

lemma triple_gets_bind:
  "(\<And>s. P s \<Longrightarrow> f s = c) \<Longrightarrow> triple P (g c) Q E \<Longrightarrow> triple P (bindIO (getsIO f) g) Q E"
  by (simp add: triple_def bindIO_def getsIO_def)

lemma triple_modify [triple_rules]: "(\<And>s. P s \<Longrightarrow> Q () (f s)) \<Longrightarrow> triple P (modifyIO f) Q E"
  by (rule tripleI) (simp add: modifyIO_def)

lemma triple_wrap [triple_rules]:
  assumes "triple P f Q (\<lambda>e. E (w e))"
  shows "triple P (wrapErr w f) Q E"
proof (rule tripleI)
  fix s assume "P s"
  with assms show "post Q E (wrapErr w f s)"
    by (cases rule: triple_elim) (auto simp: wrapErr_def)
qed

lemma triple_try [triple_rules]:
  assumes "triple P f (\<lambda>v. Q (Inr v)) (\<lambda>e. Q (Inl e))"
  shows "triple P (tryIO f) Q E"
proof (rule tripleI)
  fix s assume "P s"
  with assms show "post Q E (tryIO f s)"
    by (cases rule: triple_elim) (auto simp: tryIO_def)
qed

lemma triple_onSnd [triple_rules]:
  assumes f: "\<And>x. triple (\<lambda>s. P (x, s)) f (\<lambda>v s. Q v (x, s)) (\<lambda>e s. E e (x, s))"
  shows "triple P (onSnd f) Q E"
proof (rule tripleI)
  fix s assume "P s"
  then obtain x b where s: "s = (x, b)" "P (x, b)" by (cases s) auto
  from f s(2) show "post Q E (onSnd f s)"
    by (cases rule: triple_elim) (auto simp: onSnd_def s)
qed

lemma triple_if [triple_rules]:
  assumes "c \<Longrightarrow> triple P f Q E" "\<not> c \<Longrightarrow> triple P g Q E"
  shows "triple P (if c then f else g) Q E"
  using assms by simp

lemma triple_option [triple_rules]:
  assumes "x = None \<Longrightarrow> triple P f Q E" "\<And>y. x = Some y \<Longrightarrow> triple P (g y) Q E"
  shows "triple P (case x of None \<Rightarrow> f | Some y \<Rightarrow> g y) Q E"
  using assms by (cases x) simp_all

lemma triple_conj:
  assumes "triple P f Q E" "triple P f Q' E'"
  shows "triple P f (\<lambda>x s. Q x s \<and> Q' x s) (\<lambda>e s. E e s \<and> E' e s)"
proof (rule tripleI)
  fix s assume "P s"
  from tripleD [OF assms(1) this] tripleD [OF assms(2) this] show "post (\<lambda>x s. Q x s \<and> Q' x s) (\<lambda>e s. E e s \<and> E' e s) (f s)"
    by (elim post_cases) auto
qed

text \<open>A computation that gives no error (and does not panic), and what it adds to a triple.\<close>

abbreviation sure :: "('s \<Rightarrow> bool) \<Rightarrow> ('s, 'a) io \<Rightarrow> bool" where
  "sure P f \<equiv> triple P f (\<lambda>_ _. True) (\<lambda>_ _. False)"

lemma triple_sure:
  assumes "triple P f Q E" "sure P f"
  shows "triple P f Q E'"
  by (rule triple_post [OF triple_conj [OF assms]]) auto

lemma sure_ret: "sure P (ret x)"
  by (rule triple_ret) simp

lemma sure_weaken: "triple P f Q (\<lambda>_ _. False) \<Longrightarrow> sure P f"
  by (rule triple_post) auto

lemma triple_ex_pre: "(\<And>x. triple (P x) f Q E) \<Longrightarrow> triple (\<lambda>s. \<exists>x. P x s) f Q E"
  unfolding triple_def by blast

lemma triple_pure_pre: "(A \<Longrightarrow> triple P f Q E) \<Longrightarrow> triple (\<lambda>s. A \<and> P s) f Q E"
  by (auto simp: triple_def)

text \<open>
  The rule for loops: an invariant that is indexed by the elements already visited.
\<close>

lemma triple_fold:
  assumes "\<And>ys y zs a. xs = ys @ y # zs \<Longrightarrow> triple (I ys a) (f a y) (I (ys @ [y])) E"
  shows "triple (I [] a) (foldIO f a xs) (I xs) E"
proof -
  have "triple (I ys a) (foldIO f a zs) (I xs) E" if "xs = ys @ zs" for ys zs a
    using that
  proof (induction zs arbitrary: ys a)
    case Nil
    then show ?case by (auto intro: triple_ret)
  next
    case (Cons z zs)
    have step: "triple (I ys a) (f a z) (I (ys @ [z])) E"
      using Cons.prems by (rule assms)
    show ?case
      unfolding foldIO.simps by (rule triple_bind [OF step]) (rule Cons.IH, simp add: Cons.prems)
  qed
  from this [of "[]" xs] show ?thesis by simp
qed

lemma triple_for:
  assumes "\<And>ys y zs. xs = ys @ y # zs \<Longrightarrow> triple (I ys) (f y) (\<lambda>_. I (ys @ [y])) E"
  shows "triple (I []) (forIO f xs) (\<lambda>_. I xs) E"
  unfolding forIO_def by (rule triple_fold [where I = "\<lambda>ys _. I ys"]) (rule assms)

text \<open>A loop that reads the selected elements one by one and collects them.\<close>

lemma triple_collect:
  assumes "\<And>y. P y \<Longrightarrow> triple A (rd y) (\<lambda>x s. A s \<and> g y = Some x) E"
  shows "triple A (foldIO (\<lambda>acc y. if P y then bindIO (rd y) (\<lambda>x. ret (acc @ [x])) else ret acc) [] xs)
    (\<lambda>acc s. A s \<and> map Some acc = map g (filter P xs)) E"
proof -
  let ?f = "\<lambda>acc y. if P y then bindIO (rd y) (\<lambda>x. ret (acc @ [x])) else ret acc"
  let ?I = "\<lambda>ys acc s. A s \<and> map Some acc = map g (filter P ys)"
  have "triple (?I ys acc) (?f acc y) (?I (ys @ [y])) E" for ys acc y
  proof (cases "P y")
    case True
    have "triple (?I ys acc) (rd y) (\<lambda>x s. ?I ys acc s \<and> g y = Some x) E"
      using assms [OF True] by (auto simp: triple_def elim: post_mono)
    with True show ?thesis by (auto elim!: triple_bind intro!: triple_ret)
  qed (auto intro: triple_ret)
  then have "triple (?I [] []) (foldIO ?f [] xs) (?I xs) E" by (rule triple_fold)
  then show ?thesis by simp
qed

section \<open>Standard library: decimal numbers\<close>

text \<open>\<open>%d\<close> and \<open>strconv.FormatInt(n, 10)\<close>\<close>

definition digit :: "nat \<Rightarrow> char" where
  "digit d = char_of (48 + d)"

fun showNat :: "nat \<Rightarrow> string" where
  "showNat n = (if n < 10 then [digit n] else showNat (n div 10) @ [digit (n mod 10)])"

declare showNat.simps [simp del]

definition showInt :: "int \<Rightarrow> string" where
  "showInt i = (if i < 0 then CHR ''-'' # showNat (nat (- i)) else showNat (nat i))"

lemma digit_inj: "d < 10 \<Longrightarrow> d' < 10 \<Longrightarrow> digit d = digit d' \<Longrightarrow> d = d'"
proof -
  assume "d < 10" "d' < 10" "digit d = digit d'"
  then have "(of_char (digit d) :: nat) = of_char (digit d')" by simp
  with \<open>d < 10\<close> \<open>d' < 10\<close> show ?thesis by (simp add: digit_def)
qed

lemma of_char_digit: "d < 10 \<Longrightarrow> of_char (digit d) = 48 + d"
  by (simp add: digit_def)

lemma showNat_nonempty [simp]: "showNat n \<noteq> []"
  by (subst showNat.simps) simp

lemma showNat_inj: "showNat m = showNat n \<Longrightarrow> m = n"
proof (induction m arbitrary: n rule: showNat.induct)
  case (1 m)
  show ?case
  proof (cases "m < 10 \<or> n < 10")
    case True
    with "1.prems" show ?thesis
      by (auto simp: showNat.simps [of m] showNat.simps [of n] append_eq_Cons_conv
          split: if_splits dest: digit_inj sym [of "[]"])
  next
    case False
    with "1.prems" have "showNat (m div 10) = showNat (n div 10)" "digit (m mod 10) = digit (n mod 10)"
      by (auto simp: showNat.simps [of m] showNat.simps [of n])
    with False "1.IH" have "m div 10 = n div 10" "m mod 10 = n mod 10"
      by (auto intro: digit_inj)
    then show ?thesis by (metis div_mult_mod_eq)
  qed
qed

lemma showNat_inj_iff [simp]: "showNat m = showNat n \<longleftrightarrow> m = n"
  using showNat_inj by blast

lemma showNat_chars: "c \<in> set (showNat n) \<Longrightarrow> 48 \<le> (of_char c :: nat) \<and> (of_char c :: nat) < 58"
proof (induction n rule: showNat.induct)
  case (1 n)
  then show ?case
    by (cases "n < 10") (auto simp: showNat.simps [of n] of_char_digit)
qed

lemma showInt_inj [simp]: "showInt i = showInt j \<longleftrightarrow> i = j"
proof -
  have "CHR ''-'' \<notin> set (showNat n)" for n
    using showNat_chars [of "CHR ''-''" n] by (auto simp: of_char_def)
  then have "CHR ''-'' # xs \<noteq> showNat n" for xs n
    by (metis list.set_intros(1))
  moreover have "showNat n \<noteq> CHR ''-'' # xs" for xs n
    using calculation by metis
  ultimately show ?thesis
    by (auto simp: showInt_def split: if_splits)
qed

lemma slash_notin_showInt: "CHR ''/'' \<notin> set (showInt i)"
  using showNat_chars [of "CHR ''/''"] by (auto simp: showInt_def of_char_def)

section \<open>Standard library: strings\<close>

text \<open>\<open>strings.Split(s, sep)\<close> for a separator of one byte.\<close>

fun splitOn :: "char \<Rightarrow> string \<Rightarrow> string list" where
  "splitOn sep [] = [[]]"
| "splitOn sep (c # cs) =
     (if c = sep then [] # splitOn sep cs
      else case splitOn sep cs of [] \<Rightarrow> [[c]] | w # ws \<Rightarrow> (c # w) # ws)"

lemma splitOn_nonempty [simp]: "splitOn sep s \<noteq> []"
  by (induction s) (auto split: list.split)

lemma splitOn_no_sep: "sep \<notin> set s \<Longrightarrow> splitOn sep s = [s]"
  by (induction s) auto

lemma splitOn_append: "sep \<notin> set s \<Longrightarrow> splitOn sep (s @ sep # t) = s # splitOn sep t"
  by (induction s) auto

text \<open>\<open>strings.TrimSpace\<close> on the ASCII white space.\<close>

definition isSpace :: "char \<Rightarrow> bool" where
  "isSpace c \<longleftrightarrow> c \<in> {CHR '' '', CHR 0x09, CHR 0x0A, CHR 0x0B, CHR 0x0C, CHR 0x0D}"

definition TrimSpace :: "string \<Rightarrow> string" where
  "TrimSpace s = rev (dropWhile isSpace (rev (dropWhile isSpace s)))"

text \<open>\<open>strings.Contains\<close>\<close>

fun isPrefix :: "string \<Rightarrow> string \<Rightarrow> bool" where
  "isPrefix [] s = True"
| "isPrefix (c # cs) [] = False"
| "isPrefix (c # cs) (d # ds) = (c = d \<and> isPrefix cs ds)"

fun containsStr :: "string \<Rightarrow> string \<Rightarrow> bool" where
  "containsStr [] sub = (sub = [])"
| "containsStr (c # cs) sub = (isPrefix sub (c # cs) \<or> containsStr cs sub)"

section \<open>Maps and their iteration order\<close>

text \<open>
  A Go map is an association list with distinct keys. Go leaves the order in which
  \<open>range\<close> visits a map open: an oracle gives the order of the keys, and may look at
  the whole state of the backend, so that two iterations of one run need not agree.
  An answer that is no permutation of the keys stands for the list as it is, so every
  oracle describes orders Go allows, and every order Go allows is described by one.
\<close>

type_synonym ('s, 'k) order = "'s \<Rightarrow> 'k list \<Rightarrow> 'k list"

definition rangeKeys :: "('s, 'k) order \<Rightarrow> 's \<Rightarrow> 'k list \<Rightarrow> 'k list" where
  "rangeKeys ord s ks = (let ks' = ord s ks in if mset ks' = mset ks then ks' else ks)"

lemma mset_rangeKeys [simp]: "mset (rangeKeys ord s ks) = mset ks"
  by (simp add: rangeKeys_def Let_def)

lemma set_rangeKeys [simp]: "set (rangeKeys ord s ks) = set ks"
  by (metis mset_rangeKeys set_mset_mset)

lemma length_rangeKeys [simp]: "length (rangeKeys ord s ks) = length ks"
  by (metis mset_rangeKeys size_mset)

lemma distinct_rangeKeys [simp]: "distinct (rangeKeys ord s ks) = distinct ks"
  by (metis mset_rangeKeys mset_eq_imp_distinct_iff)

definition rangeMap :: "('s, 'k) order \<Rightarrow> 's \<Rightarrow> ('k \<times> 'v) list \<Rightarrow> ('k \<times> 'v) list" where
  "rangeMap ord s m = map (\<lambda>k. (k, the (map_of m k))) (rangeKeys ord s (map fst m))"

lemma set_rangeMap:
  assumes "distinct (map fst m)"
  shows "set (rangeMap ord s m) = set m"
proof -
  have "(k, the (map_of m k)) \<in> set m" if "k \<in> fst ` set m" for k
    using that by (metis map_of_SomeD map_of_eq_None_iff option.collapse)
  moreover have "the (map_of m k) = v" if "(k, v) \<in> set m" for k v
    using that assms by (simp add: map_of_is_SomeI)
  ultimately show ?thesis by (force simp: rangeMap_def)
qed

lemma map_fst_rangeMap [simp]: "map fst (rangeMap ord s m) = rangeKeys ord s (map fst m)"
  by (simp add: rangeMap_def comp_def)

section \<open>Lists\<close>

text \<open>
  A loop \<open>for i, x := range xs { if P(x) { ...; return } }\<close> acts on the first element
  with \<open>P\<close>; its index stands for the pointer the source takes.
\<close>

fun findIndex :: "('a \<Rightarrow> bool) \<Rightarrow> 'a list \<Rightarrow> nat option" where
  "findIndex P [] = None"
| "findIndex P (x # xs) = (if P x then Some 0 else map_option Suc (findIndex P xs))"

lemma findIndex_None: "findIndex P xs = None \<longleftrightarrow> (\<forall>x \<in> set xs. \<not> P x)"
  by (induction xs) auto

lemma findIndex_Some:
  "findIndex P xs = Some i \<Longrightarrow> i < length xs \<and> P (xs ! i) \<and> (\<forall>j < i. \<not> P (xs ! j))"
proof (induction xs arbitrary: i)
  case Nil
  then show ?case by simp
next
  case (Cons x xs)
  show ?case
  proof (cases "P x")
    case True
    with Cons.prems show ?thesis by simp
  next
    case False
    with Cons.prems obtain j where "i = Suc j" "findIndex P xs = Some j" by auto
    with Cons.IH False show ?thesis by (auto simp: less_Suc_eq_0_disj)
  qed
qed

text \<open>\<open>append(xs[:i], xs[i+1:]...)\<close>\<close>

definition removeAt :: "nat \<Rightarrow> 'a list \<Rightarrow> 'a list" where
  "removeAt i xs = take i xs @ drop (Suc i) xs"

lemma removeAt_mset: "i < length xs \<Longrightarrow> mset xs = add_mset (xs ! i) (mset (removeAt i xs))"
  unfolding removeAt_def by (metis id_take_nth_drop mset.simps(2) mset_append union_mset_add_mset_right)

text \<open>
  Collections of objects with a key: a list that holds exactly the objects of a map.
\<close>

definition lists :: "('a \<Rightarrow> 'k) \<Rightarrow> 'a list \<Rightarrow> ('k \<rightharpoonup> 'a) \<Rightarrow> bool" where
  "lists key xs m \<longleftrightarrow> distinct (map key xs) \<and> (\<forall>k x. m k = Some x \<longleftrightarrow> x \<in> set xs \<and> key x = k)"

definition index_by :: "('a \<Rightarrow> 'k) \<Rightarrow> 'a list \<Rightarrow> ('k \<rightharpoonup> 'a)" where
  "index_by key xs = map_of (map (\<lambda>x. (key x, x)) xs)"

lemma lists_index_by: "distinct (map key xs) \<Longrightarrow> lists key xs (index_by key xs)"
proof -
  assume d: "distinct (map key xs)"
  then have "distinct (map fst (map (\<lambda>x. (key x, x)) xs))" by (simp add: comp_def)
  then show ?thesis
    using d by (auto simp: lists_def index_by_def dest: map_of_SomeD intro!: map_of_is_SomeI)
qed

lemma lists_memD: "lists key xs m \<Longrightarrow> x \<in> set xs \<Longrightarrow> m (key x) = Some x"
  by (simp add: lists_def)

lemma lists_key: "lists key xs m \<Longrightarrow> m k = Some x \<Longrightarrow> key x = k"
  by (simp add: lists_def)

lemma index_by_None: "index_by key xs k = None \<longleftrightarrow> k \<notin> key ` set xs"
  by (induction xs) (auto simp: index_by_def)

lemma index_by_append:
  "k \<notin> key ` set xs \<Longrightarrow> key x = k \<Longrightarrow> index_by key (xs @ [x]) = (index_by key xs)(k \<mapsto> x)"
  by (induction xs) (auto simp: index_by_def fun_eq_iff)

lemma index_by_Cons: "index_by key (y # ys) = (index_by key ys)(key y \<mapsto> y)"
  by (simp add: index_by_def)

lemma key_nth_notin: "key y \<notin> key ` set xs \<Longrightarrow> i < length xs \<Longrightarrow> key (xs ! i) \<noteq> key y"
  by (metis image_eqI nth_mem)

lemma index_by_update:
  assumes "i < length xs" "distinct (map key xs)" "key x = key (xs ! i)"
  shows "index_by key (xs[i := x]) = (index_by key xs)(key x \<mapsto> x)"
  using assms
proof (induction xs arbitrary: i)
  case Nil
  then show ?case by simp
next
  case (Cons y xs)
  show ?case
  proof (cases i)
    case 0
    with Cons.prems show ?thesis by (simp add: index_by_Cons fun_eq_iff)
  next
    case (Suc j)
    with Cons.prems have "key (xs ! j) \<noteq> key y" by (intro key_nth_notin) auto
    moreover have "index_by key (xs[j := x]) = (index_by key xs)(key x \<mapsto> x)"
      by (rule Cons.IH) (use Cons.prems Suc in simp_all)
    ultimately show ?thesis
      using Suc Cons.prems by (auto simp: index_by_Cons fun_eq_iff)
  qed
qed

lemma index_by_removeAt:
  assumes "i < length xs" "distinct (map key xs)"
  shows "index_by key (removeAt i xs) = (index_by key xs)(key (xs ! i) := None)"
  using assms
proof (induction xs arbitrary: i)
  case Nil
  then show ?case by simp
next
  case (Cons y xs)
  show ?case
  proof (cases i)
    case 0
    with Cons.prems have "index_by key xs (key y) = None" by (simp add: index_by_None)
    with 0 show ?thesis by (auto simp: removeAt_def index_by_def fun_eq_iff)
  next
    case (Suc j)
    with Cons.prems have j: "j < length xs" by simp
    with Cons.prems have ne: "key (xs ! j) \<noteq> key y" by (intro key_nth_notin) auto
    have "index_by key (removeAt i (y # xs)) = (index_by key (removeAt j xs))(key y \<mapsto> y)"
      by (simp add: removeAt_def index_by_def Suc)
    also have "index_by key (removeAt j xs) = (index_by key xs)(key (xs ! j) := None)"
      by (rule Cons.IH [OF j]) (use Cons.prems in simp)
    finally show ?thesis
      using ne by (auto simp: index_by_def Suc fun_eq_iff)
  qed
qed

lemma set_removeAt_subset: "set (removeAt i xs) \<subseteq> set xs"
  by (auto simp: removeAt_def dest: in_set_takeD in_set_dropD)

lemma distinct_removeAt: "distinct (map f xs) \<Longrightarrow> distinct (map f (removeAt i xs))"
proof (induction xs arbitrary: i)
  case Nil
  then show ?case by (simp add: removeAt_def)
next
  case (Cons x xs)
  show ?case
  proof (cases i)
    case 0
    with Cons.prems show ?thesis by (simp add: removeAt_def)
  next
    case (Suc j)
    then have "removeAt i (x # xs) = x # removeAt j xs" by (simp add: removeAt_def)
    with Cons set_removeAt_subset [of j xs] show ?thesis by auto
  qed
qed

end
