(* ===== verification/Api_Types.thy ===== *)
theory Api_Types
  imports Prelude
begin

text \<open>
  The data of the two APIs between which the provider mediates, with the fields the
  provider reads or writes: the load balancer objects of the NSX-T client library
  (\<open>vendor/github.com/vmware/go-vmware-nsxt\<close>) and the Kubernetes objects
  (\<open>k8s.io/api/core/v1\<close>, \<open>k8s.io/apimachinery/pkg/types\<close>). Fields that no line of
  the provider mentions (links, revisions, profiles) travel unchanged with an object and
  are left out. A Go slice is a list: no line distinguishes a nil slice from an empty
  one. A pointer field that may be nil is an option.
\<close>

section \<open>NSX-T objects\<close>

record tag =
  Scope :: string
  Tag :: string

record LbService =
  svc_Description :: string
  svc_DisplayName :: string
  svc_Id :: string
  svc_Tags :: "tag list"
  svc_Size :: string
  svc_Enabled :: bool
  svc_Attachment :: "string option" \<comment> \<open>the target id of the resource reference\<close>
  svc_VirtualServerIds :: "string list"

record LbVirtualServer =
  vs_Description :: string
  vs_DisplayName :: string
  vs_Id :: string
  vs_Tags :: "tag list"
  vs_DefaultPoolMemberPort :: string
  vs_Enabled :: bool
  vs_IpAddress :: string
  vs_IpProtocol :: string
  vs_PoolId :: string
  vs_Port :: string

record PoolMember =
  pm_AdminState :: string
  pm_DisplayName :: string
  pm_IpAddress :: string

record LbPool =
  pool_Description :: string
  pool_DisplayName :: string
  pool_Id :: string
  pool_Tags :: "tag list"
  pool_SnatTranslation :: "string option" \<comment> \<open>its type\<close>
  pool_Members :: "PoolMember list"
  pool_ActiveMonitorIds :: "string list"

record LbTcpMonitor =
  mon_Description :: string
  mon_DisplayName :: string
  mon_Id :: string
  mon_ResourceType :: string
  mon_Tags :: "tag list"
  mon_MonitorPort :: string

record LbMonitor =
  lm_Description :: string
  lm_DisplayName :: string
  lm_Id :: string
  lm_ResourceType :: string
  lm_Tags :: "tag list"

record IpPool =
  ipp_Id :: string
  ipp_DisplayName :: string

section \<open>Kubernetes objects\<close>

record NamespacedName =
  Namespace :: string
  Name :: string

definition nn_String :: "NamespacedName \<Rightarrow> string" where
  "nn_String n = Namespace n @ ''/'' @ Name n"

record ServicePort =
  sp_Port :: int
  sp_NodePort :: int
  sp_Protocol :: string

record Service =
  s_Namespace :: string
  s_Name :: string
  s_Annotations :: "(string \<times> string) list"
  s_Type :: string
  s_Ports :: "ServicePort list"
  s_Ingress :: "string list" \<comment> \<open>the IP of each ingress of the load balancer status\<close>

record NodeAddress =
  addr_Type :: string
  addr_Address :: string

record Node =
  n_Name :: string
  n_Addresses :: "NodeAddress list"

record LoadBalancerStatus =
  Ingress :: "string list"

section \<open>HTTP status codes\<close>

abbreviation "StatusOK \<equiv> (200 :: int)"
abbreviation "StatusBadRequest \<equiv> (400 :: int)"
abbreviation "StatusNotFound \<equiv> (404 :: int)"
abbreviation "StatusInternalServerError \<equiv> (500 :: int)"

end
