(* ===== verification/Broker.thy ===== *)
theory Broker
  imports Api_Types
begin

text \<open>
  The broker (\<open>nsxt_broker.go\<close>): the interface through which the provider reaches the
  NSX-T backend, and its implementation over the client library. A broker is a record of
  computations over the state of the backend. A method that returns \<open>(result, err)\<close> is a
  computation that may return an error; a method that returns a status code beside the
  error gives both as its result, since its callers look at the status first.

  The client library is a parameter: a record of its calls, each giving the payload, the
  status code of the response (or none, where the response is nil) and the text of the
  error, if any.
\<close>

section \<open>The interface\<close>

record 's NsxtBroker =
  b_ListIPPools :: "('s, IpPool list) io"
  b_ReadLoadBalancerService :: "string \<Rightarrow> ('s, LbService) io"
  b_CreateLoadBalancerService :: "LbService \<Rightarrow> ('s, LbService) io"
  b_ListLoadBalancerServices :: "('s, LbService list) io"
  b_UpdateLoadBalancerService :: "LbService \<Rightarrow> ('s, LbService) io"
  b_DeleteLoadBalancerService :: "string \<Rightarrow> ('s, int \<times> error option) io"
  b_CreateLoadBalancerVirtualServer :: "LbVirtualServer \<Rightarrow> ('s, LbVirtualServer) io"
  b_ListLoadBalancerVirtualServers :: "('s, LbVirtualServer list) io"
  b_UpdateLoadBalancerVirtualServer :: "LbVirtualServer \<Rightarrow> ('s, LbVirtualServer) io"
  b_DeleteLoadBalancerVirtualServer :: "string \<Rightarrow> ('s, int \<times> error option) io"
  b_CreateLoadBalancerPool :: "LbPool \<Rightarrow> ('s, LbPool) io"
  b_ReadLoadBalancerPool :: "string \<Rightarrow> ('s, LbPool) io"
  b_ListLoadBalancerPools :: "('s, LbPool list) io"
  b_UpdateLoadBalancerPool :: "LbPool \<Rightarrow> ('s, LbPool) io"
  b_DeleteLoadBalancerPool :: "string \<Rightarrow> ('s, int \<times> error option) io"
  b_AllocateFromIPPool :: "string \<Rightarrow> ('s, string \<times> int \<times> error option) io"
  b_ListIPPoolAllocations :: "string \<Rightarrow> ('s, string list \<times> int \<times> error option) io"
  b_ReleaseFromIPPool :: "string \<Rightarrow> string \<Rightarrow> ('s, int \<times> error option) io"
  b_CreateLoadBalancerTCPMonitor :: "LbTcpMonitor \<Rightarrow> ('s, LbTcpMonitor) io"
  b_ListLoadBalancerMonitors :: "('s, LbMonitor list) io"
  b_ReadLoadBalancerTCPMonitor :: "string \<Rightarrow> ('s, LbTcpMonitor) io"
  b_UpdateLoadBalancerTCPMonitor :: "LbTcpMonitor \<Rightarrow> ('s, LbTcpMonitor) io"
  b_DeleteLoadBalancerMonitor :: "string \<Rightarrow> ('s, int \<times> error option) io"

section \<open>The broker of the real API\<close>

text \<open>What a call of the client library gives: payload, status code, error text.\<close>

type_synonym ('s, 'a) api = "'s \<Rightarrow> ('a \<times> int option \<times> string option) \<times> 's"

datatype ip_action = ALLOCATE | RELEASE

record 's APIClient =
  api_ListIpPools :: "('s, IpPool list) api"
  api_ReadLoadBalancerService :: "string \<Rightarrow> ('s, LbService) api"
  api_CreateLoadBalancerService :: "LbService \<Rightarrow> ('s, LbService) api"
  api_ListLoadBalancerServices :: "('s, LbService list) api"
  api_UpdateLoadBalancerService :: "string \<Rightarrow> LbService \<Rightarrow> ('s, LbService) api"
  api_DeleteLoadBalancerService :: "string \<Rightarrow> ('s, unit) api"
  api_CreateLoadBalancerVirtualServer :: "LbVirtualServer \<Rightarrow> ('s, LbVirtualServer) api"
  api_ListLoadBalancerVirtualServers :: "('s, LbVirtualServer list) api"
  api_UpdateLoadBalancerVirtualServer :: "string \<Rightarrow> LbVirtualServer \<Rightarrow> ('s, LbVirtualServer) api"
  api_DeleteLoadBalancerVirtualServer :: "string \<Rightarrow> ('s, unit) api"
  api_CreateLoadBalancerPool :: "LbPool \<Rightarrow> ('s, LbPool) api"
  api_ReadLoadBalancerPool :: "string \<Rightarrow> ('s, LbPool) api"
  api_ListLoadBalancerPools :: "('s, LbPool list) api"
  api_UpdateLoadBalancerPool :: "string \<Rightarrow> LbPool \<Rightarrow> ('s, LbPool) api"
  api_DeleteLoadBalancerPool :: "string \<Rightarrow> ('s, unit) api"
  api_CreateLoadBalancerTcpMonitor :: "LbTcpMonitor \<Rightarrow> ('s, LbTcpMonitor) api"
  api_ListLoadBalancerMonitors :: "('s, LbMonitor list) api"
  api_ReadLoadBalancerTcpMonitor :: "string \<Rightarrow> ('s, LbTcpMonitor) api"
  api_UpdateLoadBalancerTcpMonitor :: "string \<Rightarrow> LbTcpMonitor \<Rightarrow> ('s, LbTcpMonitor) api"
  api_DeleteLoadBalancerMonitor :: "string \<Rightarrow> ('s, unit) api"
  api_AllocateOrReleaseFromIpPool :: "string \<Rightarrow> string \<Rightarrow> ip_action \<Rightarrow> ('s, string) api"
  api_ListIpPoolAllocations :: "string \<Rightarrow> ('s, string list) api"

text \<open>\<open>result, _, err := call; return result, err\<close>\<close>

definition apiResult :: "('s, 'a) api \<Rightarrow> ('s, 'a) io" where
  "apiResult call = (\<lambda>s. case call s of
     ((v, _, None), s') \<Rightarrow> (Ok v, s')
   | ((v, _, Some text), s') \<Rightarrow> (Err (ApiError text), s'))"

text \<open>\<open>statusCode := 0; if resp != nil { statusCode = resp.StatusCode }\<close>\<close>

definition statusOf :: "int option \<Rightarrow> int" where
  "statusOf resp = (case resp of None \<Rightarrow> 0 | Some code \<Rightarrow> code)"

definition apiStatus :: "('s, 'a) api \<Rightarrow> ('s, 'a \<times> int \<times> error option) io" where
  "apiStatus call = (\<lambda>s. case call s of
     ((v, resp, err), s') \<Rightarrow> (Ok (v, statusOf resp, map_option ApiError err), s'))"

definition apiDelete :: "('s, unit) api \<Rightarrow> ('s, int \<times> error option) io" where
  "apiDelete call = bindIO (apiStatus call) (\<lambda>(_, statusCode, err). ret (statusCode, err))"

definition nsxt_AllocateFromIPPool :: "'s APIClient \<Rightarrow> string \<Rightarrow> ('s, string \<times> int \<times> error option) io" where
  "nsxt_AllocateFromIPPool client ipPoolID =
     apiStatus (api_AllocateOrReleaseFromIpPool client ipPoolID '''' ALLOCATE)"

definition nsxt_ListIPPoolAllocations :: "'s APIClient \<Rightarrow> string \<Rightarrow> ('s, string list \<times> int \<times> error option) io" where
  "nsxt_ListIPPoolAllocations client ipPoolID =
     bindIO (apiStatus (api_ListIpPoolAllocations client ipPoolID)) (\<lambda>(results, statusCode, err).
     ret (if err = None then results else [], statusCode, err))"

definition nsxt_ReleaseFromIPPool :: "'s APIClient \<Rightarrow> string \<Rightarrow> string \<Rightarrow> ('s, int \<times> error option) io" where
  "nsxt_ReleaseFromIPPool client ipPoolID ipAddress = (\<lambda>s.
     case api_AllocateOrReleaseFromIpPool client ipPoolID ipAddress RELEASE s of
       ((_, resp, err), s') \<Rightarrow>
         (let statusCode = statusOf resp in
          case err of
            Some text \<Rightarrow>
              if statusCode = StatusBadRequest \<and> containsStr text ''is not allocated''
              then (Ok (StatusOK, None), s')
              else (Ok (statusCode, Some (ApiError text)), s')
          | None \<Rightarrow> (Ok (statusCode, None), s')))"

definition NewNsxtBroker :: "'s APIClient \<Rightarrow> 's NsxtBroker" where
  "NewNsxtBroker client =
     \<lparr>b_ListIPPools = apiResult (api_ListIpPools client),
      b_ReadLoadBalancerService = (\<lambda>id. apiResult (api_ReadLoadBalancerService client id)),
      b_CreateLoadBalancerService = (\<lambda>service. apiResult (api_CreateLoadBalancerService client service)),
      b_ListLoadBalancerServices = apiResult (api_ListLoadBalancerServices client),
      b_UpdateLoadBalancerService =
        (\<lambda>service. apiResult (api_UpdateLoadBalancerService client (svc_Id service) service)),
      b_DeleteLoadBalancerService = (\<lambda>id. apiDelete (api_DeleteLoadBalancerService client id)),
      b_CreateLoadBalancerVirtualServer =
        (\<lambda>server. apiResult (api_CreateLoadBalancerVirtualServer client server)),
      b_ListLoadBalancerVirtualServers = apiResult (api_ListLoadBalancerVirtualServers client),
      b_UpdateLoadBalancerVirtualServer =
        (\<lambda>server. apiResult (api_UpdateLoadBalancerVirtualServer client (vs_Id server) server)),
      b_DeleteLoadBalancerVirtualServer = (\<lambda>id. apiDelete (api_DeleteLoadBalancerVirtualServer client id)),
      b_CreateLoadBalancerPool = (\<lambda>pool. apiResult (api_CreateLoadBalancerPool client pool)),
      b_ReadLoadBalancerPool = (\<lambda>id. apiResult (api_ReadLoadBalancerPool client id)),
      b_ListLoadBalancerPools = apiResult (api_ListLoadBalancerPools client),
      b_UpdateLoadBalancerPool = (\<lambda>pool. apiResult (api_UpdateLoadBalancerPool client (pool_Id pool) pool)),
      b_DeleteLoadBalancerPool = (\<lambda>id. apiDelete (api_DeleteLoadBalancerPool client id)),
      b_AllocateFromIPPool = nsxt_AllocateFromIPPool client,
      b_ListIPPoolAllocations = nsxt_ListIPPoolAllocations client,
      b_ReleaseFromIPPool = nsxt_ReleaseFromIPPool client,
      b_CreateLoadBalancerTCPMonitor =
        (\<lambda>monitor. apiResult (api_CreateLoadBalancerTcpMonitor client monitor)),
      b_ListLoadBalancerMonitors = apiResult (api_ListLoadBalancerMonitors client),
      b_ReadLoadBalancerTCPMonitor = (\<lambda>id. apiResult (api_ReadLoadBalancerTcpMonitor client id)),
      b_UpdateLoadBalancerTCPMonitor =
        (\<lambda>monitor. apiResult (api_UpdateLoadBalancerTcpMonitor client (mon_Id monitor) monitor)),
      b_DeleteLoadBalancerMonitor = (\<lambda>id. apiDelete (api_DeleteLoadBalancerMonitor client id))\<rparr>"

section \<open>The contract of a backend\<close>

text \<open>
  What the provider relies on: the load balancer objects by their ids, and the allocated
  addresses of every IP pool.
\<close>

record nsxt_view =
  v_services :: "string \<rightharpoonup> LbService"
  v_servers :: "string \<rightharpoonup> LbVirtualServer"
  v_pools :: "string \<rightharpoonup> LbPool"
  v_monitors :: "string \<rightharpoonup> LbTcpMonitor"
  v_allocs :: "string \<rightharpoonup> string set"

definition light :: "LbTcpMonitor \<Rightarrow> LbMonitor" where
  "light monitor =
     \<lparr>lm_Description = mon_Description monitor, lm_DisplayName = mon_DisplayName monitor,
      lm_Id = mon_Id monitor, lm_ResourceType = mon_ResourceType monitor, lm_Tags = mon_Tags monitor\<rparr>"

text \<open>The outcome of a deletion of \<open>id\<close>: gone, not there (404), or kept with an error.\<close>

definition deleted ::
  "('v \<Rightarrow> 's \<Rightarrow> bool) \<Rightarrow> 'v \<Rightarrow> 'v \<Rightarrow> bool \<Rightarrow> int \<times> error option \<Rightarrow> 's \<Rightarrow> bool" where
  "deleted at v v' absent r s \<longleftrightarrow>
     (case r of (statusCode, err) \<Rightarrow>
        if statusCode = StatusNotFound then absent \<and> at v s
        else if err = None then at v' s else at v s)"

text \<open>
  A backend: a broker with an invariant and a view of its state. Every operation may
  return an error, and then changes nothing; without an error it does what the API
  documents: a list holds exactly the objects, a created object gets an id that no other
  object of its kind has, an update replaces the object with that id, a deletion removes
  it. \<open>monitor_type\<close> is the resource type the backend reports for the monitors it
  creates. An allocated address is new in its pool and not empty; releasing removes it.
\<close>

locale nsxt_backend =
  fixes B :: "'s NsxtBroker"
    and invar :: "'s \<Rightarrow> bool"
    and view :: "'s \<Rightarrow> nsxt_view"
    and monitor_type :: string
  assumes read_service: "triple (\<lambda>s. invar s \<and> view s = v) (b_ReadLoadBalancerService B k)
      (\<lambda>x s. (invar s \<and> view s = v) \<and> v_services v k = Some x \<and> svc_Id x = k) (\<lambda>_ s. invar s \<and> view s = v)"
    and create_service: "triple (\<lambda>s. invar s \<and> view s = v) (b_CreateLoadBalancerService B svc)
      (\<lambda>x s. \<exists>id. x = svc\<lparr>svc_Id := id\<rparr> \<and> v_services v id = None \<and> id \<noteq> '''' \<and>
         invar s \<and> view s = v\<lparr>v_services := (v_services v)(id \<mapsto> x)\<rparr>) (\<lambda>_ s. invar s \<and> view s = v)"
    and list_services: "triple (\<lambda>s. invar s \<and> view s = v) (b_ListLoadBalancerServices B)
      (\<lambda>xs s. (invar s \<and> view s = v) \<and> lists svc_Id xs (v_services v)) (\<lambda>_ s. invar s \<and> view s = v)"
    and update_service: "triple (\<lambda>s. invar s \<and> view s = v) (b_UpdateLoadBalancerService B svc)
      (\<lambda>_ s. svc_Id svc \<in> dom (v_services v) \<and>
         invar s \<and> view s = v\<lparr>v_services := (v_services v)(svc_Id svc \<mapsto> svc)\<rparr>) (\<lambda>_ s. invar s \<and> view s = v)"
    and delete_service: "triple (\<lambda>s. invar s \<and> view s = v) (b_DeleteLoadBalancerService B k)
      (deleted (\<lambda>v s. invar s \<and> view s = v) v (v\<lparr>v_services := (v_services v)(k := None)\<rparr>)
         (v_services v k = None)) (\<lambda>_ _. False)"
    and create_server: "triple (\<lambda>s. invar s \<and> view s = v) (b_CreateLoadBalancerVirtualServer B srv)
      (\<lambda>x s. \<exists>id. x = srv\<lparr>vs_Id := id\<rparr> \<and> v_servers v id = None \<and> id \<noteq> '''' \<and>
         invar s \<and> view s = v\<lparr>v_servers := (v_servers v)(id \<mapsto> x)\<rparr>) (\<lambda>_ s. invar s \<and> view s = v)"
    and list_servers: "triple (\<lambda>s. invar s \<and> view s = v) (b_ListLoadBalancerVirtualServers B)
      (\<lambda>xs s. (invar s \<and> view s = v) \<and> lists vs_Id xs (v_servers v)) (\<lambda>_ s. invar s \<and> view s = v)"
    and update_server: "triple (\<lambda>s. invar s \<and> view s = v) (b_UpdateLoadBalancerVirtualServer B srv)
      (\<lambda>_ s. vs_Id srv \<in> dom (v_servers v) \<and>
         invar s \<and> view s = v\<lparr>v_servers := (v_servers v)(vs_Id srv \<mapsto> srv)\<rparr>) (\<lambda>_ s. invar s \<and> view s = v)"
    and delete_server: "triple (\<lambda>s. invar s \<and> view s = v) (b_DeleteLoadBalancerVirtualServer B k)
      (deleted (\<lambda>v s. invar s \<and> view s = v) v (v\<lparr>v_servers := (v_servers v)(k := None)\<rparr>)
         (v_servers v k = None)) (\<lambda>_ _. False)"
    and create_pool: "triple (\<lambda>s. invar s \<and> view s = v) (b_CreateLoadBalancerPool B pool)
      (\<lambda>x s. \<exists>id. x = pool\<lparr>pool_Id := id\<rparr> \<and> v_pools v id = None \<and> id \<noteq> '''' \<and>
         invar s \<and> view s = v\<lparr>v_pools := (v_pools v)(id \<mapsto> x)\<rparr>) (\<lambda>_ s. invar s \<and> view s = v)"
    and read_pool: "triple (\<lambda>s. invar s \<and> view s = v) (b_ReadLoadBalancerPool B k)
      (\<lambda>x s. (invar s \<and> view s = v) \<and> v_pools v k = Some x) (\<lambda>_ s. invar s \<and> view s = v)"
    and list_pools: "triple (\<lambda>s. invar s \<and> view s = v) (b_ListLoadBalancerPools B)
      (\<lambda>xs s. (invar s \<and> view s = v) \<and> lists pool_Id xs (v_pools v)) (\<lambda>_ s. invar s \<and> view s = v)"
    and update_pool: "triple (\<lambda>s. invar s \<and> view s = v) (b_UpdateLoadBalancerPool B pool)
      (\<lambda>_ s. pool_Id pool \<in> dom (v_pools v) \<and>
         invar s \<and> view s = v\<lparr>v_pools := (v_pools v)(pool_Id pool \<mapsto> pool)\<rparr>) (\<lambda>_ s. invar s \<and> view s = v)"
    and delete_pool: "triple (\<lambda>s. invar s \<and> view s = v) (b_DeleteLoadBalancerPool B k)
      (deleted (\<lambda>v s. invar s \<and> view s = v) v (v\<lparr>v_pools := (v_pools v)(k := None)\<rparr>)
         (v_pools v k = None)) (\<lambda>_ _. False)"
    and create_monitor: "mon_ResourceType mon = '''' \<Longrightarrow>
      triple (\<lambda>s. invar s \<and> view s = v) (b_CreateLoadBalancerTCPMonitor B mon)
      (\<lambda>x s. \<exists>id. x = mon\<lparr>mon_Id := id, mon_ResourceType := monitor_type\<rparr> \<and>
         v_monitors v id = None \<and> id \<noteq> '''' \<and>
         invar s \<and> view s = v\<lparr>v_monitors := (v_monitors v)(id \<mapsto> x)\<rparr>) (\<lambda>_ s. invar s \<and> view s = v)"
    and list_monitors: "triple (\<lambda>s. invar s \<and> view s = v) (b_ListLoadBalancerMonitors B)
      (\<lambda>xs s. (invar s \<and> view s = v) \<and> lists lm_Id xs (\<lambda>id. map_option light (v_monitors v id)))
      (\<lambda>_ s. invar s \<and> view s = v)"
    and read_monitor: "triple (\<lambda>s. invar s \<and> view s = v) (b_ReadLoadBalancerTCPMonitor B k)
      (\<lambda>x s. (invar s \<and> view s = v) \<and> v_monitors v k = Some x) (\<lambda>_ s. invar s \<and> view s = v)"
    and update_monitor: "triple (\<lambda>s. invar s \<and> view s = v) (b_UpdateLoadBalancerTCPMonitor B mon)
      (\<lambda>_ s. mon_Id mon \<in> dom (v_monitors v) \<and>
         invar s \<and> view s = v\<lparr>v_monitors := (v_monitors v)(mon_Id mon \<mapsto> mon)\<rparr>) (\<lambda>_ s. invar s \<and> view s = v)"
    and delete_monitor: "triple (\<lambda>s. invar s \<and> view s = v) (b_DeleteLoadBalancerMonitor B k)
      (deleted (\<lambda>v s. invar s \<and> view s = v) v (v\<lparr>v_monitors := (v_monitors v)(k := None)\<rparr>)
         (v_monitors v k = None)) (\<lambda>_ _. False)"
    and allocate: "triple (\<lambda>s. invar s \<and> view s = v) (b_AllocateFromIPPool B p)
      (\<lambda>(ip, statusCode, err) s. if err = None \<and> statusCode = StatusOK
         then \<exists>as. v_allocs v p = Some as \<and> ip \<notin> as \<and> ip \<noteq> '''' \<and>
           invar s \<and> view s = v\<lparr>v_allocs := (v_allocs v)(p \<mapsto> insert ip as)\<rparr>
         else invar s \<and> view s = v) (\<lambda>_ _. False)"
    and list_allocs: "triple (\<lambda>s. invar s \<and> view s = v) (b_ListIPPoolAllocations B p)
      (\<lambda>(ips, statusCode, err) s. (invar s \<and> view s = v) \<and>
         (statusCode = StatusNotFound \<longrightarrow> v_allocs v p = None) \<and>
         (statusCode = StatusOK \<and> err = None \<longrightarrow> v_allocs v p = Some (set ips))) (\<lambda>_ _. False)"
    and release: "triple (\<lambda>s. invar s \<and> view s = v) (b_ReleaseFromIPPool B p ip)
      (\<lambda>(statusCode, err) s. if err = None \<and> statusCode = StatusOK
         then \<exists>as. v_allocs v p = Some as \<and>
           invar s \<and> view s = v\<lparr>v_allocs := (v_allocs v)(p \<mapsto> as - {ip})\<rparr>
         else invar s \<and> view s = v) (\<lambda>_ _. False)"
    and list_ip_pools: "triple (\<lambda>s. invar s \<and> view s = v) (b_ListIPPools B)
      (\<lambda>_ s. invar s \<and> view s = v) (\<lambda>_ s. invar s \<and> view s = v)"
begin

text \<open>The backend is in its invariant and shows \<open>v\<close>.\<close>

definition at :: "nsxt_view \<Rightarrow> 's \<Rightarrow> bool" where
  "at v s \<longleftrightarrow> invar s \<and> view s = v"

lemmas at_read_service = read_service [folded at_def]
  and at_create_service = create_service [folded at_def]
  and at_list_services = list_services [folded at_def]
  and at_update_service = update_service [folded at_def]
  and at_delete_service = delete_service [folded at_def]
  and at_create_server = create_server [folded at_def]
  and at_list_servers = list_servers [folded at_def]
  and at_update_server = update_server [folded at_def]
  and at_delete_server = delete_server [folded at_def]
  and at_create_pool = create_pool [folded at_def]
  and at_read_pool = read_pool [folded at_def]
  and at_list_pools = list_pools [folded at_def]
  and at_update_pool = update_pool [folded at_def]
  and at_delete_pool = delete_pool [folded at_def]
  and at_create_monitor = create_monitor [folded at_def]
  and at_list_monitors = list_monitors [folded at_def]
  and at_read_monitor = read_monitor [folded at_def]
  and at_update_monitor = update_monitor [folded at_def]
  and at_delete_monitor = delete_monitor [folded at_def]
  and at_allocate = allocate [folded at_def]
  and at_list_allocs = list_allocs [folded at_def]
  and at_release = release [folded at_def]
  and at_list_ip_pools = list_ip_pools [folded at_def]

end

text \<open>
  A backend on which an undo works: a virtual server can be deleted, or is not there, the
  allocations of an IP pool can be listed, or the pool is not there, and an address that is
  allocated can be released. Everything else may still fail.
\<close>

locale reliable_backend = nsxt_backend B invar view monitor_type
  for B :: "'s NsxtBroker" and invar :: "'s \<Rightarrow> bool" and view :: "'s \<Rightarrow> nsxt_view" and monitor_type :: string +
  assumes delete_server_works: "triple (\<lambda>s. invar s \<and> view s = v) (b_DeleteLoadBalancerVirtualServer B k)
        (\<lambda>(statusCode, err) _. statusCode = StatusNotFound \<or> err = None) (\<lambda>_ _. False)"
    and list_allocs_works: "triple (\<lambda>s. invar s \<and> view s = v) (b_ListIPPoolAllocations B p)
        (\<lambda>(_, statusCode, err) _. statusCode = StatusNotFound \<or> statusCode = StatusOK \<and> err = None) (\<lambda>_ _. False)"
    and release_works: "v_allocs v p = Some as \<Longrightarrow> ip \<in> as \<Longrightarrow>
      triple (\<lambda>s. invar s \<and> view s = v) (b_ReleaseFromIPPool B p ip)
        (\<lambda>(statusCode, err) _. statusCode = StatusOK \<and> err = None) (\<lambda>_ _. False)"
begin

lemmas at_delete_server_works = delete_server_works [folded at_def]
  and at_list_allocs_works = list_allocs_works [folded at_def]
  and at_release_works = release_works [folded at_def]

end

text \<open>
  A backend on which everything works: lists, creations and deletions give no error, nor do
  reads and updates of objects that exist, and a pool with room gives an address. What room is
  depends on the allocations only.
\<close>

locale working_backend = reliable_backend B invar view monitor_type
  for B :: "'s NsxtBroker" and invar :: "'s \<Rightarrow> bool" and view :: "'s \<Rightarrow> nsxt_view" and monitor_type :: string +
  fixes room :: "nsxt_view \<Rightarrow> string \<Rightarrow> bool"
  assumes room_allocs: "v_allocs v' = v_allocs v \<Longrightarrow> room v' p = room v p"
    and allocate_works: "room v p \<Longrightarrow> triple (\<lambda>s. invar s \<and> view s = v) (b_AllocateFromIPPool B p)
        (\<lambda>(_, statusCode, err) _. statusCode = StatusOK \<and> err = None) (\<lambda>_ _. False)"
    and read_service_works: "v_services v k \<noteq> None \<Longrightarrow> sure (\<lambda>s. invar s \<and> view s = v) (b_ReadLoadBalancerService B k)"
    and create_service_works: "sure (\<lambda>s. invar s \<and> view s = v) (b_CreateLoadBalancerService B svc)"
    and list_services_works: "sure (\<lambda>s. invar s \<and> view s = v) (b_ListLoadBalancerServices B)"
    and update_service_works: "v_services v (svc_Id svc) \<noteq> None \<Longrightarrow> sure (\<lambda>s. invar s \<and> view s = v) (b_UpdateLoadBalancerService B svc)"
    and delete_service_works: "triple (\<lambda>s. invar s \<and> view s = v) (b_DeleteLoadBalancerService B k)
        (\<lambda>(statusCode, err) _. statusCode = StatusNotFound \<or> err = None) (\<lambda>_ _. False)"
    and create_server_works: "sure (\<lambda>s. invar s \<and> view s = v) (b_CreateLoadBalancerVirtualServer B srv)"
    and list_servers_works: "sure (\<lambda>s. invar s \<and> view s = v) (b_ListLoadBalancerVirtualServers B)"
    and update_server_works: "v_servers v (vs_Id srv) \<noteq> None \<Longrightarrow> sure (\<lambda>s. invar s \<and> view s = v) (b_UpdateLoadBalancerVirtualServer B srv)"
    and create_pool_works: "sure (\<lambda>s. invar s \<and> view s = v) (b_CreateLoadBalancerPool B pool)"
    and list_pools_works: "sure (\<lambda>s. invar s \<and> view s = v) (b_ListLoadBalancerPools B)"
    and update_pool_works: "v_pools v (pool_Id pool) \<noteq> None \<Longrightarrow> sure (\<lambda>s. invar s \<and> view s = v) (b_UpdateLoadBalancerPool B pool)"
    and delete_pool_works: "triple (\<lambda>s. invar s \<and> view s = v) (b_DeleteLoadBalancerPool B k)
        (\<lambda>(statusCode, err) _. statusCode = StatusNotFound \<or> err = None) (\<lambda>_ _. False)"
    and create_monitor_works: "sure (\<lambda>s. invar s \<and> view s = v) (b_CreateLoadBalancerTCPMonitor B mon)"
    and list_monitors_works: "sure (\<lambda>s. invar s \<and> view s = v) (b_ListLoadBalancerMonitors B)"
    and read_monitor_works: "v_monitors v k \<noteq> None \<Longrightarrow> sure (\<lambda>s. invar s \<and> view s = v) (b_ReadLoadBalancerTCPMonitor B k)"
    and update_monitor_works: "v_monitors v (mon_Id mon) \<noteq> None \<Longrightarrow> sure (\<lambda>s. invar s \<and> view s = v) (b_UpdateLoadBalancerTCPMonitor B mon)"
    and delete_monitor_works: "triple (\<lambda>s. invar s \<and> view s = v) (b_DeleteLoadBalancerMonitor B k)
        (\<lambda>(statusCode, err) _. statusCode = StatusNotFound \<or> err = None) (\<lambda>_ _. False)"
begin

lemmas at_allocate_works = allocate_works [folded at_def]
  and at_read_service_works = read_service_works [folded at_def]
  and at_create_service_works = create_service_works [folded at_def]
  and at_list_services_works = list_services_works [folded at_def]
  and at_update_service_works = update_service_works [folded at_def]
  and at_delete_service_works = delete_service_works [folded at_def]
  and at_create_server_works = create_server_works [folded at_def]
  and at_list_servers_works = list_servers_works [folded at_def]
  and at_update_server_works = update_server_works [folded at_def]
  and at_create_pool_works = create_pool_works [folded at_def]
  and at_list_pools_works = list_pools_works [folded at_def]
  and at_update_pool_works = update_pool_works [folded at_def]
  and at_delete_pool_works = delete_pool_works [folded at_def]
  and at_create_monitor_works = create_monitor_works [folded at_def]
  and at_list_monitors_works = list_monitors_works [folded at_def]
  and at_read_monitor_works = read_monitor_works [folded at_def]
  and at_update_monitor_works = update_monitor_works [folded at_def]
  and at_delete_monitor_works = delete_monitor_works [folded at_def]

end

end
