(* ===== verification/Tags.thy ===== *)
theory Tags
  imports Api_Types
begin

text \<open>
  Tags (\<open>tag.go\<close>) and the scopes of \<open>access.go\<close>. The controller finds its own
  objects again by their tags, so what matters is that a tag map, normalised into a
  list, still answers every lookup as the map does.
\<close>

section \<open>Scopes\<close>

definition ScopeOwner :: string where "ScopeOwner = ''owner''"
definition ScopeCluster :: string where "ScopeCluster = ''cluster''"
definition ScopeService :: string where "ScopeService = ''service''"
definition ScopePort :: string where "ScopePort = ''port''"
definition ScopeIPPoolID :: string where "ScopeIPPoolID = ''ippoolid''"
definition ScopeLBClass :: string where "ScopeLBClass = ''lbclass''"

lemmas scope_defs = ScopeOwner_def ScopeCluster_def ScopeService_def ScopePort_def
  ScopeIPPoolID_def ScopeLBClass_def

section \<open>Tag maps\<close>

type_synonym tags = "(string \<times> tag) list"

definition Less :: "tag \<Rightarrow> tag \<Rightarrow> bool" where
  "Less a b \<longleftrightarrow> Scope a < Scope b"

definition Add :: "tags \<Rightarrow> tag list \<Rightarrow> tags" where
  "Add m ts = fold (\<lambda>t r. AList.update (Scope t) t r) ts m"

text \<open>
  A source of tags (\<open>interface.go\<close>) is an object with a method that returns tags; it is
  represented by the tags it returns. A function is a source, and there is an empty one.
\<close>

type_synonym TagSource = "tag list"

definition TagsSourceFunc :: "(unit \<Rightarrow> tag list) \<Rightarrow> TagSource" where
  "TagsSourceFunc n = n ()"

definition EmptyTagsSource :: TagSource where
  "EmptyTagsSource = TagsSourceFunc (\<lambda>_. [])"

lemma Add_EmptyTagsSource [simp]: "Add m EmptyTagsSource = m"
  by (simp add: Add_def EmptyTagsSource_def TagsSourceFunc_def)

text \<open>
  \<open>Normalize\<close> collects the values in iteration order and sorts them by scope. It is
  written for the order of the association list; \<open>Normalize_unique\<close> below shows that
  every iteration order and every sorting algorithm gives the same list.
\<close>

definition Normalize :: "tags \<Rightarrow> tag list" where
  "Normalize m = sort_key Scope (map snd m)"

definition tags_wf :: "tags \<Rightarrow> bool" where
  "tags_wf m \<longleftrightarrow> distinct (map fst m) \<and> (\<forall>(k, t) \<in> set m. Scope t = k)"

section \<open>Tags of an object\<close>

definition clusterTag :: "string \<Rightarrow> tag" where
  "clusterTag clusterName = \<lparr>Scope = ScopeCluster, Tag = clusterName\<rparr>"

definition serviceTag :: "NamespacedName \<Rightarrow> tag" where
  "serviceTag objectName = \<lparr>Scope = ScopeService, Tag = nn_String objectName\<rparr>"

fun checkTags :: "tag list \<Rightarrow> tag list \<Rightarrow> bool" where
  "checkTags tags [] = True"
| "checkTags tags (req # required) =
     (case find (\<lambda>tag. Scope tag = Scope req) tags of
        None \<Rightarrow> False
      | Some tag \<Rightarrow> if Tag tag \<noteq> Tag req then False else checkTags tags required)"

definition getTag :: "tag list \<Rightarrow> string \<Rightarrow> string" where
  "getTag tags scope = (case find (\<lambda>tag. Scope tag = scope) tags of None \<Rightarrow> '''' | Some tag \<Rightarrow> Tag tag)"

section \<open>Lemmas\<close>

lemma tag_eqI: "Scope s = Scope t \<Longrightarrow> Tag s = Tag t \<Longrightarrow> (s :: tag) = t"
  by simp

lemma scopes_distinct [simp]:
  "ScopeOwner \<noteq> ScopeCluster" "ScopeCluster \<noteq> ScopeOwner"
  "ScopeOwner \<noteq> ScopeService" "ScopeService \<noteq> ScopeOwner"
  "ScopeOwner \<noteq> ScopePort" "ScopePort \<noteq> ScopeOwner"
  "ScopeOwner \<noteq> ScopeIPPoolID" "ScopeIPPoolID \<noteq> ScopeOwner"
  "ScopeOwner \<noteq> ScopeLBClass" "ScopeLBClass \<noteq> ScopeOwner"
  "ScopeCluster \<noteq> ScopeService" "ScopeService \<noteq> ScopeCluster"
  "ScopeCluster \<noteq> ScopePort" "ScopePort \<noteq> ScopeCluster"
  "ScopeCluster \<noteq> ScopeIPPoolID" "ScopeIPPoolID \<noteq> ScopeCluster"
  "ScopeCluster \<noteq> ScopeLBClass" "ScopeLBClass \<noteq> ScopeCluster"
  "ScopeService \<noteq> ScopePort" "ScopePort \<noteq> ScopeService"
  "ScopeService \<noteq> ScopeIPPoolID" "ScopeIPPoolID \<noteq> ScopeService"
  "ScopeService \<noteq> ScopeLBClass" "ScopeLBClass \<noteq> ScopeService"
  "ScopePort \<noteq> ScopeIPPoolID" "ScopePort \<noteq> ScopeLBClass"
  "ScopeIPPoolID \<noteq> ScopeLBClass" "ScopeLBClass \<noteq> ScopeIPPoolID"
  by (simp_all add: scope_defs)

lemma Scope_clusterTag [simp]: "Scope (clusterTag c) = ScopeCluster"
  by (simp add: clusterTag_def)

lemma Scope_serviceTag [simp]: "Scope (serviceTag n) = ScopeService"
  by (simp add: serviceTag_def)

lemma map_of_Add: "map_of (Add m ts) = (map_of m)(map Scope ts [\<mapsto>] ts)"
  by (induction ts arbitrary: m) (simp_all add: Add_def update_conv')

lemma Add_Nil [simp]: "Add m [] = m"
  by (simp add: Add_def)

lemma Add_append: "Add m (ts @ us) = Add (Add m ts) us"
  by (simp add: Add_def)

lemma find_index_by: "find (\<lambda>x. f x = k) xs = index_by f xs k"
  by (induction xs) (simp_all add: index_by_def)

lemma tags_wf_map_of:
  "tags_wf m \<longleftrightarrow> distinct (map fst m) \<and> (\<forall>k t. map_of m k = Some t \<longrightarrow> Scope t = k)"
  unfolding tags_wf_def by (auto dest: map_of_SomeD)

lemma tags_wf_update: "tags_wf m \<Longrightarrow> tags_wf (AList.update (Scope t) t m)"
  by (auto simp: tags_wf_map_of distinct_update update_conv')

lemma tags_wf_Add: "tags_wf m \<Longrightarrow> tags_wf (Add m ts)"
  by (induction ts arbitrary: m) (simp_all add: Add_def tags_wf_update)

lemma tags_wf_scopes: "tags_wf m \<Longrightarrow> map (\<lambda>t. (Scope t, t)) (map snd m) = m"
  by (auto simp: tags_wf_def intro!: map_idI)

lemma tags_wf_distinct: "tags_wf m \<Longrightarrow> distinct (map Scope (map snd m))"
proof -
  assume "tags_wf m"
  then have "map Scope (map snd m) = map fst m" by (auto simp: tags_wf_def)
  moreover have "distinct (map fst m)" using \<open>tags_wf m\<close> by (simp add: tags_wf_def)
  ultimately show ?thesis by (simp only:)
qed

lemma index_by_mset:
  assumes "mset xs = mset ys" "distinct (map f xs)"
  shows "index_by f xs = index_by f ys"
proof -
  have d: "distinct (map f ys)"
    using assms by (metis mset_eq_imp_distinct_iff mset_map)
  have "index_by f xs k = Some x \<longleftrightarrow> index_by f ys k = Some x" for k x
    using lists_index_by [OF assms(2)] lists_index_by [OF d] mset_eq_setD [OF assms(1)]
    by (simp add: lists_def)
  then show ?thesis by (metis ext option.exhaust)
qed

text \<open>A normalised list answers a lookup as the map does.\<close>

lemma mset_Normalize [simp]: "mset (Normalize m) = mset (map snd m)"
  by (simp add: Normalize_def)

lemma distinct_Normalize: "tags_wf m \<Longrightarrow> distinct (map Scope (Normalize m))"
  using tags_wf_distinct [of m] mset_Normalize [of m] by (metis mset_eq_imp_distinct_iff mset_map)

lemma find_Normalize:
  assumes "tags_wf m"
  shows "find (\<lambda>t. Scope t = s) (Normalize m) = map_of m s"
proof -
  have "index_by Scope (Normalize m) = index_by Scope (map snd m)"
    by (rule index_by_mset) (simp_all add: distinct_Normalize assms)
  then show ?thesis
    using tags_wf_scopes [OF assms] by (simp add: find_index_by index_by_def)
qed

lemma checkTags_iff:
  "checkTags ts reqs \<longleftrightarrow> (\<forall>r \<in> set reqs. \<exists>t. find (\<lambda>t. Scope t = Scope r) ts = Some t \<and> Tag t = Tag r)"
  by (induction reqs) (auto split: option.split)

lemma checkTags_append: "checkTags ts (rs @ qs) \<longleftrightarrow> checkTags ts rs \<and> checkTags ts qs"
  by (auto simp: checkTags_iff)

lemma checkTags_Normalize:
  assumes "tags_wf m"
  shows "checkTags (Normalize m) reqs \<longleftrightarrow> (\<forall>r \<in> set reqs. map_of m (Scope r) = Some r)"
proof -
  have "Scope t = k" if "map_of m k = Some t" for k t
    using assms that unfolding tags_wf_map_of by blast
  then have "(\<exists>t. map_of m (Scope r) = Some t \<and> Tag t = Tag r) \<longleftrightarrow> map_of m (Scope r) = Some r" for r
    by (metis tag_eqI)
  then show ?thesis by (simp add: checkTags_iff find_Normalize [OF assms])
qed

lemma getTag_Normalize:
  "tags_wf m \<Longrightarrow> getTag (Normalize m) s = (case map_of m s of None \<Rightarrow> '''' | Some t \<Rightarrow> Tag t)"
  by (simp add: getTag_def find_Normalize)

lemma getTag_checkTags: "checkTags ts [\<lparr>Scope = s, Tag = v\<rparr>] \<Longrightarrow> getTag ts s = v"
  by (auto simp: getTag_def split: option.splits if_splits)

declare checkTags.simps(2) [simp del]

text \<open>
  C34. Normalising a tag map is deterministic, although Go iterates a map in an order it
  leaves open and \<open>sort.Sort\<close> is not stable: every list that holds exactly the tags of
  the map and is sorted by scope is the one \<open>Normalize\<close> gives.
\<close>

theorem Normalize_unique:
  assumes "tags_wf m" "mset ts = mset (map snd m)" "sorted (map Scope ts)"
  shows "ts = Normalize m"
proof -
  have ms: "mset (map Scope ts) = mset (map Scope (Normalize m))"
    using assms(2) mset_Normalize [of m] by (metis mset_map)
  have "sort (map Scope ts) = map Scope ts" "sort (map Scope ts) = map Scope (Normalize m)"
    using assms(3) ms by (auto intro!: properties_for_sort simp: Normalize_def)
  then have scopes: "map Scope ts = map Scope (Normalize m)" by simp
  have "set ts = set (Normalize m)"
    using assms(2) mset_Normalize [of m] by (metis mset_eq_setD)
  with scopes distinct_Normalize [OF assms(1)] show ?thesis
    by (auto intro: map_inj_on simp: distinct_map)
qed

theorem Normalize_unique_witness:
  "[\<lparr>Scope = ''a'', Tag = ''1''\<rparr>, \<lparr>Scope = ''b'', Tag = ''2''\<rparr>]
   = Normalize [(''b'', \<lparr>Scope = ''b'', Tag = ''2''\<rparr>), (''a'', \<lparr>Scope = ''a'', Tag = ''1''\<rparr>)]"
  by (rule Normalize_unique) (simp_all add: tags_wf_def)

end
