(* ===== verification/Port_Mapping.thy ===== *)
theory Port_Mapping
  imports Tags
begin

text \<open>
  The port mapping of a service port (\<open>mapping.go\<close>), its tag (\<open>portTag\<close> of
  \<open>tag.go\<close>), and the helpers of \<open>helpers.go\<close>: the object name of a service and its
  parser, and the internal addresses of nodes.
\<close>

section \<open>Mappings\<close>

record Mapping =
  SourcePort :: int
  NodePort :: int
  Protocol :: string

definition NewMapping :: "ServicePort \<Rightarrow> Mapping" where
  "NewMapping servicePort =
     \<lparr>SourcePort = sp_Port servicePort, NodePort = sp_NodePort servicePort,
      Protocol = sp_Protocol servicePort\<rparr>"

definition Mapping_String :: "Mapping \<Rightarrow> string" where
  "Mapping_String m =
     Protocol m @ ''/'' @ showInt (SourcePort m) @ ''->'' @ showInt (NodePort m)"

definition formatPort :: "int \<Rightarrow> string" where
  "formatPort port = showInt port"

definition portTag :: "Mapping \<Rightarrow> tag" where
  "portTag mapping = \<lparr>Scope = ScopePort, Tag = Protocol mapping @ ''/'' @ showInt (SourcePort mapping)\<rparr>"

definition MatchVirtualServer :: "Mapping \<Rightarrow> LbVirtualServer \<Rightarrow> bool" where
  "MatchVirtualServer m server \<longleftrightarrow>
     vs_Port server = formatPort (SourcePort m) \<and> vs_IpProtocol server = Protocol m"

definition MatchPool :: "Mapping \<Rightarrow> LbPool \<Rightarrow> bool" where
  "MatchPool m pool \<longleftrightarrow> checkTags (pool_Tags pool) [portTag m]"

definition MatchTCPMonitor :: "Mapping \<Rightarrow> LbTcpMonitor \<Rightarrow> bool" where
  "MatchTCPMonitor m monitor \<longleftrightarrow> checkTags (mon_Tags monitor) [portTag m]"

definition MatchNodePort :: "Mapping \<Rightarrow> LbVirtualServer \<Rightarrow> bool" where
  "MatchNodePort m server \<longleftrightarrow> vs_DefaultPoolMemberPort server = formatPort (NodePort m)"

section \<open>Helpers\<close>

definition objectNameFromService :: "Service \<Rightarrow> NamespacedName" where
  "objectNameFromService service = \<lparr>Namespace = s_Namespace service, Name = s_Name service\<rparr>"

text \<open>\<open>parts[1]\<close> panics when the name has no separator.\<close>

definition parseObjectName :: "string \<Rightarrow> NamespacedName outcome" where
  "parseObjectName name =
     (case splitOn (CHR ''/'') name of
        ns # nm # _ \<Rightarrow> Ok \<lparr>Namespace = ns, Name = nm\<rparr>
      | _ \<Rightarrow> Panic ''index out of range'')"

definition stringsEquals :: "string list \<Rightarrow> string list \<Rightarrow> bool" where
  "stringsEquals a b \<longleftrightarrow>
     (if length a \<noteq> length b then False else list_all (\<lambda>i. a ! i = b ! i) [0..<length a])"

definition NodeInternalIP :: string where "NodeInternalIP = ''InternalIP''"

definition internalAddress :: "Node \<Rightarrow> string option" where
  "internalAddress node =
     map_option addr_Address (find (\<lambda>addr. addr_Type addr = NodeInternalIP) (n_Addresses node))"

definition collectNodeInternalAddresses :: "Node list \<Rightarrow> (string \<times> string) list" where
  "collectNodeInternalAddresses nodes =
     fold (\<lambda>node set. case internalAddress node of
             None \<Rightarrow> set
           | Some address \<Rightarrow> AList.update address (n_Name node) set) nodes []"

section \<open>Lemmas\<close>

lemma stringsEquals_iff [simp]: "stringsEquals a b \<longleftrightarrow> a = b"
  by (auto simp: stringsEquals_def list_all_iff intro: nth_equalityI)

lemma Scope_portTag [simp]: "Scope (portTag m) = ScopePort"
  by (simp add: portTag_def)

lemma formatPort_inj [simp]: "formatPort p = formatPort q \<longleftrightarrow> p = q"
  by (simp add: formatPort_def)

lemma append_slash_inj:
  assumes "c \<notin> set ys" "c \<notin> set ys'" "xs @ c # ys = xs' @ c # ys'"
  shows "xs = xs' \<and> ys = ys'"
proof -
  from assms(3) have "rev ys @ c # rev xs = rev ys' @ c # rev xs'"
    by (metis append.assoc append_Cons append_Nil rev.simps(2) rev_append)
  moreover have "takeWhile (\<lambda>x. x \<noteq> c) (rev zs @ c # ws) = rev zs" if "c \<notin> set zs" for zs ws
    using that by (subst takeWhile_append2) auto
  ultimately have "ys = ys'" using assms(1,2) by (metis rev_rev_ident)
  with assms(3) show ?thesis by simp
qed

lemma portTag_eqD:
  assumes "portTag m = portTag m'"
  shows "Protocol m = Protocol m' \<and> SourcePort m = SourcePort m'"
proof -
  from assms have "Protocol m @ CHR ''/'' # showInt (SourcePort m)
      = Protocol m' @ CHR ''/'' # showInt (SourcePort m')"
    by (simp add: portTag_def)
  from append_slash_inj [OF slash_notin_showInt slash_notin_showInt this] show ?thesis by simp
qed

lemma checkTags_same_scope:
  "checkTags ts [s] \<Longrightarrow> checkTags ts [t] \<Longrightarrow> Scope s = Scope t \<Longrightarrow> (s :: tag) = t"
  by (auto simp: checkTags.simps(2) split: option.splits if_splits intro: tag_eqI)

lemma portTag_eq_of_match:
  "checkTags ts [portTag m] \<Longrightarrow> checkTags ts [portTag m'] \<Longrightarrow>
   Protocol m = Protocol m' \<and> SourcePort m = SourcePort m'"
  using checkTags_same_scope [of ts "portTag m" "portTag m'"] portTag_eqD [of m m']
  by simp

lemma MatchVirtualServer_eq:
  "MatchVirtualServer m s \<Longrightarrow> MatchVirtualServer m' s \<Longrightarrow>
   Protocol m = Protocol m' \<and> SourcePort m = SourcePort m'"
  by (auto simp: MatchVirtualServer_def)

lemma MatchPool_eq:
  "MatchPool m p \<Longrightarrow> MatchPool m' p \<Longrightarrow> Protocol m = Protocol m' \<and> SourcePort m = SourcePort m'"
  unfolding MatchPool_def by (rule portTag_eq_of_match)

lemma MatchTCPMonitor_eq:
  "MatchTCPMonitor m x \<Longrightarrow> MatchTCPMonitor m' x \<Longrightarrow>
   Protocol m = Protocol m' \<and> SourcePort m = SourcePort m'"
  unfolding MatchTCPMonitor_def by (rule portTag_eq_of_match)

text \<open>
  C35. The value of the service tag can be read back: the name parsed from the text of an
  object name is that object name, for every namespace and name without a slash (which
  Kubernetes names never have).
\<close>

theorem parseObjectName_roundtrip:
  assumes "CHR ''/'' \<notin> set (Namespace n)" "CHR ''/'' \<notin> set (Name n)"
  shows "parseObjectName (nn_String n) = Ok n"
  using assms by (simp add: parseObjectName_def nn_String_def splitOn_append splitOn_no_sep)

theorem parseObjectName_roundtrip_witness:
  "parseObjectName (nn_String \<lparr>Namespace = ''default'', Name = ''web''\<rparr>)
   = Ok \<lparr>Namespace = ''default'', Name = ''web''\<rparr>"
  by (rule parseObjectName_roundtrip) simp_all

text \<open>
  Parsing the value of a service tag panics (index out of range) exactly when the
  value has no slash.
\<close>

theorem parseObjectName_panics:
  "(\<exists>m. parseObjectName s = Panic m) \<longleftrightarrow> CHR ''/'' \<notin> set s"
proof
  assume "\<exists>m. parseObjectName s = Panic m"
  show "CHR ''/'' \<notin> set s"
  proof
    assume "CHR ''/'' \<in> set s"
    then obtain xs ys where "s = xs @ CHR ''/'' # ys" "CHR ''/'' \<notin> set xs"
      by (meson split_list_first)
    with \<open>\<exists>m. parseObjectName s = Panic m\<close> show False
      by (cases "splitOn (CHR ''/'') ys") (auto simp: parseObjectName_def splitOn_append)
  qed
qed (simp add: parseObjectName_def splitOn_no_sep)

lemma collect_fold:
  "fold (\<lambda>node set. case internalAddress node of None \<Rightarrow> set
           | Some address \<Rightarrow> AList.update address (n_Name node) set) nodes m = m' \<Longrightarrow>
   distinct (map fst m) \<Longrightarrow>
   distinct (map fst m') \<and> fst ` set m' = fst ` set m \<union> {a. \<exists>n \<in> set nodes. internalAddress n = Some a}"
proof (induction nodes arbitrary: m)
  case Nil
  then show ?case by simp
next
  case (Cons n nodes)
  show ?case
  proof (cases "internalAddress n")
    case None
    with Cons.IH [of m] Cons.prems show ?thesis by auto
  next
    case (Some a)
    with Cons.IH [of "AList.update a (n_Name n) m"] Cons.prems show ?thesis
      by (auto simp: distinct_update dom_update)
  qed
qed

lemma collect_distinct: "distinct (map fst (collectNodeInternalAddresses nodes))"
  using collect_fold [OF refl, of "[]" nodes] by (simp add: collectNodeInternalAddresses_def)

lemma collect_keys:
  "fst ` set (collectNodeInternalAddresses nodes) = {a. \<exists>n \<in> set nodes. internalAddress n = Some a}"
  using collect_fold [OF refl, of "[]" nodes] by (simp add: collectNodeInternalAddresses_def)

end
