(* ===== verification/Config.thy ===== *)
theory Config
  imports Prelude
begin

text \<open>
  The configuration (\<open>config/config.go\<close>): its data, the checks, the values from the
  environment and the defaults. The methods work on a pointer to the configuration, so
  each is a computation over it: what was assigned before an error stays assigned. The
  parser of the INI file (\<open>gopkg.in/gcfg.v1\<close>) is a parameter of \<open>ReadConfig\<close>, the
  environment a function from names to values (the empty string where a variable is not
  set).
\<close>

section \<open>Data\<close>

definition SizeSmall :: string where "SizeSmall = ''SMALL''"
definition SizeMedium :: string where "SizeMedium = ''MEDIUM''"
definition SizeLarge :: string where "SizeLarge = ''LARGE''"

definition DefaultMaxRetries :: int where "DefaultMaxRetries = 30"
definition DefaultRetryMinDelay :: int where "DefaultRetryMinDelay = 500"
definition DefaultRetryMaxDelay :: int where "DefaultRetryMaxDelay = 5000"

definition DefaultLoadBalancerClass :: string where "DefaultLoadBalancerClass = ''default''"

definition LoadBalancerSizes :: "string list" where
  "LoadBalancerSizes = [SizeSmall, SizeMedium, SizeLarge]"

record LoadBalancerConfig =
  lbc_IPPoolName :: string
  lbc_IPPoolID :: string
  lbc_Size :: string
  lbc_LBServiceID :: string
  lbc_LogicalRouterID :: string

record LoadBalancerClassConfig =
  cc_IPPoolName :: string
  cc_IPPoolID :: string

record NsxtConfig =
  nsxt_User :: string
  nsxt_Password :: string
  nsxt_Host :: string
  nsxt_InsecureFlag :: bool
  nsxt_RemoteAuth :: bool
  nsxt_MaxRetries :: int
  nsxt_RetryMinDelay :: int
  nsxt_RetryMaxDelay :: int
  nsxt_RetryOnStatusCodes :: "int list"
  nsxt_ClientAuthCertFile :: string
  nsxt_ClientAuthKeyFile :: string
  nsxt_CAFile :: string

record NsxtSimulation =
  SimulatedIPPools :: "string list"

record LBConfig =
  LoadBalancer :: LoadBalancerConfig
  LoadBalancerClasses :: "(string \<times> LoadBalancerClassConfig) list"
  NSXT :: NsxtConfig
  AdditionalTags :: "(string \<times> string) list"
  NSXTSimulation :: "NsxtSimulation option"

section \<open>Checks\<close>

definition LoadBalancerConfig_IsEmpty :: "LoadBalancerConfig \<Rightarrow> bool" where
  "LoadBalancerConfig_IsEmpty cfg \<longleftrightarrow> lbc_Size cfg = '''' \<and> lbc_LBServiceID cfg = '''' \<and>
     lbc_IPPoolID cfg = '''' \<and> lbc_IPPoolName cfg = '''' \<and> lbc_LogicalRouterID cfg = ''''"

definition IsEnabled :: "LBConfig \<Rightarrow> bool" where
  "IsEnabled cfg \<longleftrightarrow> length (LoadBalancerClasses cfg) > 0 \<or> \<not> LoadBalancerConfig_IsEmpty (LoadBalancer cfg)"

definition NsxtConfig_validateConfig :: "NsxtConfig \<Rightarrow> error option" where
  "NsxtConfig_validateConfig cfg =
     (if nsxt_User cfg = '''' then Some (Errorf ''user is empty'' [])
      else if nsxt_Password cfg = '''' then Some (Errorf ''password is empty'' [])
      else if nsxt_Host cfg = '''' then Some (Errorf ''host is empty'' [])
      else None)"

definition LBConfig_validateConfig :: "LBConfig \<Rightarrow> error option" where
  "LBConfig_validateConfig cfg =
     (let lb = LoadBalancer cfg;
          nsxt = (if NSXTSimulation cfg = None then NsxtConfig_validateConfig (NSXT cfg) else None)
      in if lbc_LBServiceID lb = '''' \<and> lbc_LogicalRouterID lb = ''''
         then Some (Errorf ''load balancer servive id or logical router id required'' [])
         else if lbc_Size lb \<notin> set LoadBalancerSizes
         then Some (Errorf ''load balancer size is invalid'' [])
         else if lbc_IPPoolID lb = '''' \<and> lbc_IPPoolName lb = ''''
         then (case map_of (LoadBalancerClasses cfg) DefaultLoadBalancerClass of
                 None \<Rightarrow> Some (Errorf ''no default load balancer class defined'' [])
               | Some class \<Rightarrow>
                   if cc_IPPoolName class = '''' \<and> cc_IPPoolID class = ''''
                   then Some (Errorf ''default load balancer class: ipPoolName and ipPoolID is empty'' [])
                   else nsxt)
         else if lbc_IPPoolName lb \<noteq> '''' \<and> lbc_IPPoolID lb \<noteq> ''''
         then Some (Errorf ''either load balancer ipPoolName or ipPoolID can be set'' [])
         else nsxt)"

section \<open>Values from the environment\<close>

text \<open>\<open>strconv.ParseBool\<close>\<close>

definition ParseBool :: "string \<Rightarrow> bool option" where
  "ParseBool s =
     (if s \<in> set [''1'', ''t'', ''T'', ''true'', ''TRUE'', ''True''] then Some True
      else if s \<in> set [''0'', ''f'', ''F'', ''false'', ''FALSE'', ''False''] then Some False
      else None)"

text \<open>\<open>strconv.Atoi\<close> on a 64-bit platform: an optional sign, decimal digits, no overflow.\<close>

fun parseDigits :: "nat \<Rightarrow> string \<Rightarrow> nat option" where
  "parseDigits n [] = Some n"
| "parseDigits n (c # cs) =
     (let k = of_char c :: nat in if 48 \<le> k \<and> k < 58 then parseDigits (10 * n + (k - 48)) cs else None)"

definition parseNat :: "string \<Rightarrow> nat option" where
  "parseNat s = (if s = [] then None else parseDigits 0 s)"

definition inInt64 :: "int \<Rightarrow> bool" where
  "inInt64 i \<longleftrightarrow> - (2 ^ 63) \<le> i \<and> i < 2 ^ 63"

definition Atoi :: "string \<Rightarrow> int option" where
  "Atoi s =
     (let i = (case s of
         [] \<Rightarrow> None
       | c # cs \<Rightarrow>
           if c = CHR ''-'' then map_option (\<lambda>n. - int n) (parseNat cs)
           else if c = CHR ''+'' then map_option int (parseNat cs)
           else map_option int (parseNat s))
      in case i of None \<Rightarrow> None | Some n \<Rightarrow> if inInt64 n then Some n else None)"

type_synonym env = "string \<Rightarrow> string"

definition failedToParse :: "string \<Rightarrow> string \<Rightarrow> error" where
  "failedToParse name v = Errorf (''Failed to parse '' @ name @ '': %s'') [v]"

text \<open>
  \<open>if v := os.Getenv(name); v != "" { ... }\<close> for a plain value, a boolean and a number.
  The error a failed conversion returns is named by the variable and the value.
\<close>

definition envString :: "env \<Rightarrow> string \<Rightarrow> (string \<Rightarrow> NsxtConfig \<Rightarrow> NsxtConfig) \<Rightarrow> (NsxtConfig, unit) io" where
  "envString env name upd = (if env name \<noteq> '''' then modifyIO (upd (env name)) else ret ())"

definition envBool :: "env \<Rightarrow> string \<Rightarrow> (bool \<Rightarrow> NsxtConfig \<Rightarrow> NsxtConfig) \<Rightarrow> (NsxtConfig, unit) io" where
  "envBool env name upd = (if env name \<noteq> '''' then
     (case ParseBool (env name) of
        None \<Rightarrow> throw (failedToParse name (env name))
      | Some b \<Rightarrow> modifyIO (upd b)) else ret ())"

definition envInt :: "env \<Rightarrow> string \<Rightarrow> (int \<Rightarrow> NsxtConfig \<Rightarrow> NsxtConfig) \<Rightarrow> (NsxtConfig, unit) io" where
  "envInt env name upd = (if env name \<noteq> '''' then
     (case Atoi (env name) of
        None \<Rightarrow> throw (failedToParse name (env name))
      | Some n \<Rightarrow> modifyIO (upd n)) else ret ())"

definition FromEnv :: "env \<Rightarrow> (NsxtConfig, unit) io" where
  "FromEnv env =
     bindIO (envString env ''NSXT_MANAGER_HOST'' (\<lambda>v c. c\<lparr>nsxt_Host := v\<rparr>)) (\<lambda>_.
     bindIO (envString env ''NSXT_USERNAME'' (\<lambda>v c. c\<lparr>nsxt_User := v\<rparr>)) (\<lambda>_.
     bindIO (envString env ''NSXT_PASSWORD'' (\<lambda>v c. c\<lparr>nsxt_Password := v\<rparr>)) (\<lambda>_.
     bindIO (envBool env ''NSXT_ALLOW_UNVERIFIED_SSL'' (\<lambda>v c. c\<lparr>nsxt_InsecureFlag := v\<rparr>)) (\<lambda>_.
     bindIO (envInt env ''NSXT_MAX_RETRIES'' (\<lambda>v c. c\<lparr>nsxt_MaxRetries := v\<rparr>)) (\<lambda>_.
     bindIO (envInt env ''NSXT_RETRY_MIN_DELAY'' (\<lambda>v c. c\<lparr>nsxt_RetryMinDelay := v\<rparr>)) (\<lambda>_.
     bindIO (envInt env ''NSXT_RETRY_MAX_DELAY'' (\<lambda>v c. c\<lparr>nsxt_RetryMaxDelay := v\<rparr>)) (\<lambda>_.
     bindIO (envBool env ''NSXT_REMOTE_AUTH'' (\<lambda>v c. c\<lparr>nsxt_RemoteAuth := v\<rparr>)) (\<lambda>_.
     bindIO (envString env ''NSXT_CLIENT_AUTH_CERT_FILE'' (\<lambda>v c. c\<lparr>nsxt_ClientAuthCertFile := v\<rparr>)) (\<lambda>_.
     bindIO (envString env ''NSXT_CLIENT_AUTH_KEY_FILE'' (\<lambda>v c. c\<lparr>nsxt_ClientAuthKeyFile := v\<rparr>)) (\<lambda>_.
     bindIO (envString env ''NSXT_CA_FILE'' (\<lambda>v c. c\<lparr>nsxt_CAFile := v\<rparr>)) (\<lambda>_.
     bindIO (getsIO NsxtConfig_validateConfig) (\<lambda>err.
     case err of Some e \<Rightarrow> throw e | None \<Rightarrow> ret ()))))))))))))"

section \<open>Completion\<close>

definition completeClass :: "LoadBalancerConfig \<Rightarrow> LoadBalancerClassConfig \<Rightarrow> LoadBalancerClassConfig" where
  "completeClass lb class =
     (if cc_IPPoolName class = '''' \<and> cc_IPPoolID class = ''''
      then class\<lparr>cc_IPPoolID := lbc_IPPoolID lb, cc_IPPoolName := lbc_IPPoolName lb\<rparr>
      else class)"

definition completeDefaults :: "LBConfig \<Rightarrow> LBConfig" where
  "completeDefaults cfg =
     (let n = NSXT cfg;
          n = (if nsxt_MaxRetries n = 0 then n\<lparr>nsxt_MaxRetries := DefaultMaxRetries\<rparr> else n);
          n = (if nsxt_RetryMinDelay n = 0 then n\<lparr>nsxt_RetryMinDelay := DefaultRetryMinDelay\<rparr> else n);
          n = (if nsxt_RetryMaxDelay n = 0 then n\<lparr>nsxt_RetryMaxDelay := DefaultRetryMaxDelay\<rparr> else n)
      in cfg\<lparr>NSXT := n,
             LoadBalancerClasses := map (map_prod id (completeClass (LoadBalancer cfg))) (LoadBalancerClasses cfg)\<rparr>)"

definition onNSXT :: "(NsxtConfig, unit) io \<Rightarrow> (LBConfig, unit) io" where
  "onNSXT f = (\<lambda>cfg. case f (NSXT cfg) of (r, n) \<Rightarrow> (r, cfg\<lparr>NSXT := n\<rparr>))"

definition CompleteAndValidate :: "env \<Rightarrow> (LBConfig, unit) io" where
  "CompleteAndValidate env =
     bindIO (getsIO IsEnabled) (\<lambda>enabled.
     if \<not> enabled then ret ()
     else
       bindIO (modifyIO completeDefaults) (\<lambda>_.
       bindIO (onNSXT (FromEnv env)) (\<lambda>_.
       bindIO (getsIO LBConfig_validateConfig) (\<lambda>err.
       case err of Some e \<Rightarrow> throw e | None \<Rightarrow> ret ()))))"

definition ReadConfig :: "('r \<Rightarrow> error + LBConfig) \<Rightarrow> env \<Rightarrow> 'r option \<Rightarrow> error + LBConfig" where
  "ReadConfig gcfg env config =
     (case config of
        None \<Rightarrow> Inl (Errorf ''no vSphere cloud provider config file given'' [])
      | Some r \<Rightarrow>
          (case gcfg r of
             Inl e \<Rightarrow> Inl e
           | Inr cfg \<Rightarrow>
               (case CompleteAndValidate env cfg of
                  (Ok _, cfg') \<Rightarrow> Inr cfg'
                | (Err e, _) \<Rightarrow> Inl e
                | (Panic m, _) \<Rightarrow> Inl (ApiError m))))"

section \<open>Lemmas\<close>

lemma parseDigits_append:
  "parseDigits n (s @ t) = (case parseDigits n s of None \<Rightarrow> None | Some m \<Rightarrow> parseDigits m t)"
  by (induction s arbitrary: n) (auto simp: Let_def)

lemma parseDigits_showNat: "parseDigits 0 (showNat n) = Some n"
proof (induction n rule: showNat.induct)
  case (1 n)
  show ?case
  proof (cases "n < 10")
    case True
    then show ?thesis by (simp add: showNat.simps [of n] of_char_digit)
  next
    case False
    with "1.IH" have "parseDigits 0 (showNat (n div 10)) = Some (n div 10)" by simp
    with False show ?thesis
      by (simp add: showNat.simps [of n] parseDigits_append of_char_digit)
  qed
qed

lemma showNat_head:
  obtains c cs where "showNat n = c # cs" "c \<noteq> CHR ''-''" "c \<noteq> CHR ''+''"
proof -
  obtain c cs where s: "showNat n = c # cs" by (metis list.exhaust showNat_nonempty)
  then have "48 \<le> (of_char c :: nat)" using showNat_chars [of c n] by simp
  then have "c \<noteq> CHR ''-''" "c \<noteq> CHR ''+''" by (auto simp: of_char_def)
  with s show thesis by (rule that)
qed

text \<open>What a variable does to the configuration when its value could be read.\<close>

definition envSet :: "bool \<Rightarrow> 'v \<Rightarrow> ('v \<Rightarrow> 'c \<Rightarrow> 'c) \<Rightarrow> 'c \<Rightarrow> 'c" where
  "envSet b v upd c = (if b then upd v c else c)"

lemma envSet_other: "(\<And>v c. sel (upd v c) = sel c) \<Longrightarrow> sel (envSet b v upd c) = sel c"
  by (simp add: envSet_def)

lemma envSet_same: "(\<And>v c. sel (upd v c) = v) \<Longrightarrow> sel (envSet b v upd c) = (if b then v else sel c)"
  by (simp add: envSet_def)

lemma envString_Ok:
  "envString env n upd c = (Ok u, c') \<longleftrightarrow> c' = envSet (env n \<noteq> '''') (env n) upd c"
  by (auto simp: envString_def modifyIO_def ret_def envSet_def)

lemma envBool_Ok:
  "envBool env n upd c = (Ok u, c') \<longleftrightarrow>
   (env n = '''' \<or> ParseBool (env n) \<noteq> None) \<and>
   c' = envSet (env n \<noteq> '''') (the (ParseBool (env n))) upd c"
  by (auto simp: envBool_def modifyIO_def ret_def throw_def envSet_def split: option.split)

lemma envInt_Ok:
  "envInt env n upd c = (Ok u, c') \<longleftrightarrow>
   (env n = '''' \<or> Atoi (env n) \<noteq> None) \<and>
   c' = envSet (env n \<noteq> '''') (the (Atoi (env n))) upd c"
  by (auto simp: envInt_def modifyIO_def ret_def throw_def envSet_def split: option.split)

lemma gets_Ok: "getsIO f s = (Ok v, s') \<longleftrightarrow> v = f s \<and> s' = s"
  by (auto simp: getsIO_def)

lemma raise_Ok:
  "(case e of Some e \<Rightarrow> throw e | None \<Rightarrow> ret ()) c = (Ok u, c') \<longleftrightarrow> e = None \<and> c' = c"
  by (auto simp: throw_def ret_def split: option.split)

lemma FromEnv_Ok:
  "FromEnv env c = (Ok u, c') \<Longrightarrow>
   c' = envSet (env ''NSXT_CA_FILE'' \<noteq> '''') (env ''NSXT_CA_FILE'') (\<lambda>v c. c\<lparr>nsxt_CAFile := v\<rparr>)
     (envSet (env ''NSXT_CLIENT_AUTH_KEY_FILE'' \<noteq> '''') (env ''NSXT_CLIENT_AUTH_KEY_FILE'') (\<lambda>v c. c\<lparr>nsxt_ClientAuthKeyFile := v\<rparr>)
     (envSet (env ''NSXT_CLIENT_AUTH_CERT_FILE'' \<noteq> '''') (env ''NSXT_CLIENT_AUTH_CERT_FILE'') (\<lambda>v c. c\<lparr>nsxt_ClientAuthCertFile := v\<rparr>)
     (envSet (env ''NSXT_REMOTE_AUTH'' \<noteq> '''') (the (ParseBool (env ''NSXT_REMOTE_AUTH''))) (\<lambda>v c. c\<lparr>nsxt_RemoteAuth := v\<rparr>)
     (envSet (env ''NSXT_RETRY_MAX_DELAY'' \<noteq> '''') (the (Atoi (env ''NSXT_RETRY_MAX_DELAY''))) (\<lambda>v c. c\<lparr>nsxt_RetryMaxDelay := v\<rparr>)
     (envSet (env ''NSXT_RETRY_MIN_DELAY'' \<noteq> '''') (the (Atoi (env ''NSXT_RETRY_MIN_DELAY''))) (\<lambda>v c. c\<lparr>nsxt_RetryMinDelay := v\<rparr>)
     (envSet (env ''NSXT_MAX_RETRIES'' \<noteq> '''') (the (Atoi (env ''NSXT_MAX_RETRIES''))) (\<lambda>v c. c\<lparr>nsxt_MaxRetries := v\<rparr>)
     (envSet (env ''NSXT_ALLOW_UNVERIFIED_SSL'' \<noteq> '''') (the (ParseBool (env ''NSXT_ALLOW_UNVERIFIED_SSL''))) (\<lambda>v c. c\<lparr>nsxt_InsecureFlag := v\<rparr>)
     (envSet (env ''NSXT_PASSWORD'' \<noteq> '''') (env ''NSXT_PASSWORD'') (\<lambda>v c. c\<lparr>nsxt_Password := v\<rparr>)
     (envSet (env ''NSXT_USERNAME'' \<noteq> '''') (env ''NSXT_USERNAME'') (\<lambda>v c. c\<lparr>nsxt_User := v\<rparr>)
     (envSet (env ''NSXT_MANAGER_HOST'' \<noteq> '''') (env ''NSXT_MANAGER_HOST'') (\<lambda>v c. c\<lparr>nsxt_Host := v\<rparr>) c))))))))))
   \<and> NsxtConfig_validateConfig c' = None
   \<and> (env ''NSXT_MAX_RETRIES'' = '''' \<or> Atoi (env ''NSXT_MAX_RETRIES'') \<noteq> None)
   \<and> (env ''NSXT_RETRY_MIN_DELAY'' = '''' \<or> Atoi (env ''NSXT_RETRY_MIN_DELAY'') \<noteq> None)
   \<and> (env ''NSXT_RETRY_MAX_DELAY'' = '''' \<or> Atoi (env ''NSXT_RETRY_MAX_DELAY'') \<noteq> None)"
  unfolding FromEnv_def bindIO_Ok envString_Ok envBool_Ok envInt_Ok gets_Ok raise_Ok
  by (elim exE conjE) (simp only: simp_thms)

lemma FromEnv_fields:
  assumes "FromEnv env c = (Ok u, c')"
  shows "nsxt_Host c' = (if env ''NSXT_MANAGER_HOST'' \<noteq> '''' then env ''NSXT_MANAGER_HOST'' else nsxt_Host c)"
    "nsxt_User c' = (if env ''NSXT_USERNAME'' \<noteq> '''' then env ''NSXT_USERNAME'' else nsxt_User c)"
    "nsxt_Password c' = (if env ''NSXT_PASSWORD'' \<noteq> '''' then env ''NSXT_PASSWORD'' else nsxt_Password c)"
    "nsxt_MaxRetries c' = (if env ''NSXT_MAX_RETRIES'' \<noteq> '''' then the (Atoi (env ''NSXT_MAX_RETRIES'')) else nsxt_MaxRetries c)"
    "nsxt_RetryMinDelay c' = (if env ''NSXT_RETRY_MIN_DELAY'' \<noteq> '''' then the (Atoi (env ''NSXT_RETRY_MIN_DELAY'')) else nsxt_RetryMinDelay c)"
    "nsxt_RetryMaxDelay c' = (if env ''NSXT_RETRY_MAX_DELAY'' \<noteq> '''' then the (Atoi (env ''NSXT_RETRY_MAX_DELAY'')) else nsxt_RetryMaxDelay c)"
    "nsxt_RetryOnStatusCodes c' = nsxt_RetryOnStatusCodes c"
  by (subst FromEnv_Ok [OF assms, THEN conjunct1];
      simp add: envSet_other [of nsxt_Host] envSet_same [of nsxt_Host]
        envSet_other [of nsxt_User] envSet_same [of nsxt_User]
        envSet_other [of nsxt_Password] envSet_same [of nsxt_Password]
        envSet_other [of nsxt_MaxRetries] envSet_same [of nsxt_MaxRetries]
        envSet_other [of nsxt_RetryMinDelay] envSet_same [of nsxt_RetryMinDelay]
        envSet_other [of nsxt_RetryMaxDelay] envSet_same [of nsxt_RetryMaxDelay]
        envSet_other [of nsxt_RetryOnStatusCodes])+

lemma FromEnv_valid: "FromEnv env c = (Ok u, c') \<Longrightarrow> NsxtConfig_validateConfig c' = None"
  using FromEnv_Ok by blast

lemma NsxtConfig_validateConfig_None:
  "NsxtConfig_validateConfig c = None \<longleftrightarrow> nsxt_User c \<noteq> '''' \<and> nsxt_Password c \<noteq> '''' \<and> nsxt_Host c \<noteq> ''''"
  by (simp add: NsxtConfig_validateConfig_def)

lemma onNSXT_Ok: "onNSXT f cfg = (Ok u, cfg') \<longleftrightarrow> (\<exists>n. f (NSXT cfg) = (Ok u, n) \<and> cfg' = cfg\<lparr>NSXT := n\<rparr>)"
  by (auto simp: onNSXT_def split: prod.splits)

lemma CompleteAndValidate_Ok:
  assumes "CompleteAndValidate env cfg = (Ok u, cfg')" "IsEnabled cfg"
  obtains n where "FromEnv env (NSXT (completeDefaults cfg)) = (Ok (), n)"
    "cfg' = (completeDefaults cfg)\<lparr>NSXT := n\<rparr>" "LBConfig_validateConfig cfg' = None"
  using assms by (auto simp: CompleteAndValidate_def bindIO_Ok gets_Ok raise_Ok onNSXT_Ok modifyIO_def)

lemma CompleteAndValidate_disabled:
  "\<not> IsEnabled cfg \<Longrightarrow> CompleteAndValidate env cfg = (Ok (), cfg)"
  by (simp add: CompleteAndValidate_def bindIO_def getsIO_def ret_def)

lemma completeDefaults_retries:
  "nsxt_MaxRetries (NSXT (completeDefaults cfg)) \<noteq> 0"
  "nsxt_RetryMinDelay (NSXT (completeDefaults cfg)) \<noteq> 0"
  "nsxt_RetryMaxDelay (NSXT (completeDefaults cfg)) \<noteq> 0"
  by (simp_all add: completeDefaults_def Let_def DefaultMaxRetries_def DefaultRetryMinDelay_def
      DefaultRetryMaxDelay_def)

lemma completeDefaults_classes:
  "LoadBalancerClasses (completeDefaults cfg) = map (map_prod id (completeClass (LoadBalancer cfg))) (LoadBalancerClasses cfg)"
  "LoadBalancer (completeDefaults cfg) = LoadBalancer cfg"
  "NSXTSimulation (completeDefaults cfg) = NSXTSimulation cfg"
  by (simp_all add: completeDefaults_def Let_def)

lemma LBConfig_validateConfig_None:
  "LBConfig_validateConfig cfg = None \<Longrightarrow>
   (lbc_LBServiceID (LoadBalancer cfg) \<noteq> '''' \<or> lbc_LogicalRouterID (LoadBalancer cfg) \<noteq> '''') \<and>
   lbc_Size (LoadBalancer cfg) \<in> {''SMALL'', ''MEDIUM'', ''LARGE''} \<and>
   \<not> (lbc_IPPoolName (LoadBalancer cfg) \<noteq> '''' \<and> lbc_IPPoolID (LoadBalancer cfg) \<noteq> '''')"
  by (auto simp: LBConfig_validateConfig_def Let_def LoadBalancerSizes_def SizeSmall_def
      SizeMedium_def SizeLarge_def split: if_splits option.splits)

section \<open>Properties\<close>

text \<open>
  C32. A configuration that was completed without an error and enables the load balancer
  is usable: it names a load balancer service or a router, one of the three sizes, not
  both a pool name and a pool id, and complete NSX-T credentials; every class has an IP
  pool of its own or the one of the load balancer section.
\<close>

theorem CompleteAndValidate_sound:
  assumes "CompleteAndValidate env cfg = (Ok (), cfg')" "IsEnabled cfg"
  shows "(lbc_LBServiceID (LoadBalancer cfg') \<noteq> '''' \<or> lbc_LogicalRouterID (LoadBalancer cfg') \<noteq> '''') \<and>
    lbc_Size (LoadBalancer cfg') \<in> {''SMALL'', ''MEDIUM'', ''LARGE''} \<and>
    \<not> (lbc_IPPoolName (LoadBalancer cfg') \<noteq> '''' \<and> lbc_IPPoolID (LoadBalancer cfg') \<noteq> '''') \<and>
    nsxt_User (NSXT cfg') \<noteq> '''' \<and> nsxt_Password (NSXT cfg') \<noteq> '''' \<and> nsxt_Host (NSXT cfg') \<noteq> '''' \<and>
    (\<forall>(name, class) \<in> set (LoadBalancerClasses cfg'). cc_IPPoolName class = '''' \<and> cc_IPPoolID class = '''' \<longrightarrow>
       lbc_IPPoolName (LoadBalancer cfg') = '''' \<and> lbc_IPPoolID (LoadBalancer cfg') = '''')"
proof -
  from assms obtain n where n: "FromEnv env (NSXT (completeDefaults cfg)) = (Ok (), n)"
    and cfg': "cfg' = (completeDefaults cfg)\<lparr>NSXT := n\<rparr>" and v: "LBConfig_validateConfig cfg' = None"
    by (rule CompleteAndValidate_Ok)
  have "nsxt_User (NSXT cfg') \<noteq> '''' \<and> nsxt_Password (NSXT cfg') \<noteq> '''' \<and> nsxt_Host (NSXT cfg') \<noteq> ''''"
    using FromEnv_valid [OF n] by (simp add: cfg' NsxtConfig_validateConfig_None)
  moreover have "\<forall>(name, class) \<in> set (LoadBalancerClasses cfg'). cc_IPPoolName class = '''' \<and> cc_IPPoolID class = '''' \<longrightarrow>
      lbc_IPPoolName (LoadBalancer cfg') = '''' \<and> lbc_IPPoolID (LoadBalancer cfg') = ''''"
    by (auto simp: cfg' completeDefaults_classes completeClass_def split: if_splits)
  ultimately show ?thesis using LBConfig_validateConfig_None [OF v] by blast
qed

definition example_nsxt :: NsxtConfig where
  "example_nsxt = \<lparr>nsxt_User = ''admin'', nsxt_Password = ''secret'', nsxt_Host = ''nsxt-server'',
     nsxt_InsecureFlag = False, nsxt_RemoteAuth = False, nsxt_MaxRetries = 0, nsxt_RetryMinDelay = 0,
     nsxt_RetryMaxDelay = 0, nsxt_RetryOnStatusCodes = [1, 2, 3], nsxt_ClientAuthCertFile = '''',
     nsxt_ClientAuthKeyFile = '''', nsxt_CAFile = ''''\<rparr>"

definition example_cfg :: LBConfig where
  "example_cfg = \<lparr>LoadBalancer = \<lparr>lbc_IPPoolName = ''pool1'', lbc_IPPoolID = '''', lbc_Size = ''MEDIUM'',
       lbc_LBServiceID = '''', lbc_LogicalRouterID = ''1234''\<rparr>,
     LoadBalancerClasses = [(''public'', \<lparr>cc_IPPoolName = ''poolPublic'', cc_IPPoolID = ''''\<rparr>)],
     NSXT = example_nsxt, AdditionalTags = [(''tag1'', ''value1'')],
     NSXTSimulation = Some \<lparr>SimulatedIPPools = [''pool1'', ''poolPublic'']\<rparr>\<rparr>"

lemma example_completes:
  "CompleteAndValidate (\<lambda>_. '''') example_cfg
   = (Ok (), example_cfg\<lparr>NSXT := example_nsxt\<lparr>nsxt_MaxRetries := 30, nsxt_RetryMinDelay := 500,
       nsxt_RetryMaxDelay := 5000\<rparr>\<rparr>)"
  by code_simp

lemma example_enabled: "IsEnabled example_cfg"
  by code_simp

theorem CompleteAndValidate_sound_witness:
  "lbc_Size (LoadBalancer example_cfg) \<in> {''SMALL'', ''MEDIUM'', ''LARGE''}"
  using CompleteAndValidate_sound [OF example_completes example_enabled] by simp


definition example_env :: env where
  "example_env = (\<lambda>_. '''')(''NSXT_USERNAME'' := ''root'', ''NSXT_MAX_RETRIES'' := ''7'')"


text \<open>
  The simulation does not relax the check of the credentials: with a simulated backend
  and no user name in the file or in the environment, an enabled configuration is refused,
  although \<open>validateConfig\<close> asks for credentials only without a simulation.
\<close>

theorem simulation_needs_credentials:
  assumes "IsEnabled cfg" "NSXTSimulation cfg \<noteq> None"
    "nsxt_User (NSXT cfg) = ''''" "env ''NSXT_USERNAME'' = ''''"
  shows "fst (CompleteAndValidate env cfg) \<noteq> Ok ()"
proof
  assume "fst (CompleteAndValidate env cfg) = Ok ()"
  then have "CompleteAndValidate env cfg = (Ok (), snd (CompleteAndValidate env cfg))"
    by (metis prod.collapse)
  then obtain n where n: "FromEnv env (NSXT (completeDefaults cfg)) = (Ok (), n)"
    using assms(1) by (rule CompleteAndValidate_Ok)
  have "nsxt_User (NSXT (completeDefaults cfg)) = nsxt_User (NSXT cfg)"
    by (simp add: completeDefaults_def Let_def)
  then have "nsxt_User n = ''''"
    using FromEnv_fields(2) [OF n] assms(3,4) by simp
  then show False
    using FromEnv_valid [OF n] by (simp add: NsxtConfig_validateConfig_None)
qed

theorem simulation_needs_credentials_witness:
  "fst (CompleteAndValidate (\<lambda>_. '''') (example_cfg\<lparr>NSXT := example_nsxt\<lparr>nsxt_User := ''''\<rparr>\<rparr>)) \<noteq> Ok ()"
  by (rule simulation_needs_credentials) (code_simp+)

text \<open>
  \<open>strconv.Atoi\<close> reads back what \<open>%d\<close> wrote, for every 64-bit integer, and refuses
  every number outside that range.
\<close>

theorem Atoi_showInt: "Atoi (showInt i) = (if inInt64 i then Some i else None)"
proof -
  obtain c cs where s: "showNat (nat i) = c # cs" "c \<noteq> CHR ''-''" "c \<noteq> CHR ''+''"
    by (rule showNat_head)
  have "parseNat (showNat n) = Some n" for n
    by (simp add: parseNat_def parseDigits_showNat)
  note p = this this [of "nat i", unfolded s]
  show ?thesis using s p by (simp add: showInt_def Atoi_def)
qed

end
