(* ===== verification/Access.thy ===== *)
theory Access
  imports Broker Port_Mapping Config
begin

text \<open>
  The access layer (\<open>access.go\<close>, behind the interface \<open>NSXTAccess\<close> of
  \<open>interface.go\<close>): it builds the NSX-T objects with their tags, finds the controller's
  own objects by tags, and turns status codes into errors. What it promises is proved over
  the contract of a backend; the properties state it for the tags it writes and reads.
\<close>

section \<open>The access object\<close>

definition AppName :: string where "AppName = ''nsxt-lb-provider''"

record 's access =
  broker :: "'s NsxtBroker"
  config :: LBConfig
  ownerTag :: tag
  standardTags :: tags

definition NewAccess :: "'s NsxtBroker \<Rightarrow> LBConfig \<Rightarrow> error + 's access" where
  "NewAccess b cfg =
     (let standardTags = fold (\<lambda>(k, v) m. AList.update k \<lparr>Scope = k, Tag = v\<rparr> m) (AdditionalTags cfg)
            [(ScopeOwner, \<lparr>Scope = ScopeOwner, Tag = AppName\<rparr>)]
      in Inr \<lparr>broker = b, config = cfg,
           ownerTag = (case map_of standardTags ScopeOwner of
                         Some t \<Rightarrow> t | None \<Rightarrow> \<lparr>Scope = '''', Tag = ''''\<rparr>),
           standardTags = standardTags\<rparr>)"

abbreviation "routerID a \<equiv> lbc_LogicalRouterID (LoadBalancer (config a))"

section \<open>IP pools\<close>

definition FindIPPoolByName :: "'s access \<Rightarrow> string \<Rightarrow> ('s, string) io" where
  "FindIPPoolByName a poolName =
     bindIO (wrapErr (\<lambda>e. Wrapf e ''listing IP pools failed'' []) (b_ListIPPools (broker a))) (\<lambda>objList.
     case find (\<lambda>item. ipp_DisplayName item = poolName) objList of
       Some item \<Rightarrow> ret (ipp_Id item)
     | None \<Rightarrow> throw (Errorf ''load balancer IP pool named %s not found'' [poolName]))"

definition AllocateExternalIPAddress :: "'s access \<Rightarrow> string \<Rightarrow> ('s, string) io" where
  "AllocateExternalIPAddress a ipPoolID =
     bindIO (b_AllocateFromIPPool (broker a) ipPoolID) (\<lambda>(ipAddress, statusCode, err).
     case err of
       Some e \<Rightarrow> throw (Wrapf e ''allocating external IP address failed'' [])
     | None \<Rightarrow>
         if statusCode \<noteq> StatusOK
         then throw (Errorf ''allocating external IP address failed with unexpected status code %d'' [showInt statusCode])
         else ret ipAddress)"

definition IsAllocatedExternalIPAddress :: "'s access \<Rightarrow> string \<Rightarrow> string \<Rightarrow> ('s, bool) io" where
  "IsAllocatedExternalIPAddress a ipPoolID ipAddress =
     bindIO (b_ListIPPoolAllocations (broker a) ipPoolID) (\<lambda>(ipAddresses, statusCode, err).
     if statusCode = StatusNotFound then ret False
     else case err of
       Some e \<Rightarrow> throw (Wrapf e ''listing IP addresses from load balancer IP pool %s (%s) failed''
                      [lbc_IPPoolName (LoadBalancer (config a)), ipPoolID])
     | None \<Rightarrow>
         if statusCode \<noteq> StatusOK
         then throw (Errorf ''unexpected status code %d returned on listing IP addresses from load balancer IP pool %s (%s)''
                      [showInt statusCode, lbc_IPPoolName (LoadBalancer (config a)), ipPoolID])
         else ret (list_ex (\<lambda>address. address = ipAddress) ipAddresses))"

definition ReleaseExternalIPAddress :: "'s access \<Rightarrow> string \<Rightarrow> string \<Rightarrow> ('s, unit) io" where
  "ReleaseExternalIPAddress a ipPoolID address =
     bindIO (b_ReleaseFromIPPool (broker a) ipPoolID address) (\<lambda>(statusCode, err).
     if statusCode \<noteq> StatusOK
     then throw (Errorf ''unexpected status code %d returned releasing IP address %s from load balancer IP pool %s (%s)''
            [showInt statusCode, address, lbc_IPPoolName (LoadBalancer (config a)), ipPoolID])
     else case err of
       Some e \<Rightarrow> throw (Wrapf e ''releasing external IP address %s failed'' [address])
     | None \<Rightarrow> ret ())"

section \<open>Load balancer services\<close>

definition newLbServiceObject :: "'s access \<Rightarrow> string \<Rightarrow> LbService" where
  "newLbServiceObject a clusterName =
     \<lparr>svc_Description = ''virtual server pool for cluster '' @ clusterName @ '' created by '' @ AppName,
      svc_DisplayName = ''cluster:'' @ clusterName,
      svc_Id = '''',
      svc_Tags = Normalize (Add (standardTags a) [clusterTag clusterName]),
      svc_Size = lbc_Size (LoadBalancer (config a)),
      svc_Enabled = True,
      svc_Attachment = Some (routerID a),
      svc_VirtualServerIds = []\<rparr>"

definition CreateLoadBalancerService :: "'s access \<Rightarrow> string \<Rightarrow> ('s, LbService) io" where
  "CreateLoadBalancerService a clusterName =
     wrapErr (\<lambda>e. Wrapf e ''creating load balancer service failed for cluster %s'' [clusterName])
       (b_CreateLoadBalancerService (broker a) (newLbServiceObject a clusterName))"

text \<open>The router a load balancer service is attached to, compared with the configured one.\<close>

definition attachedTo :: "LbService \<Rightarrow> string \<Rightarrow> bool" where
  "attachedTo item router \<longleftrightarrow> svc_Attachment item = Some router"

definition findLoadBalancerService ::
  "'s access \<Rightarrow> string \<Rightarrow> (LbService \<Rightarrow> bool) \<Rightarrow> ('s, LbService option) io" where
  "findLoadBalancerService a clusterName f =
     bindIO (wrapErr (\<lambda>e. Wrapf e ''listing load balancer services failed'' [])
       (b_ListLoadBalancerServices (broker a))) (\<lambda>list.
     ret (find (\<lambda>item.
        (routerID a \<noteq> '''' \<and> attachedTo item (routerID a) \<and> f item) \<or>
        (checkTags (svc_Tags item) [ownerTag a, clusterTag clusterName] \<and> f item)) list))"

definition FindLoadBalancerService :: "'s access \<Rightarrow> string \<Rightarrow> string \<Rightarrow> ('s, LbService option) io" where
  "FindLoadBalancerService a clusterName ident =
     (if ident \<noteq> '''' then
        bindIO (b_ReadLoadBalancerService (broker a) ident) (\<lambda>result.
        if routerID a \<noteq> '''' \<and> \<not> attachedTo result (routerID a)
        then throw (Errorf ''load balancer service %q is configured for router %q not %q''
               [svc_Id result,
                (case svc_Attachment result of None \<Rightarrow> ''nil'' | Some targetID \<Rightarrow> targetID),
                routerID a])
        else ret (Some result))
      else findLoadBalancerService a clusterName (\<lambda>_. True))"

definition FindLoadBalancerServiceForVirtualServer ::
  "'s access \<Rightarrow> string \<Rightarrow> string \<Rightarrow> ('s, LbService option) io" where
  "FindLoadBalancerServiceForVirtualServer a clusterName serverID =
     findLoadBalancerService a clusterName
       (\<lambda>item. list_ex (\<lambda>ident. ident = serverID) (svc_VirtualServerIds item))"

definition UpdateLoadBalancerService :: "'s access \<Rightarrow> LbService \<Rightarrow> ('s, unit) io" where
  "UpdateLoadBalancerService a lbService =
     bindIO (wrapErr (\<lambda>e. Wrapf e ''updating load balancer service %s (%s) failed''
               [svc_DisplayName lbService, svc_Id lbService])
       (b_UpdateLoadBalancerService (broker a) lbService)) (\<lambda>_. ret ())"

text \<open>\<open>if statusCode == http.StatusNotFound { return nil }; if err != nil { return errors.Wrapf(...) }\<close>\<close>

definition deletion :: "(error \<Rightarrow> error) \<Rightarrow> ('s, int \<times> error option) io \<Rightarrow> ('s, unit) io" where
  "deletion wrap call =
     bindIO call (\<lambda>(statusCode, err).
     if statusCode = StatusNotFound then ret ()
     else case err of Some e \<Rightarrow> throw (wrap e) | None \<Rightarrow> ret ())"

definition DeleteLoadBalancerService :: "'s access \<Rightarrow> string \<Rightarrow> ('s, unit) io" where
  "DeleteLoadBalancerService a ident =
     deletion (\<lambda>e. Wrapf e ''deleting load balancer service %s failed'' [ident])
       (b_DeleteLoadBalancerService (broker a) ident)"

section \<open>Virtual servers\<close>

definition newVirtualServerObject ::
  "'s access \<Rightarrow> string \<Rightarrow> NamespacedName \<Rightarrow> TagSource \<Rightarrow> string \<Rightarrow> Mapping \<Rightarrow> string \<Rightarrow> LbVirtualServer" where
  "newVirtualServerObject a clusterName objectName tags ipAddress mapping poolID =
     \<lparr>vs_Description = ''virtual server for cluster '' @ clusterName @ '', service ''
        @ nn_String objectName @ '' created by '' @ AppName,
      vs_DisplayName = ''cluster:'' @ clusterName @ '':'' @ nn_String objectName,
      vs_Id = '''',
      vs_Tags = Normalize (Add (Add (standardTags a) [clusterTag clusterName, serviceTag objectName]) tags),
      vs_DefaultPoolMemberPort = showInt (NodePort mapping),
      vs_Enabled = True,
      vs_IpAddress = ipAddress,
      vs_IpProtocol = Protocol mapping,
      vs_PoolId = poolID,
      vs_Port = showInt (SourcePort mapping)\<rparr>"

definition CreateVirtualServer ::
  "'s access \<Rightarrow> string \<Rightarrow> NamespacedName \<Rightarrow> TagSource \<Rightarrow> string \<Rightarrow> Mapping \<Rightarrow> string \<Rightarrow> ('s, LbVirtualServer) io" where
  "CreateVirtualServer a clusterName objectName tags ipAddress mapping poolID =
     wrapErr (\<lambda>e. Wrapf e ''creating virtual server failed for %s:%s with IP address %s''
         [clusterName, nn_String objectName, ipAddress])
       (b_CreateLoadBalancerVirtualServer (broker a)
          (newVirtualServerObject a clusterName objectName tags ipAddress mapping poolID))"

definition listVirtualServers :: "'s access \<Rightarrow> tag list \<Rightarrow> ('s, LbVirtualServer list) io" where
  "listVirtualServers a tags =
     bindIO (wrapErr (\<lambda>e. Wrapf e ''listing virtual servers failed'' [])
       (b_ListLoadBalancerVirtualServers (broker a))) (\<lambda>list.
     ret (filter (\<lambda>item. checkTags (vs_Tags item) tags) list))"

definition FindVirtualServers :: "'s access \<Rightarrow> string \<Rightarrow> NamespacedName \<Rightarrow> ('s, LbVirtualServer list) io" where
  "FindVirtualServers a clusterName objectName =
     listVirtualServers a [ownerTag a, clusterTag clusterName, serviceTag objectName]"

definition ListVirtualServers :: "'s access \<Rightarrow> string \<Rightarrow> ('s, LbVirtualServer list) io" where
  "ListVirtualServers a clusterName = listVirtualServers a [ownerTag a, clusterTag clusterName]"

definition UpdateVirtualServer :: "'s access \<Rightarrow> LbVirtualServer \<Rightarrow> ('s, unit) io" where
  "UpdateVirtualServer a server =
     bindIO (wrapErr (\<lambda>e. Wrapf e ''updating load balancer virtual server %s (%s) failed''
               [vs_DisplayName server, vs_Id server])
       (b_UpdateLoadBalancerVirtualServer (broker a) server)) (\<lambda>_. ret ())"

definition DeleteVirtualServer :: "'s access \<Rightarrow> string \<Rightarrow> ('s, unit) io" where
  "DeleteVirtualServer a ident =
     deletion (\<lambda>e. Wrapf e ''deleting virtual server %s failed'' [ident])
       (b_DeleteLoadBalancerVirtualServer (broker a) ident)"

section \<open>Pools\<close>

definition newPoolObject ::
  "'s access \<Rightarrow> string \<Rightarrow> NamespacedName \<Rightarrow> Mapping \<Rightarrow> PoolMember list \<Rightarrow> string list \<Rightarrow> LbPool" where
  "newPoolObject a clusterName objectName mapping members activeMonitorIds =
     \<lparr>pool_Description = ''pool for cluster '' @ clusterName @ '', service '' @ nn_String objectName
        @ '' created by '' @ AppName,
      pool_DisplayName = ''cluster:'' @ clusterName @ '':'' @ nn_String objectName,
      pool_Id = '''',
      pool_Tags = Normalize (Add (standardTags a) [clusterTag clusterName, serviceTag objectName, portTag mapping]),
      pool_SnatTranslation = Some ''LbSnatAutoMap'',
      pool_Members = members,
      pool_ActiveMonitorIds = activeMonitorIds\<rparr>"

definition CreatePool ::
  "'s access \<Rightarrow> string \<Rightarrow> NamespacedName \<Rightarrow> Mapping \<Rightarrow> PoolMember list \<Rightarrow> string list \<Rightarrow> ('s, LbPool) io" where
  "CreatePool a clusterName objectName mapping members activeMonitorIds =
     wrapErr (\<lambda>e. Wrapf e ''creating pool failed for %s:%s'' [clusterName, nn_String objectName])
       (b_CreateLoadBalancerPool (broker a)
          (newPoolObject a clusterName objectName mapping members activeMonitorIds))"

definition GetPool :: "'s access \<Rightarrow> string \<Rightarrow> ('s, LbPool) io" where
  "GetPool a ident = b_ReadLoadBalancerPool (broker a) ident"

definition FindPool :: "'s access \<Rightarrow> string \<Rightarrow> NamespacedName \<Rightarrow> Mapping \<Rightarrow> ('s, LbPool option) io" where
  "FindPool a clusterName objectName mapping =
     bindIO (wrapErr (\<lambda>e. Wrapf e ''listing load balancer pools failed'' [])
       (b_ListLoadBalancerPools (broker a))) (\<lambda>list.
     ret (find (\<lambda>item. checkTags (pool_Tags item)
       [ownerTag a, clusterTag clusterName, serviceTag objectName, portTag mapping]) list))"

definition listPools :: "'s access \<Rightarrow> tag list \<Rightarrow> ('s, LbPool list) io" where
  "listPools a tags =
     bindIO (wrapErr (\<lambda>e. Wrapf e ''listing pools failed'' []) (b_ListLoadBalancerPools (broker a))) (\<lambda>list.
     ret (filter (\<lambda>item. checkTags (pool_Tags item) tags) list))"

definition FindPools :: "'s access \<Rightarrow> string \<Rightarrow> NamespacedName \<Rightarrow> ('s, LbPool list) io" where
  "FindPools a clusterName objectName =
     listPools a [ownerTag a, clusterTag clusterName, serviceTag objectName]"

definition ListPools :: "'s access \<Rightarrow> string \<Rightarrow> ('s, LbPool list) io" where
  "ListPools a clusterName = listPools a [ownerTag a, clusterTag clusterName]"

definition UpdatePool :: "'s access \<Rightarrow> LbPool \<Rightarrow> ('s, unit) io" where
  "UpdatePool a pool =
     bindIO (wrapErr (\<lambda>e. Wrapf e ''updating load balancer pool %s (%s) failed''
               [pool_DisplayName pool, pool_Id pool])
       (b_UpdateLoadBalancerPool (broker a) pool)) (\<lambda>_. ret ())"

definition DeletePool :: "'s access \<Rightarrow> string \<Rightarrow> ('s, unit) io" where
  "DeletePool a ident =
     deletion (\<lambda>e. Wrapf e ''deleting load balancer pool %s failed'' [ident])
       (b_DeleteLoadBalancerPool (broker a) ident)"

section \<open>TCP monitors\<close>

definition newTCPMonitorObject :: "'s access \<Rightarrow> string \<Rightarrow> NamespacedName \<Rightarrow> Mapping \<Rightarrow> LbTcpMonitor" where
  "newTCPMonitorObject a clusterName objectName mapping =
     \<lparr>mon_Description = ''tcp monitor for cluster '' @ clusterName @ '', service '' @ nn_String objectName
        @ '', port '' @ showInt (NodePort mapping) @ '' created by '' @ AppName,
      mon_DisplayName = ''cluster:'' @ clusterName @ '':'' @ nn_String objectName @ '':'' @ showInt (NodePort mapping),
      mon_Id = '''',
      mon_ResourceType = '''',
      mon_Tags = Normalize (Add (standardTags a) [clusterTag clusterName, serviceTag objectName, portTag mapping]),
      mon_MonitorPort = showInt (NodePort mapping)\<rparr>"

definition CreateTCPMonitor :: "'s access \<Rightarrow> string \<Rightarrow> NamespacedName \<Rightarrow> Mapping \<Rightarrow> ('s, LbTcpMonitor) io" where
  "CreateTCPMonitor a clusterName objectName mapping =
     wrapErr (\<lambda>e. Wrapf e ''creating tcp monitor failed for %s:%s:%d''
         [clusterName, nn_String objectName, showInt (NodePort mapping)])
       (b_CreateLoadBalancerTCPMonitor (broker a) (newTCPMonitorObject a clusterName objectName mapping))"

definition GetTCPMonitor :: "'s access \<Rightarrow> string \<Rightarrow> ('s, LbTcpMonitor) io" where
  "GetTCPMonitor a ident =
     wrapErr (\<lambda>e. Wrapf e ''reading tcp monitor %s failed'' [ident])
       (b_ReadLoadBalancerTCPMonitor (broker a) ident)"

definition FindTCPMonitors :: "'s access \<Rightarrow> string \<Rightarrow> NamespacedName \<Rightarrow> ('s, LbTcpMonitor list) io" where
  "FindTCPMonitors a clusterName objectName =
     bindIO (wrapErr (\<lambda>e. Wrapf e ''listing load balancer monitors failed'' [])
       (b_ListLoadBalancerMonitors (broker a))) (\<lambda>list.
     foldIO (\<lambda>result item.
        if lm_ResourceType item = ''LbTcpMonitor'' \<and>
           checkTags (lm_Tags item) [ownerTag a, clusterTag clusterName, serviceTag objectName]
        then bindIO (b_ReadLoadBalancerTCPMonitor (broker a) (lm_Id item)) (\<lambda>monitor.
             ret (result @ [monitor]))
        else ret result) [] list)"

definition ListTCPMonitorLight :: "'s access \<Rightarrow> string \<Rightarrow> ('s, LbMonitor list) io" where
  "ListTCPMonitorLight a clusterName =
     bindIO (wrapErr (\<lambda>e. Wrapf e ''listing load balancer monitors failed'' [])
       (b_ListLoadBalancerMonitors (broker a))) (\<lambda>list.
     ret (filter (\<lambda>item. lm_ResourceType item = ''LbTcpMonitor'' \<and>
       checkTags (lm_Tags item) [ownerTag a, clusterTag clusterName]) list))"

definition UpdateTCPMonitor :: "'s access \<Rightarrow> LbTcpMonitor \<Rightarrow> ('s, unit) io" where
  "UpdateTCPMonitor a monitor =
     bindIO (wrapErr (\<lambda>e. Wrapf e ''updating load balancer TCP monitor %s (%s) failed''
               [mon_DisplayName monitor, mon_Id monitor])
       (b_UpdateLoadBalancerTCPMonitor (broker a) monitor)) (\<lambda>_. ret ())"

definition DeleteTCPMonitor :: "'s access \<Rightarrow> string \<Rightarrow> ('s, unit) io" where
  "DeleteTCPMonitor a ident =
     deletion (\<lambda>e. Wrapf e ''deleting monitor %s failed'' [ident])
       (b_DeleteLoadBalancerMonitor (broker a) ident)"

section \<open>Tags of created objects\<close>

abbreviation "ownTags a clusterName objectName \<equiv>
  [ownerTag a, clusterTag clusterName, serviceTag objectName]"

definition access_wf :: "'s access \<Rightarrow> bool" where
  "access_wf a \<longleftrightarrow> tags_wf (standardTags a) \<and> map_of (standardTags a) ScopeOwner = Some (ownerTag a)"

lemma NewAccess_fold:
  assumes "tags_wf m" "map_of m ScopeOwner \<noteq> None"
  shows "tags_wf (fold (\<lambda>(k, v) m. AList.update k \<lparr>Scope = k, Tag = v\<rparr> m) kvs m) \<and>
    map_of (fold (\<lambda>(k, v) m. AList.update k \<lparr>Scope = k, Tag = v\<rparr> m) kvs m) ScopeOwner \<noteq> None"
  using assms
proof (induction kvs arbitrary: m)
  case Nil
  then show ?case by simp
next
  case (Cons kv kvs)
  obtain k v where "kv = (k, v)" by (cases kv)
  then show ?case
    using Cons.IH [of "AList.update k \<lparr>Scope = k, Tag = v\<rparr> m"] Cons.prems
      tags_wf_update [of m "\<lparr>Scope = k, Tag = v\<rparr>"]
    by (simp add: update_conv')
qed

lemma NewAccess_wf:
  assumes "NewAccess b cfg = Inr a"
  shows "access_wf a" "broker a = b" "config a = cfg"
proof -
  have "tags_wf [(ScopeOwner, \<lparr>Scope = ScopeOwner, Tag = AppName\<rparr>)]" by (simp add: tags_wf_def)
  from NewAccess_fold [OF this, of "AdditionalTags cfg"] assms
  show "access_wf a" "broker a = b" "config a = cfg"
    by (auto simp: NewAccess_def Let_def access_wf_def)
qed

lemma access_wf_owner: "access_wf a \<Longrightarrow> Scope (ownerTag a) = ScopeOwner"
  by (auto simp: access_wf_def tags_wf_map_of)

lemma map_of_Add_other: "s \<notin> Scope ` set ts \<Longrightarrow> map_of (Add m ts) s = map_of m s"
  by (simp add: map_of_Add map_upds_apply_nontin)

lemma created_tags:
  assumes "access_wf a" "Scope ` set ts \<inter> {ScopeOwner, ScopeCluster, ScopeService} = {}"
  shows "checkTags (Normalize (Add (Add (standardTags a) [clusterTag cl, serviceTag n]) ts)) (ownTags a cl n)"
proof -
  let ?m = "Add (Add (standardTags a) [clusterTag cl, serviceTag n]) ts"
  have wf: "tags_wf ?m" using assms(1) by (simp add: access_wf_def tags_wf_Add)
  have "map_of ?m s = map_of (Add (standardTags a) [clusterTag cl, serviceTag n]) s"
    if "s \<in> {ScopeOwner, ScopeCluster, ScopeService}" for s
    using that assms(2) by (intro map_of_Add_other) blast
  moreover have "map_of (standardTags a) ScopeOwner = Some (ownerTag a)"
    using assms(1) by (simp add: access_wf_def)
  ultimately show ?thesis
    unfolding checkTags_Normalize [OF wf] using access_wf_owner [OF assms(1)]
    by (simp add: map_of_Add)
qed

text \<open>Objects whose tags include a port tag.\<close>

lemma created_port_tags:
  assumes "access_wf a"
  shows "checkTags (Normalize (Add (standardTags a) [clusterTag cl, serviceTag n, portTag m])) (ownTags a cl n)"
    "checkTags (Normalize (Add (standardTags a) [clusterTag cl, serviceTag n, portTag m])) [portTag m]"
proof -
  have wf: "tags_wf (Add (standardTags a) [clusterTag cl, serviceTag n, portTag m])"
    using assms by (simp add: access_wf_def tags_wf_Add)
  show "checkTags (Normalize (Add (standardTags a) [clusterTag cl, serviceTag n, portTag m])) [portTag m]"
    unfolding checkTags_Normalize [OF wf] by (simp add: map_of_Add)
  show "checkTags (Normalize (Add (standardTags a) [clusterTag cl, serviceTag n, portTag m])) (ownTags a cl n)"
    using created_tags [OF assms, of "[portTag m]" cl n] by (simp add: Add_append [symmetric])
qed

section \<open>Parts of the view\<close>

definition restrictBy :: "('a \<Rightarrow> bool) \<Rightarrow> ('k \<rightharpoonup> 'a) \<Rightarrow> ('k \<rightharpoonup> 'a)" where
  "restrictBy P m = (\<lambda>k. case m k of Some x \<Rightarrow> if P x then Some x else None | None \<Rightarrow> None)"

lemma restrictBy_Some [simp]: "restrictBy P m k = Some x \<longleftrightarrow> m k = Some x \<and> P x"
  by (auto simp: restrictBy_def split: option.splits)

lemma lists_filter: "lists key xs m \<Longrightarrow> lists key (filter P xs) (restrictBy P m)"
  by (auto simp: lists_def distinct_map inj_on_def)

lemma lists_snoc:
  assumes "lists key xs (restrictBy P m)" "m k = None" "key x = k" "P x"
  shows "lists key (xs @ [x]) (restrictBy P (m(k \<mapsto> x)))"
proof -
  have "k \<notin> key ` set xs"
  proof
    assume "k \<in> key ` set xs"
    then obtain y where "y \<in> set xs" "key y = k" by auto
    with assms(1) have "restrictBy P m k = Some y" unfolding lists_def by blast
    with assms(2) show False by simp
  qed
  then have "\<forall>y \<in> set xs. key y \<noteq> k" by auto
  with assms show ?thesis by (auto simp: lists_def)
qed

lemma lists_update:
  assumes "lists key xs (restrictBy P m)" "i < length xs" "key x = key (xs ! i)" "P x"
  shows "lists key (xs[i := x]) (restrictBy P (m(key x \<mapsto> x)))"
proof -
  have d: "distinct (map key xs)" using assms(1) by (simp add: lists_def)
  have "distinct (map key (xs[i := x]))"
    using assms(2,3) d by (metis list_update_id map_update nth_map)
  moreover have "y \<in> set (xs[i := x]) \<longleftrightarrow> y = x \<or> y \<in> set xs \<and> key y \<noteq> key x" for y
  proof -
    have "y = xs ! i" if "y \<in> set xs" "key y = key x" for y
      using that d assms(2,3) by (metis distinct_map inj_onD nth_mem)
    moreover have "set (xs[i := x]) = insert x (set xs - {xs ! i})"
      using assms(2) d by (intro set_update_distinct) (auto simp: distinct_map)
    ultimately show ?thesis using assms(2,3) by auto
  qed
  ultimately show ?thesis
    using assms(1,4) by (auto simp: lists_def split: if_splits)
qed

lemma lists_of_light:
  assumes "lists lm_Id xs (\<lambda>k. map_option light (ms k))"
    "map Some acc = map (\<lambda>i. ms (lm_Id i)) (filter (\<lambda>i. Q (lm_ResourceType i) (lm_Tags i)) xs)"
  shows "lists mon_Id acc (restrictBy (\<lambda>x. Q (mon_ResourceType x) (mon_Tags x)) ms)"
proof -
  let ?ys = "filter (\<lambda>i. Q (lm_ResourceType i) (lm_Tags i)) xs"
  have light_key: "mon_Id x = k" if "ms k = Some x" for k x
  proof -
    have "map_option light (ms k) = Some (light x)" using that by simp
    then have "lm_Id (light x) = k" using assms(1) unfolding lists_def by blast
    then show ?thesis by (simp add: light_def)
  qed
  have len: "length acc = length ?ys" using assms(2) by (metis length_map)
  have nth: "ms (lm_Id (?ys ! i)) = Some (acc ! i)" if "i < length ?ys" for i
    using that len arg_cong [OF assms(2), of "\<lambda>l. l ! i"] by simp
  have "map mon_Id acc = map lm_Id ?ys"
    by (rule nth_equalityI) (use len nth light_key in simp_all)
  moreover have "distinct (map lm_Id ?ys)"
    using assms(1) by (auto simp: lists_def distinct_map inj_on_def)
  moreover have "x \<in> set acc \<longleftrightarrow> ms (mon_Id x) = Some x \<and> Q (mon_ResourceType x) (mon_Tags x)" for x
  proof -
    have y: "y \<in> set xs \<longleftrightarrow> (\<exists>x. ms (lm_Id y) = Some x \<and> y = light x)" for y
      using assms(1) unfolding lists_def by (metis map_option_eq_Some)
    have "x \<in> set acc \<longleftrightarrow> Some x \<in> set (map Some acc)" by auto
    also have "\<dots> \<longleftrightarrow> (\<exists>y \<in> set ?ys. ms (lm_Id y) = Some x)" unfolding assms(2) by force
    also have "\<dots> \<longleftrightarrow> (\<exists>y. ms (lm_Id y) = Some x \<and> y = light x \<and> Q (lm_ResourceType y) (lm_Tags y))"
      by (auto simp: y)
    also have "\<dots> \<longleftrightarrow> ms (mon_Id x) = Some x \<and> Q (mon_ResourceType x) (mon_Tags x)"
      by (auto simp: light_def)
    finally show ?thesis .
  qed
  ultimately show ?thesis
    by (auto simp: lists_def dest: light_key)
qed

definition usableService :: "'s access \<Rightarrow> string \<Rightarrow> LbService \<Rightarrow> bool" where
  "usableService a cl svc \<longleftrightarrow>
     routerID a \<noteq> '''' \<and> attachedTo svc (routerID a) \<or> checkTags (svc_Tags svc) [ownerTag a, clusterTag cl]"

section \<open>Contracts over a backend\<close>

context nsxt_backend
begin

lemma deletion_triple:
  assumes "triple (at v) call (deleted at v v' absent) (\<lambda>_ _. False)" "absent \<Longrightarrow> v' = v"
  shows "triple (at v) (deletion w call) (\<lambda>_. at v') (\<lambda>_. at v)"
proof -
  have call: "triple (at v) call (deleted at v v' absent) (\<lambda>_. at v)"
    using assms(1) by (rule triple_post) auto
  show ?thesis
    unfolding deletion_def
    by (rule triple_bind [OF call])
      (use assms(2) in \<open>auto simp: deleted_def split: prod.splits intro!: triple_rules\<close>)
qed

lemma delete_virtual_server:
  "broker a = B \<Longrightarrow> triple (at v) (DeleteVirtualServer a k)
     (\<lambda>_. at (v\<lparr>v_servers := (v_servers v)(k := None)\<rparr>)) (\<lambda>_. at v)"
  unfolding DeleteVirtualServer_def by (simp, rule deletion_triple [OF at_delete_server]) (simp add: fun_upd_idem)

lemma delete_lb_pool:
  "broker a = B \<Longrightarrow> triple (at v) (DeletePool a k)
     (\<lambda>_. at (v\<lparr>v_pools := (v_pools v)(k := None)\<rparr>)) (\<lambda>_. at v)"
  unfolding DeletePool_def by (simp, rule deletion_triple [OF at_delete_pool]) (simp add: fun_upd_idem)

lemma delete_tcp_monitor:
  "broker a = B \<Longrightarrow> triple (at v) (DeleteTCPMonitor a k)
     (\<lambda>_. at (v\<lparr>v_monitors := (v_monitors v)(k := None)\<rparr>)) (\<lambda>_. at v)"
  unfolding DeleteTCPMonitor_def by (simp, rule deletion_triple [OF at_delete_monitor]) (simp add: fun_upd_idem)

lemma delete_lb_service:
  "broker a = B \<Longrightarrow> triple (at v) (DeleteLoadBalancerService a k)
     (\<lambda>_. at (v\<lparr>v_services := (v_services v)(k := None)\<rparr>)) (\<lambda>_. at v)"
  unfolding DeleteLoadBalancerService_def by (simp, rule deletion_triple [OF at_delete_service]) (simp add: fun_upd_idem)

lemma find_virtual_servers:
  assumes "broker a = B"
  shows "triple (at v) (FindVirtualServers a cl n)
     (\<lambda>xs s. at v s \<and> lists vs_Id xs (restrictBy (\<lambda>x. checkTags (vs_Tags x) (ownTags a cl n)) (v_servers v)))
     (\<lambda>_. at v)"
  unfolding FindVirtualServers_def listVirtualServers_def assms
  by (rule triple_bind [OF triple_wrap [OF at_list_servers]]) (auto intro!: triple_ret lists_filter)

lemma find_lb_pools:
  assumes "broker a = B"
  shows "triple (at v) (FindPools a cl n)
     (\<lambda>xs s. at v s \<and> lists pool_Id xs (restrictBy (\<lambda>x. checkTags (pool_Tags x) (ownTags a cl n)) (v_pools v)))
     (\<lambda>_. at v)"
  unfolding FindPools_def listPools_def assms
  by (rule triple_bind [OF triple_wrap [OF at_list_pools]]) (auto intro!: triple_ret lists_filter)

lemma create_virtual_server:
  "broker a = B \<Longrightarrow> triple (at v) (CreateVirtualServer a cl n ts ip m pid)
     (\<lambda>x s. \<exists>k. x = (newVirtualServerObject a cl n ts ip m pid)\<lparr>vs_Id := k\<rparr> \<and> v_servers v k = None \<and>
        k \<noteq> [] \<and> at (v\<lparr>v_servers := (v_servers v)(k \<mapsto> x)\<rparr>) s) (\<lambda>_. at v)"
  unfolding CreateVirtualServer_def by (simp, rule triple_wrap, rule at_create_server)

lemma create_lb_pool:
  "broker a = B \<Longrightarrow> triple (at v) (CreatePool a cl n m members mids)
     (\<lambda>x s. \<exists>k. x = (newPoolObject a cl n m members mids)\<lparr>pool_Id := k\<rparr> \<and> v_pools v k = None \<and>
        k \<noteq> [] \<and> at (v\<lparr>v_pools := (v_pools v)(k \<mapsto> x)\<rparr>) s) (\<lambda>_. at v)"
  unfolding CreatePool_def by (simp, rule triple_wrap, rule at_create_pool)

lemma create_tcp_monitor:
  "broker a = B \<Longrightarrow> triple (at v) (CreateTCPMonitor a cl n m)
     (\<lambda>x s. \<exists>k. x = (newTCPMonitorObject a cl n m)\<lparr>mon_Id := k, mon_ResourceType := monitor_type\<rparr> \<and>
        v_monitors v k = None \<and> k \<noteq> [] \<and> at (v\<lparr>v_monitors := (v_monitors v)(k \<mapsto> x)\<rparr>) s) (\<lambda>_. at v)"
  unfolding CreateTCPMonitor_def
  by (simp, rule triple_wrap, rule at_create_monitor) (simp add: newTCPMonitorObject_def)

lemma create_lb_service:
  "broker a = B \<Longrightarrow> triple (at v) (CreateLoadBalancerService a cl)
     (\<lambda>x s. \<exists>k. x = (newLbServiceObject a cl)\<lparr>svc_Id := k\<rparr> \<and> v_services v k = None \<and>
        k \<noteq> [] \<and> at (v\<lparr>v_services := (v_services v)(k \<mapsto> x)\<rparr>) s) (\<lambda>_. at v)"
  unfolding CreateLoadBalancerService_def by (simp, rule triple_wrap, rule at_create_service)

lemma update_virtual_server:
  "broker a = B \<Longrightarrow> triple (at v) (UpdateVirtualServer a x)
     (\<lambda>_ s. vs_Id x \<in> dom (v_servers v) \<and> at (v\<lparr>v_servers := (v_servers v)(vs_Id x \<mapsto> x)\<rparr>) s) (\<lambda>_. at v)"
  unfolding UpdateVirtualServer_def
  by (simp, rule triple_bind [OF triple_wrap [OF at_update_server]]) (auto intro: triple_ret)

lemma update_lb_pool:
  "broker a = B \<Longrightarrow> triple (at v) (UpdatePool a x)
     (\<lambda>_ s. pool_Id x \<in> dom (v_pools v) \<and> at (v\<lparr>v_pools := (v_pools v)(pool_Id x \<mapsto> x)\<rparr>) s) (\<lambda>_. at v)"
  unfolding UpdatePool_def
  by (simp, rule triple_bind [OF triple_wrap [OF at_update_pool]]) (auto intro: triple_ret)

lemma update_tcp_monitor:
  "broker a = B \<Longrightarrow> triple (at v) (UpdateTCPMonitor a x)
     (\<lambda>_ s. mon_Id x \<in> dom (v_monitors v) \<and> at (v\<lparr>v_monitors := (v_monitors v)(mon_Id x \<mapsto> x)\<rparr>) s) (\<lambda>_. at v)"
  unfolding UpdateTCPMonitor_def
  by (simp, rule triple_bind [OF triple_wrap [OF at_update_monitor]]) (auto intro: triple_ret)

lemma update_lb_service:
  "broker a = B \<Longrightarrow> triple (at v) (UpdateLoadBalancerService a x)
     (\<lambda>_ s. svc_Id x \<in> dom (v_services v) \<and> at (v\<lparr>v_services := (v_services v)(svc_Id x \<mapsto> x)\<rparr>) s) (\<lambda>_. at v)"
  unfolding UpdateLoadBalancerService_def
  by (simp, rule triple_bind [OF triple_wrap [OF at_update_service]]) (auto intro: triple_ret)

text \<open>The monitors of a service: listed without their details, then read one by one.\<close>

lemma find_tcp_monitors:
  assumes "broker a = B"
  shows "triple (at v) (FindTCPMonitors a cl n)
     (\<lambda>xs s. at v s \<and> lists mon_Id xs (restrictBy (\<lambda>x. mon_ResourceType x = ''LbTcpMonitor'' \<and>
        checkTags (mon_Tags x) (ownTags a cl n)) (v_monitors v))) (\<lambda>_. at v)"
proof -
  let ?P = "\<lambda>item. lm_ResourceType item = ''LbTcpMonitor'' \<and> checkTags (lm_Tags item) (ownTags a cl n)"
  let ?f = "\<lambda>result item. if ?P item
      then bindIO (b_ReadLoadBalancerTCPMonitor B (lm_Id item)) (\<lambda>monitor. ret (result @ [monitor]))
      else ret result"
  have "triple (at v) (foldIO ?f [] xs)
      (\<lambda>acc s. at v s \<and> map Some acc = map (\<lambda>i. v_monitors v (lm_Id i)) (filter ?P xs)) (\<lambda>_. at v)" for xs
    by (rule triple_collect) (rule at_read_monitor)
  then have "triple (\<lambda>s. at v s \<and> lists lm_Id xs (\<lambda>k. map_option light (v_monitors v k))) (foldIO ?f [] xs)
      (\<lambda>acc s. at v s \<and> lists mon_Id acc (restrictBy (\<lambda>x. mon_ResourceType x = ''LbTcpMonitor'' \<and>
        checkTags (mon_Tags x) (ownTags a cl n)) (v_monitors v))) (\<lambda>_. at v)" for xs
    by (fastforce simp: triple_def elim!: post_mono intro: lists_of_light)
  then show ?thesis
    unfolding FindTCPMonitors_def assms by (rule triple_bind [OF triple_wrap [OF at_list_monitors]])
qed

lemma allocate_ip:
  assumes "broker a = B"
  shows "triple (at v) (AllocateExternalIPAddress a p)
     (\<lambda>ip s. \<exists>as. v_allocs v p = Some as \<and> ip \<notin> as \<and> ip \<noteq> [] \<and>
        at (v\<lparr>v_allocs := (v_allocs v)(p \<mapsto> insert ip as)\<rparr>) s) (\<lambda>_. at v)"
  unfolding AllocateExternalIPAddress_def assms
  by (rule triple_bind [OF triple_no_error [OF at_allocate]])
    (auto split: prod.splits option.splits if_splits intro!: triple_rules)

lemma is_allocated_ip:
  assumes "broker a = B"
  shows "triple (at v) (IsAllocatedExternalIPAddress a p ip)
     (\<lambda>r s. at v s \<and> (r \<longleftrightarrow> (\<exists>as. v_allocs v p = Some as \<and> ip \<in> as))) (\<lambda>_. at v)"
  unfolding IsAllocatedExternalIPAddress_def assms
  by (rule triple_bind [OF triple_no_error [OF at_list_allocs]])
    (auto simp: list_ex_iff split: prod.splits option.splits if_splits intro!: triple_rules)

lemma release_ip:
  assumes "broker a = B"
  shows "triple (at v) (ReleaseExternalIPAddress a p ip)
     (\<lambda>_ s. \<exists>as. v_allocs v p = Some as \<and> at (v\<lparr>v_allocs := (v_allocs v)(p \<mapsto> as - {ip})\<rparr>) s) (\<lambda>_. at v)"
  unfolding ReleaseExternalIPAddress_def assms
  by (rule triple_bind [OF triple_no_error [OF at_release]])
    (auto split: prod.splits option.splits if_splits intro!: triple_rules)

text \<open>
  The services that count as the controller's own for a cluster: attached to the configured
  router, or tagged for owner and cluster.
\<close>

lemma find_lb_service:
  assumes "broker a = B"
  shows "triple (at v) (findLoadBalancerService a cl f)
     (\<lambda>r s. at v s \<and> (case r of
        Some x \<Rightarrow> v_services v (svc_Id x) = Some x \<and> usableService a cl x \<and> f x
      | None \<Rightarrow> \<forall>k x. v_services v k = Some x \<longrightarrow> \<not> (usableService a cl x \<and> f x))) (\<lambda>_. at v)"
proof -
  have "triple (\<lambda>s. at v s \<and> lists svc_Id xs (v_services v))
      (ret (find (\<lambda>item. (routerID a \<noteq> '''' \<and> attachedTo item (routerID a) \<and> f item) \<or>
        (checkTags (svc_Tags item) [ownerTag a, clusterTag cl] \<and> f item)) xs))
      (\<lambda>r s. at v s \<and> (case r of
        Some x \<Rightarrow> v_services v (svc_Id x) = Some x \<and> usableService a cl x \<and> f x
      | None \<Rightarrow> \<forall>k x. v_services v k = Some x \<longrightarrow> \<not> (usableService a cl x \<and> f x))) (\<lambda>_. at v)" for xs
    by (rule triple_ret)
      (auto simp: find_Some_iff find_None_iff lists_def usableService_def in_set_conv_nth split: option.split)
  then show ?thesis
    unfolding findLoadBalancerService_def assms by (rule triple_bind [OF triple_wrap [OF at_list_services]])
qed

lemma FindLoadBalancerService_triple:
  assumes "broker a = B"
  shows "triple (at v) (FindLoadBalancerService a cl k)
     (\<lambda>r s. at v s \<and> (\<forall>x. r = Some x \<longrightarrow> v_services v (svc_Id x) = Some x)) (\<lambda>_. at v)"
proof (cases "k = []")
  case True
  then show ?thesis
    unfolding FindLoadBalancerService_def using find_lb_service [OF assms(1), of v cl "\<lambda>_. True"]
    by (auto elim!: triple_post)
next
  case False
  then show ?thesis
    unfolding FindLoadBalancerService_def assms(1)
    by (simp, intro triple_bind [OF at_read_service] triple_if) (auto intro!: triple_ret triple_throw)
qed

end

text \<open>The calls of an undo, on a backend where they work.\<close>

lemma deletion_sure:
  assumes "triple P call (\<lambda>(statusCode, err) _. statusCode = StatusNotFound \<or> err = None) (\<lambda>_ _. False)"
  shows "sure P (deletion w call)"
  unfolding deletion_def by (rule triple_bind [OF assms]) (auto split: prod.splits option.splits intro!: triple_rules)

context reliable_backend
begin

lemma delete_server_sure:
  assumes "broker a = B"
  shows "triple (at v) (DeleteVirtualServer a k) (\<lambda>_. at (v\<lparr>v_servers := (v_servers v)(k := None)\<rparr>)) (\<lambda>_ _. False)"
  using delete_virtual_server [OF assms]
  by (rule triple_sure) (simp add: DeleteVirtualServer_def assms deletion_sure [OF at_delete_server_works])

lemma is_allocated_sure:
  assumes "broker a = B"
  shows "triple (at v) (IsAllocatedExternalIPAddress a p ip)
    (\<lambda>r s. at v s \<and> (r \<longleftrightarrow> (\<exists>as. v_allocs v p = Some as \<and> ip \<in> as))) (\<lambda>_ _. False)"
  using is_allocated_ip [OF assms]
proof (rule triple_sure)
  show "sure (at v) (IsAllocatedExternalIPAddress a p ip)"
    unfolding IsAllocatedExternalIPAddress_def assms
    by (rule triple_bind [OF at_list_allocs_works]) (auto split: prod.splits option.splits if_splits intro!: triple_rules)
qed

lemma release_sure:
  assumes "broker a = B" "v_allocs v p = Some as" "ip \<in> as"
  shows "triple (at v) (ReleaseExternalIPAddress a p ip) (\<lambda>_. at (v\<lparr>v_allocs := (v_allocs v)(p \<mapsto> as - {ip})\<rparr>)) (\<lambda>_ _. False)"
proof (rule triple_post [OF triple_sure [OF release_ip [OF assms(1)]]])
  show "sure (at v) (ReleaseExternalIPAddress a p ip)"
    unfolding ReleaseExternalIPAddress_def assms(1)
    by (rule triple_bind [OF at_release_works [OF assms(2,3)]]) (auto split: prod.splits option.splits intro!: triple_rules)
qed (use assms(2) in auto)

end

text \<open>The access layer on a backend on which everything works.\<close>

context working_backend
begin

lemma find_virtual_servers_works: "broker a = B \<Longrightarrow> sure (at v) (FindVirtualServers a cl n)"
  unfolding FindVirtualServers_def listVirtualServers_def
  by (simp, rule triple_bind [OF triple_wrap [OF at_list_servers_works] sure_ret])

lemma find_pools_works: "broker a = B \<Longrightarrow> sure (at v) (FindPools a cl n)"
  unfolding FindPools_def listPools_def by (simp, rule triple_bind [OF triple_wrap [OF at_list_pools_works] sure_ret])

lemma find_tcp_monitors_works:
  assumes "broker a = B"
  shows "sure (at v) (FindTCPMonitors a cl n)"
proof -
  let ?P = "\<lambda>item. lm_ResourceType item = ''LbTcpMonitor'' \<and> checkTags (lm_Tags item) [ownerTag a, clusterTag cl, serviceTag n]"
  let ?f = "\<lambda>result item. if ?P item then bindIO (b_ReadLoadBalancerTCPMonitor B (lm_Id item)) (\<lambda>x. ret (result @ [x])) else ret result"
  have read: "triple (at v) (?f acc item) (\<lambda>_. at v) (\<lambda>_ _. False)" if "v_monitors v (lm_Id item) \<noteq> None" for acc item
    using that by (intro triple_if triple_ret triple_bind [OF triple_sure [OF at_read_monitor at_read_monitor_works]]) auto
  have "sure (at v) (foldIO ?f [] xs)" if xs: "lists lm_Id xs (\<lambda>k. map_option light (v_monitors v k))" for xs
  proof (rule sure_weaken, rule triple_fold [where I = "\<lambda>_ _. at v"])
    fix ys y zs acc assume "xs = ys @ y # zs"
    with xs have "map_option light (v_monitors v (lm_Id y)) = Some y" by (auto simp: lists_def)
    then show "triple (at v) (?f acc y) (\<lambda>_. at v) (\<lambda>_ _. False)" by (intro read) auto
  qed
  then have "sure (\<lambda>s. at v s \<and> lists lm_Id xs (\<lambda>k. map_option light (v_monitors v k))) (foldIO ?f [] xs)" for xs
    by (simp add: triple_def)
  then show ?thesis
    unfolding FindTCPMonitors_def assms by (rule triple_bind [OF triple_wrap [OF triple_sure [OF at_list_monitors at_list_monitors_works]]])
qed

lemma create_works:
  assumes "broker a = B"
  shows "sure (at v) (CreateTCPMonitor a cl n m)" "sure (at v) (CreatePool a cl n m members ids)"
    "sure (at v) (CreateVirtualServer a cl n ts ip m pid)" "sure (at v) (CreateLoadBalancerService a cl)"
  unfolding CreateTCPMonitor_def CreatePool_def CreateVirtualServer_def CreateLoadBalancerService_def assms
  by (rule triple_wrap, rule at_create_monitor_works at_create_pool_works at_create_server_works at_create_service_works)+

lemma update_works:
  assumes "broker a = B"
  shows "v_monitors v (mon_Id x) \<noteq> None \<Longrightarrow> sure (at v) (UpdateTCPMonitor a x)"
    "v_pools v (pool_Id y) \<noteq> None \<Longrightarrow> sure (at v) (UpdatePool a y)"
    "v_servers v (vs_Id z) \<noteq> None \<Longrightarrow> sure (at v) (UpdateVirtualServer a z)"
    "v_services v (svc_Id svc) \<noteq> None \<Longrightarrow> sure (at v) (UpdateLoadBalancerService a svc)"
  unfolding UpdateTCPMonitor_def UpdatePool_def UpdateVirtualServer_def UpdateLoadBalancerService_def assms
  by (rule triple_bind [OF triple_wrap sure_ret],
      erule at_update_monitor_works at_update_pool_works at_update_server_works at_update_service_works)+

lemma delete_works:
  assumes "broker a = B"
  shows "sure (at v) (DeleteTCPMonitor a k)" "sure (at v) (DeletePool a k)" "sure (at v) (DeleteVirtualServer a k)"
    "sure (at v) (DeleteLoadBalancerService a k)"
  unfolding DeleteTCPMonitor_def DeletePool_def DeleteVirtualServer_def DeleteLoadBalancerService_def assms
  by (rule deletion_sure, rule at_delete_monitor_works at_delete_pool_works at_delete_server_works at_delete_service_works)+

lemma find_lb_service_works: "broker a = B \<Longrightarrow> sure (at v) (findLoadBalancerService a cl f)"
  unfolding findLoadBalancerService_def by (simp, rule triple_bind [OF triple_wrap [OF at_list_services_works] sure_ret])

lemma allocate_ip_works:
  assumes "broker a = B" "room v p"
  shows "sure (at v) (AllocateExternalIPAddress a p)"
  unfolding AllocateExternalIPAddress_def assms(1)
  by (rule triple_bind [OF at_allocate_works [OF assms(2)]]) (auto split: prod.splits option.splits intro!: triple_rules)

end

section \<open>Properties\<close>

text \<open>
  C24. What the controller creates it finds again: the virtual servers, pools and monitors
  it creates for a service carry the tags by which \<open>FindVirtualServers\<close>, \<open>FindPools\<close> and
  \<open>FindTCPMonitors\<close> look for the objects of that service, whatever tags the configuration
  adds, and the pools and monitors also the tag of their port. The tags of a load balancer
  class (any tags outside the scopes owner, cluster and service) do not disturb this.
\<close>

theorem created_objects_are_found:
  assumes "NewAccess b cfg = Inr a"
    and "Scope ` set ts \<inter> {ScopeOwner, ScopeCluster, ScopeService} = {}"
  shows "checkTags (vs_Tags (newVirtualServerObject a cl n ts ip m pid)) (ownTags a cl n) \<and>
    checkTags (pool_Tags (newPoolObject a cl n m members mids)) (ownTags a cl n) \<and>
    MatchPool m (newPoolObject a cl n m members mids) \<and>
    checkTags (mon_Tags (newTCPMonitorObject a cl n m)) (ownTags a cl n) \<and>
    MatchTCPMonitor m (newTCPMonitorObject a cl n m)"
  using created_tags [OF NewAccess_wf(1) [OF assms(1)] assms(2)]
    created_port_tags [OF NewAccess_wf(1) [OF assms(1)]]
  by (simp add: newVirtualServerObject_def newPoolObject_def newTCPMonitorObject_def
      MatchPool_def MatchTCPMonitor_def)

theorem created_objects_are_found_witness:
  "\<exists>a. NewAccess undefined example_cfg = Inr (a :: unit access) \<and>
     checkTags (pool_Tags (newPoolObject a ''c'' \<lparr>Namespace = ''ns'', Name = ''web''\<rparr>
       \<lparr>SourcePort = 80, NodePort = 30080, Protocol = ''TCP''\<rparr> [] [])) (ownTags a ''c'' \<lparr>Namespace = ''ns'', Name = ''web''\<rparr>)"
proof -
  obtain a where a: "NewAccess undefined example_cfg = Inr (a :: unit access)"
    by (simp add: NewAccess_def Let_def)
  show ?thesis using a created_objects_are_found [OF a, of "[]"] by auto
qed



end
