(* ===== verification/Inmem_Broker.thy ===== *)
theory Inmem_Broker
  imports Broker Port_Mapping
begin

text \<open>
  The in-memory broker of the simulation mode (\<open>nsxt_broker_inmem.go\<close>): its state, one
  definition per method, and the interpretation of the backend contract. Every method but
  \<open>ReadLoadBalancerTCPMonitor\<close> runs under the broker's mutex, so a method is one step.
  The mutable map of IP pools is an association list from ids to pools; the order in which
  Go iterates it, and the set of allocations of a pool, is given by an oracle.
\<close>

section \<open>State\<close>

record memIPPool =
  mip_id :: string
  mip_name :: string
  mip_addressPrefix :: string
  mip_size :: nat
  mip_allocations :: "string list" \<comment> \<open>the keys of a map to empty structs\<close>

record inmem =
  ipPools :: "(string \<times> memIPPool) list"
  lbServices :: "LbService list"
  lbVirtualServers :: "LbVirtualServer list"
  lbPools :: "LbPool list"
  lbMonitors :: "LbTcpMonitor list"
  nextID :: nat

definition newMemIPPool :: "string \<Rightarrow> string \<Rightarrow> string \<Rightarrow> nat \<Rightarrow> memIPPool" where
  "newMemIPPool ident name addressPrefix sz =
     \<lparr>mip_id = ident, mip_name = name, mip_addressPrefix = addressPrefix, mip_size = sz,
      mip_allocations = []\<rparr>"

definition toIPPool :: "memIPPool \<Rightarrow> IpPool" where
  "toIPPool p = \<lparr>ipp_Id = mip_id p, ipp_DisplayName = mip_name p\<rparr>"

definition ipPoolId :: "nat \<Rightarrow> string" where
  "ipPoolId i = ''ip-pool-'' @ showNat i"

definition NewInMemoryNsxtBroker :: "string list \<Rightarrow> inmem" where
  "NewInMemoryNsxtBroker ipPoolNames =
     \<lparr>ipPools = fold (\<lambda>i m. AList.update (ipPoolId i)
          (newMemIPPool (ipPoolId i) (ipPoolNames ! i) (''10.111.'' @ showNat i) 10) m)
          [0..<length ipPoolNames] [],
      lbServices = [], lbVirtualServers = [], lbPools = [], lbMonitors = [], nextID = 0\<rparr>"

section \<open>Methods\<close>

text \<open>\<open>fmt.Sprintf("lbservice-%d", b.nextID)\<close> and its kin.\<close>

definition newId :: "string \<Rightarrow> nat \<Rightarrow> string" where
  "newId kind n = kind @ ''-'' @ showNat n"

text \<open>
  \<open>for i, x := range xs { if x.Id == id { ...; return } }; return ..., notFound\<close>
\<close>

definition notFound :: "string \<Rightarrow> string \<Rightarrow> error" where
  "notFound kind ident = Errorf (kind @ '' %s not found'') [ident]"

definition inmem_ListIPPools :: "(inmem, string) order \<Rightarrow> (inmem, IpPool list) io" where
  "inmem_ListIPPools ord = getsIO (\<lambda>b. map (toIPPool \<circ> snd) (rangeMap ord b (ipPools b)))"

definition inmem_CreateLoadBalancerService :: "LbService \<Rightarrow> (inmem, LbService) io" where
  "inmem_CreateLoadBalancerService service = (\<lambda>b.
     let service = service\<lparr>svc_Id := newId ''lbservice'' (nextID b)\<rparr>
     in (Ok service, b\<lparr>nextID := Suc (nextID b), lbServices := lbServices b @ [service]\<rparr>))"

definition inmem_ReadLoadBalancerService :: "string \<Rightarrow> (inmem, LbService) io" where
  "inmem_ReadLoadBalancerService ident = (\<lambda>b.
     case findIndex (\<lambda>s. svc_Id s = ident) (lbServices b) of
       Some i \<Rightarrow> (Ok (lbServices b ! i), b)
     | None \<Rightarrow> (Err (notFound ''LbService'' ident), b))"

definition inmem_ListLoadBalancerServices :: "(inmem, LbService list) io" where
  "inmem_ListLoadBalancerServices = getsIO lbServices"

definition inmem_UpdateLoadBalancerService :: "LbService \<Rightarrow> (inmem, LbService) io" where
  "inmem_UpdateLoadBalancerService service = (\<lambda>b.
     case findIndex (\<lambda>s. svc_Id s = svc_Id service) (lbServices b) of
       Some i \<Rightarrow> (Ok service, b\<lparr>lbServices := (lbServices b)[i := service]\<rparr>)
     | None \<Rightarrow> (Err (notFound ''LbService'' (svc_Id service)), b))"

definition inmem_DeleteLoadBalancerService :: "string \<Rightarrow> (inmem, int \<times> error option) io" where
  "inmem_DeleteLoadBalancerService ident = (\<lambda>b.
     case findIndex (\<lambda>s. svc_Id s = ident) (lbServices b) of
       Some i \<Rightarrow> (Ok (StatusOK, None), b\<lparr>lbServices := removeAt i (lbServices b)\<rparr>)
     | None \<Rightarrow> (Ok (StatusNotFound, Some (notFound ''LbService'' ident)), b))"

definition inmem_CreateLoadBalancerVirtualServer :: "LbVirtualServer \<Rightarrow> (inmem, LbVirtualServer) io" where
  "inmem_CreateLoadBalancerVirtualServer server = (\<lambda>b.
     let server = server\<lparr>vs_Id := newId ''server'' (nextID b)\<rparr>
     in (Ok server, b\<lparr>nextID := Suc (nextID b), lbVirtualServers := lbVirtualServers b @ [server]\<rparr>))"

definition inmem_ListLoadBalancerVirtualServers :: "(inmem, LbVirtualServer list) io" where
  "inmem_ListLoadBalancerVirtualServers = getsIO lbVirtualServers"

definition inmem_UpdateLoadBalancerVirtualServer :: "LbVirtualServer \<Rightarrow> (inmem, LbVirtualServer) io" where
  "inmem_UpdateLoadBalancerVirtualServer server = (\<lambda>b.
     case findIndex (\<lambda>s. vs_Id s = vs_Id server) (lbVirtualServers b) of
       Some i \<Rightarrow> (Ok server, b\<lparr>lbVirtualServers := (lbVirtualServers b)[i := server]\<rparr>)
     | None \<Rightarrow> (Err (notFound ''LbVirtualServer'' (vs_Id server)), b))"

definition inmem_DeleteLoadBalancerVirtualServer :: "string \<Rightarrow> (inmem, int \<times> error option) io" where
  "inmem_DeleteLoadBalancerVirtualServer ident = (\<lambda>b.
     case findIndex (\<lambda>s. vs_Id s = ident) (lbVirtualServers b) of
       Some i \<Rightarrow> (Ok (StatusOK, None), b\<lparr>lbVirtualServers := removeAt i (lbVirtualServers b)\<rparr>)
     | None \<Rightarrow> (Ok (StatusNotFound, Some (notFound ''LbVirtualServer'' ident)), b))"

definition inmem_CreateLoadBalancerPool :: "LbPool \<Rightarrow> (inmem, LbPool) io" where
  "inmem_CreateLoadBalancerPool pool = (\<lambda>b.
     let pool = pool\<lparr>pool_Id := newId ''pool'' (nextID b)\<rparr>
     in (Ok pool, b\<lparr>nextID := Suc (nextID b), lbPools := lbPools b @ [pool]\<rparr>))"

definition inmem_ReadLoadBalancerPool :: "string \<Rightarrow> (inmem, LbPool) io" where
  "inmem_ReadLoadBalancerPool ident = (\<lambda>b.
     case findIndex (\<lambda>p. pool_Id p = ident) (lbPools b) of
       Some i \<Rightarrow> (Ok (lbPools b ! i), b)
     | None \<Rightarrow> (Err (notFound ''LbPool'' ident), b))"

definition inmem_ListLoadBalancerPools :: "(inmem, LbPool list) io" where
  "inmem_ListLoadBalancerPools = getsIO lbPools"

definition inmem_UpdateLoadBalancerPool :: "LbPool \<Rightarrow> (inmem, LbPool) io" where
  "inmem_UpdateLoadBalancerPool pool = (\<lambda>b.
     case findIndex (\<lambda>p. pool_Id p = pool_Id pool) (lbPools b) of
       Some i \<Rightarrow> (Ok pool, b\<lparr>lbPools := (lbPools b)[i := pool]\<rparr>)
     | None \<Rightarrow> (Err (notFound ''LbPool'' (pool_Id pool)), b))"

definition inmem_DeleteLoadBalancerPool :: "string \<Rightarrow> (inmem, int \<times> error option) io" where
  "inmem_DeleteLoadBalancerPool ident = (\<lambda>b.
     case findIndex (\<lambda>p. pool_Id p = ident) (lbPools b) of
       Some i \<Rightarrow> (Ok (StatusOK, None), b\<lparr>lbPools := removeAt i (lbPools b)\<rparr>)
     | None \<Rightarrow> (Ok (StatusNotFound, Some (notFound ''LbPool'' ident)), b))"

definition poolAddress :: "memIPPool \<Rightarrow> nat \<Rightarrow> string" where
  "poolAddress p i = mip_addressPrefix p @ ''.'' @ showNat i"

definition freeAddress :: "memIPPool \<Rightarrow> nat option" where
  "freeAddress p = find (\<lambda>i. poolAddress p i \<notin> set (mip_allocations p)) [1..<Suc (mip_size p)]"

definition inmem_AllocateFromIPPool :: "string \<Rightarrow> (inmem, string \<times> int \<times> error option) io" where
  "inmem_AllocateFromIPPool ipPoolID = (\<lambda>b.
     case map_of (ipPools b) ipPoolID of
       None \<Rightarrow> (Ok ('''', StatusNotFound, Some (Errorf ''IP pool %s not found'' [ipPoolID])), b)
     | Some ipPool \<Rightarrow>
         if mip_size ipPool = length (mip_allocations ipPool)
         then (Ok ('''', StatusInternalServerError, Some (Errorf ''IP pool %s is full'' [ipPoolID])), b)
         else (case freeAddress ipPool of
             Some i \<Rightarrow> (Ok (poolAddress ipPool i, StatusOK, None),
               b\<lparr>ipPools := AList.update ipPoolID
                   (ipPool\<lparr>mip_allocations := mip_allocations ipPool @ [poolAddress ipPool i]\<rparr>) (ipPools b)\<rparr>)
           | None \<Rightarrow> (Ok ('''', StatusInternalServerError, Some (Errorf ''should never be reached'' [])), b)))"

definition inmem_ListIPPoolAllocations ::
  "(inmem, string) order \<Rightarrow> string \<Rightarrow> (inmem, string list \<times> int \<times> error option) io" where
  "inmem_ListIPPoolAllocations ord ipPoolID = (\<lambda>b.
     case map_of (ipPools b) ipPoolID of
       None \<Rightarrow> (Ok ([], StatusNotFound, Some (Errorf ''IP pool %s not found'' [ipPoolID])), b)
     | Some ipPool \<Rightarrow> (Ok (rangeKeys ord b (mip_allocations ipPool), StatusOK, None), b))"

definition inmem_ReleaseFromIPPool :: "string \<Rightarrow> string \<Rightarrow> (inmem, int \<times> error option) io" where
  "inmem_ReleaseFromIPPool ipPoolID ipAddress = (\<lambda>b.
     case map_of (ipPools b) ipPoolID of
       None \<Rightarrow> (Ok (StatusNotFound, Some (Errorf ''IP pool %s not found'' [ipPoolID])), b)
     | Some ipPool \<Rightarrow>
         if ipAddress \<notin> set (mip_allocations ipPool)
         then (Ok (StatusNotFound, Some (Errorf ''IP address %s not found'' [ipAddress])), b)
         else (Ok (StatusOK, None), b\<lparr>ipPools := AList.update ipPoolID
                 (ipPool\<lparr>mip_allocations := filter (\<lambda>a. a \<noteq> ipAddress) (mip_allocations ipPool)\<rparr>) (ipPools b)\<rparr>))"

definition inmem_CreateLoadBalancerTCPMonitor :: "LbTcpMonitor \<Rightarrow> (inmem, LbTcpMonitor) io" where
  "inmem_CreateLoadBalancerTCPMonitor monitor = (\<lambda>b.
     let monitor = monitor\<lparr>mon_Id := newId ''tcp-monitor'' (nextID b)\<rparr>
     in (Ok monitor, b\<lparr>nextID := Suc (nextID b), lbMonitors := lbMonitors b @ [monitor]\<rparr>))"

definition inmem_ListLoadBalancerMonitors :: "(inmem, LbMonitor list) io" where
  "inmem_ListLoadBalancerMonitors = getsIO (\<lambda>b. map light (lbMonitors b))"

definition inmem_ReadLoadBalancerTCPMonitor :: "string \<Rightarrow> (inmem, LbTcpMonitor) io" where
  "inmem_ReadLoadBalancerTCPMonitor ident = (\<lambda>b.
     case findIndex (\<lambda>m. mon_Id m = ident) (lbMonitors b) of
       Some i \<Rightarrow> (Ok (lbMonitors b ! i), b)
     | None \<Rightarrow> (Err (notFound ''LbTcpMonitor'' ident), b))"

definition inmem_UpdateLoadBalancerTCPMonitor :: "LbTcpMonitor \<Rightarrow> (inmem, LbTcpMonitor) io" where
  "inmem_UpdateLoadBalancerTCPMonitor monitor = (\<lambda>b.
     case findIndex (\<lambda>m. mon_Id m = mon_Id monitor) (lbMonitors b) of
       Some i \<Rightarrow> (Ok monitor, b\<lparr>lbMonitors := (lbMonitors b)[i := monitor]\<rparr>)
     | None \<Rightarrow> (Err (notFound ''LbTcpMonitor'' (mon_Id monitor)), b))"

definition inmem_DeleteLoadBalancerMonitor :: "string \<Rightarrow> (inmem, int \<times> error option) io" where
  "inmem_DeleteLoadBalancerMonitor ident = (\<lambda>b.
     case findIndex (\<lambda>m. mon_Id m = ident) (lbMonitors b) of
       Some i \<Rightarrow> (Ok (StatusOK, None), b\<lparr>lbMonitors := removeAt i (lbMonitors b)\<rparr>)
     | None \<Rightarrow> (Ok (StatusNotFound, Some (notFound ''LbPool'' ident)), b))"

definition inmemoryNsxtBroker :: "(inmem, string) order \<Rightarrow> inmem NsxtBroker" where
  "inmemoryNsxtBroker ord =
     \<lparr>b_ListIPPools = inmem_ListIPPools ord,
      b_ReadLoadBalancerService = inmem_ReadLoadBalancerService,
      b_CreateLoadBalancerService = inmem_CreateLoadBalancerService,
      b_ListLoadBalancerServices = inmem_ListLoadBalancerServices,
      b_UpdateLoadBalancerService = inmem_UpdateLoadBalancerService,
      b_DeleteLoadBalancerService = inmem_DeleteLoadBalancerService,
      b_CreateLoadBalancerVirtualServer = inmem_CreateLoadBalancerVirtualServer,
      b_ListLoadBalancerVirtualServers = inmem_ListLoadBalancerVirtualServers,
      b_UpdateLoadBalancerVirtualServer = inmem_UpdateLoadBalancerVirtualServer,
      b_DeleteLoadBalancerVirtualServer = inmem_DeleteLoadBalancerVirtualServer,
      b_CreateLoadBalancerPool = inmem_CreateLoadBalancerPool,
      b_ReadLoadBalancerPool = inmem_ReadLoadBalancerPool,
      b_ListLoadBalancerPools = inmem_ListLoadBalancerPools,
      b_UpdateLoadBalancerPool = inmem_UpdateLoadBalancerPool,
      b_DeleteLoadBalancerPool = inmem_DeleteLoadBalancerPool,
      b_AllocateFromIPPool = inmem_AllocateFromIPPool,
      b_ListIPPoolAllocations = inmem_ListIPPoolAllocations ord,
      b_ReleaseFromIPPool = inmem_ReleaseFromIPPool,
      b_CreateLoadBalancerTCPMonitor = inmem_CreateLoadBalancerTCPMonitor,
      b_ListLoadBalancerMonitors = inmem_ListLoadBalancerMonitors,
      b_ReadLoadBalancerTCPMonitor = inmem_ReadLoadBalancerTCPMonitor,
      b_UpdateLoadBalancerTCPMonitor = inmem_UpdateLoadBalancerTCPMonitor,
      b_DeleteLoadBalancerMonitor = inmem_DeleteLoadBalancerMonitor\<rparr>"

section \<open>Invariant and view\<close>

text \<open>
  The ids of a kind of object are distinct and were made from a number below the next one;
  the map of IP pools has distinct keys, and the allocations of a pool are distinct
  addresses of its range.
\<close>

definition ids_ok :: "string \<Rightarrow> nat \<Rightarrow> string list \<Rightarrow> bool" where
  "ids_ok prefix n ids \<longleftrightarrow> distinct ids \<and> (\<forall>i \<in> set ids. \<exists>k < n. i = newId prefix k)"

definition ippool_ok :: "memIPPool \<Rightarrow> bool" where
  "ippool_ok p \<longleftrightarrow> mip_size p = 10 \<and> distinct (mip_allocations p) \<and>
     set (mip_allocations p) \<subseteq> poolAddress p ` {1..mip_size p}"

definition inmem_inv :: "inmem \<Rightarrow> bool" where
  "inmem_inv b \<longleftrightarrow>
     ids_ok ''lbservice'' (nextID b) (map svc_Id (lbServices b)) \<and>
     ids_ok ''server'' (nextID b) (map vs_Id (lbVirtualServers b)) \<and>
     ids_ok ''pool'' (nextID b) (map pool_Id (lbPools b)) \<and>
     ids_ok ''tcp-monitor'' (nextID b) (map mon_Id (lbMonitors b)) \<and>
     distinct (map fst (ipPools b)) \<and> (\<forall>(k, p) \<in> set (ipPools b). ippool_ok p)"

definition inmem_view :: "inmem \<Rightarrow> nsxt_view" where
  "inmem_view b =
     \<lparr>v_services = index_by svc_Id (lbServices b),
      v_servers = index_by vs_Id (lbVirtualServers b),
      v_pools = index_by pool_Id (lbPools b),
      v_monitors = index_by mon_Id (lbMonitors b),
      v_allocs = (\<lambda>k. map_option (set \<circ> mip_allocations) (map_of (ipPools b) k))\<rparr>"

section \<open>The contract holds\<close>

lemma newId_inj [simp]: "newId kind m = newId kind n \<longleftrightarrow> m = n"
  by (simp add: newId_def)

lemma newId_nonempty [simp]: "newId kind n \<noteq> []"
  by (simp add: newId_def)

lemma ids_ok_fresh: "ids_ok prefix n ids \<Longrightarrow> newId prefix n \<notin> set ids"
  by (auto simp: ids_ok_def)

lemma ids_ok_Suc: "ids_ok prefix n ids \<Longrightarrow> ids_ok prefix (Suc n) ids"
  unfolding ids_ok_def by (meson less_SucI)

lemma ids_ok_snoc: "ids_ok prefix n ids \<Longrightarrow> ids_ok prefix (Suc n) (ids @ [newId prefix n])"
  using ids_ok_fresh [of prefix n ids] unfolding ids_ok_def by (auto intro: less_SucI)

lemma ids_ok_distinct: "ids_ok prefix n ids \<Longrightarrow> distinct ids"
  by (simp add: ids_ok_def)

lemma ids_ok_removeAt: "ids_ok prefix n (map f xs) \<Longrightarrow> ids_ok prefix n (map f (removeAt i xs))"
  using set_removeAt_subset [of i xs] unfolding ids_ok_def by (auto simp: distinct_removeAt)

lemma map_key_update: "i < length xs \<Longrightarrow> key x = key (xs ! i) \<Longrightarrow> map key (xs[i := x]) = map key xs"
  by (simp add: map_update list_update_same_conv)

lemma findIndex_key:
  "findIndex (\<lambda>x. key x = k) xs = Some i \<Longrightarrow> i < length xs \<and> key (xs ! i) = k"
  using findIndex_Some by fastforce

lemma findIndex_lookup:
  "findIndex (\<lambda>x. key x = k) xs = Some i \<Longrightarrow> index_by key xs k = Some (xs ! i)"
  "findIndex (\<lambda>x. key x = k) xs = None \<Longrightarrow> index_by key xs k = None"
  by (induction xs arbitrary: i) (auto simp: index_by_def split: if_splits)

lemma index_by_map_light: "index_by lm_Id (map light ms) = (\<lambda>k. map_option light (index_by mon_Id ms k))"
  by (induction ms) (auto simp: index_by_def light_def)

lemmas inmem_methods =
  inmemoryNsxtBroker_def getsIO_def Let_def
  inmem_ListIPPools_def inmem_ReadLoadBalancerService_def inmem_CreateLoadBalancerService_def
  inmem_ListLoadBalancerServices_def inmem_UpdateLoadBalancerService_def
  inmem_DeleteLoadBalancerService_def inmem_CreateLoadBalancerVirtualServer_def
  inmem_ListLoadBalancerVirtualServers_def inmem_UpdateLoadBalancerVirtualServer_def
  inmem_DeleteLoadBalancerVirtualServer_def inmem_CreateLoadBalancerPool_def
  inmem_ReadLoadBalancerPool_def inmem_ListLoadBalancerPools_def inmem_UpdateLoadBalancerPool_def
  inmem_DeleteLoadBalancerPool_def inmem_CreateLoadBalancerTCPMonitor_def
  inmem_ListLoadBalancerMonitors_def inmem_ReadLoadBalancerTCPMonitor_def
  inmem_UpdateLoadBalancerTCPMonitor_def inmem_DeleteLoadBalancerMonitor_def

lemma create_view:
  assumes "ids_ok prefix n (map key xs)"
  shows "index_by key xs (newId prefix n) = None"
    "key x = newId prefix n \<Longrightarrow> index_by key (xs @ [x]) = (index_by key xs)(newId prefix n \<mapsto> x)"
    "ids_ok prefix (Suc n) (map key xs @ [newId prefix n])"
  using ids_ok_fresh [OF assms] ids_ok_snoc [OF assms] by (simp_all add: index_by_None index_by_append)

lemma update_view:
  assumes "ids_ok prefix n (map key xs)" "findIndex (\<lambda>y. key y = key x) xs = Some i"
  shows "key x \<in> dom (index_by key xs) \<and> index_by key (xs[i := x]) = (index_by key xs)(key x \<mapsto> x) \<and>
    ids_ok prefix n (map key (xs[i := x]))"
proof -
  have i: "i < length xs" "key (xs ! i) = key x" using findIndex_key [OF assms(2)] by auto
  then have "map key (xs[i := x]) = map key xs" by (intro map_key_update) auto
  with i show ?thesis
    using assms ids_ok_distinct [OF assms(1)] findIndex_lookup(1) [OF assms(2)]
    by (auto intro!: index_by_update simp del: map_update)
qed

lemma delete_view:
  assumes "ids_ok prefix n (map key xs)" "findIndex (\<lambda>y. key y = k) xs = Some i"
  shows "index_by key (removeAt i xs) = (index_by key xs)(k := None) \<and>
    ids_ok prefix n (map key (removeAt i xs))"
proof -
  have i: "i < length xs" "key (xs ! i) = k" using findIndex_key [OF assms(2)] by auto
  then show ?thesis
    using index_by_removeAt [OF i(1) ids_ok_distinct [OF assms(1)]] ids_ok_removeAt [OF assms(1)] by simp
qed

text \<open>IP pools.\<close>

lemma pools_all_iff:
  "distinct (map fst m) \<Longrightarrow> (\<forall>(k, p) \<in> set m. Q p) \<longleftrightarrow> (\<forall>k p. map_of m k = Some p \<longrightarrow> Q p)"
  by (auto dest: map_of_SomeD)

lemma inmem_inv_pool:
  assumes "inmem_inv b" "map_of (ipPools b) k = Some p"
  shows "ippool_ok p"
  using assms map_of_SomeD [OF assms(2)] by (auto simp: inmem_inv_def)

lemma inmem_inv_update_pool:
  assumes "inmem_inv b" "ippool_ok p"
  shows "inmem_inv (b\<lparr>ipPools := AList.update k p (ipPools b)\<rparr>)"
proof -
  have d: "distinct (map fst (ipPools b))" using assms(1) by (simp add: inmem_inv_def)
  have "\<forall>(k, p) \<in> set (AList.update k p (ipPools b)). ippool_ok p"
    using assms unfolding pools_all_iff [OF distinct_update [OF d]]
    by (auto simp: update_conv' split: if_splits dest: inmem_inv_pool)
  with assms(1) d show ?thesis by (simp add: inmem_inv_def distinct_update)
qed

lemma inmem_view_update_pool:
  "inmem_view (b\<lparr>ipPools := AList.update k p (ipPools b)\<rparr>)
   = (inmem_view b)\<lparr>v_allocs := (v_allocs (inmem_view b))(k \<mapsto> set (mip_allocations p))\<rparr>"
  by (auto simp: inmem_view_def update_conv' fun_eq_iff)

lemma poolAddress_inj [simp]: "poolAddress p i = poolAddress p j \<longleftrightarrow> i = j"
  by (simp add: poolAddress_def)

lemma poolAddress_alloc [simp]: "poolAddress (p\<lparr>mip_allocations := as\<rparr>) = poolAddress p"
  by (simp add: poolAddress_def fun_eq_iff)

lemma find_upto:
  assumes "find P [1..<Suc n] = Some i"
  shows "P i \<and> i \<in> {1..n}"
proof -
  have "P i \<and> i \<in> set [1..<Suc n]"
    using assms unfolding find_Some_iff by (metis nth_mem)
  then show ?thesis by auto
qed

lemma poolAddress_nonempty [simp]: "poolAddress p i \<noteq> []"
  by (simp add: poolAddress_def)

lemma v_allocs_inmem: "v_allocs (inmem_view b) k = map_option (set \<circ> mip_allocations) (map_of (ipPools b) k)"
  by (simp add: inmem_view_def)

lemma freeAddress_Some:
  assumes "ippool_ok p" "freeAddress p = Some i"
  shows "ippool_ok (p\<lparr>mip_allocations := mip_allocations p @ [poolAddress p i]\<rparr>) \<and>
    poolAddress p i \<notin> set (mip_allocations p)"
  using assms(1) find_upto [OF assms(2) [unfolded freeAddress_def]] by (auto simp: ippool_ok_def)

lemma ippool_ok_release:
  "ippool_ok p \<Longrightarrow> ippool_ok (p\<lparr>mip_allocations := filter (\<lambda>a. a \<noteq> ip) (mip_allocations p)\<rparr>)"
  by (auto simp: ippool_ok_def)

text \<open>A pool that is not full has a free address: the last branch of the allocation is dead.\<close>

lemma freeAddress_not_full:
  assumes "ippool_ok p" "mip_size p \<noteq> length (mip_allocations p)"
  shows "freeAddress p \<noteq> None"
proof
  assume "freeAddress p = None"
  then have "\<forall>i \<in> {1..mip_size p}. poolAddress p i \<in> set (mip_allocations p)"
    unfolding freeAddress_def find_None_iff by auto
  with assms(1) have "set (mip_allocations p) = poolAddress p ` {1..mip_size p}"
    by (auto simp: ippool_ok_def)
  then have "card (set (mip_allocations p)) = card {1..mip_size p}"
    by (simp add: card_image inj_on_def)
  with assms show False by (simp add: distinct_card ippool_ok_def)
qed

lemmas inmem_state = inmem_methods inmem_view_def inmem_inv_def

interpretation im: nsxt_backend "inmemoryNsxtBroker ord" inmem_inv inmem_view "''''"
  for ord :: "(inmem, string) order"
proof (unfold_locales, goal_cases)
  case (1 v k) show ?case
    by (rule tripleI) (auto simp: inmem_methods inmem_view_def findIndex_lookup split: option.split dest: findIndex_Some)
next
  case (2 v svc) show ?case
    by (rule tripleI) (auto simp: inmem_state ids_ok_Suc create_view intro!: exI)
next
  case (3 v) show ?case
    by (rule tripleI) (auto simp: inmem_state ids_ok_def intro: lists_index_by)
next
  case (4 v svc) show ?case
    by (rule tripleI) (auto simp: inmem_state simp del: map_update split: option.split dest: update_view)
next
  case (5 v k) show ?case
    by (rule tripleI) (auto simp: inmem_state deleted_def findIndex_lookup split: option.split dest: delete_view)
next
  case (6 v srv) show ?case
    by (rule tripleI) (auto simp: inmem_state ids_ok_Suc create_view intro!: exI)
next
  case (7 v) show ?case
    by (rule tripleI) (auto simp: inmem_state ids_ok_def intro: lists_index_by)
next
  case (8 v srv) show ?case
    by (rule tripleI) (auto simp: inmem_state simp del: map_update split: option.split dest: update_view)
next
  case (9 v k) show ?case
    by (rule tripleI) (auto simp: inmem_state deleted_def findIndex_lookup split: option.split dest: delete_view)
next
  case (10 v pool) show ?case
    by (rule tripleI) (auto simp: inmem_state ids_ok_Suc create_view intro!: exI)
next
  case (11 v k) show ?case
    by (rule tripleI) (auto simp: inmem_methods inmem_view_def findIndex_lookup split: option.split)
next
  case (12 v) show ?case
    by (rule tripleI) (auto simp: inmem_state ids_ok_def intro: lists_index_by)
next
  case (13 v pool) show ?case
    by (rule tripleI) (auto simp: inmem_state simp del: map_update split: option.split dest: update_view)
next
  case (14 v k) show ?case
    by (rule tripleI) (auto simp: inmem_state deleted_def findIndex_lookup split: option.split dest: delete_view)
next
  case (15 mon v) then show ?case
    by (intro tripleI)
      (auto simp: inmem_state ids_ok_Suc create_view intro!: exI [of _ "newId ''tcp-monitor'' _"])
next
  case (16 v) show ?case
  proof (rule tripleI)
    fix s assume "inmem_inv s \<and> inmem_view s = v"
    moreover from this have "distinct (map lm_Id (map light (lbMonitors s)))"
      by (simp add: inmem_inv_def ids_ok_def light_def comp_def)
    ultimately show "post (\<lambda>xs s. (inmem_inv s \<and> inmem_view s = v) \<and>
        lists lm_Id xs (\<lambda>id. map_option light (v_monitors v id))) (\<lambda>_ s. inmem_inv s \<and> inmem_view s = v)
        (b_ListLoadBalancerMonitors (inmemoryNsxtBroker ord) s)"
      using lists_index_by by (fastforce simp: inmem_methods inmem_view_def simp flip: index_by_map_light)
  qed
next
  case (17 v k) show ?case
    by (rule tripleI) (auto simp: inmem_methods inmem_view_def findIndex_lookup split: option.split)
next
  case (18 v mon) show ?case
    by (rule tripleI) (auto simp: inmem_state simp del: map_update split: option.split dest: update_view)
next
  case (19 v k) show ?case
    by (rule tripleI) (auto simp: inmem_state deleted_def findIndex_lookup split: option.split dest: delete_view)
next
  case (20 v p) show ?case
    by (rule tripleI)
      (auto simp: inmemoryNsxtBroker_def inmem_AllocateFromIPPool_def inmem_view_update_pool
        v_allocs_inmem split: option.split
        intro!: inmem_inv_update_pool dest: freeAddress_Some [OF inmem_inv_pool])
next
  case (21 v p) show ?case
    by (rule tripleI) (auto simp: inmemoryNsxtBroker_def inmem_ListIPPoolAllocations_def inmem_view_def split: option.split)
next
  case (22 v p ip) show ?case
    by (rule tripleI)
      (auto simp: inmemoryNsxtBroker_def inmem_ReleaseFromIPPool_def inmem_view_update_pool
        v_allocs_inmem set_diff_eq split: option.split
        intro!: inmem_inv_update_pool ippool_ok_release dest: inmem_inv_pool)
next
  case (23 v) show ?case
    by (rule tripleI) (auto simp: inmem_methods)
qed

text \<open>
  In the simulation an undo works, and so does everything else, as long as the pool has less than
  ten addresses allocated.
\<close>

definition inmem_room :: "nsxt_view \<Rightarrow> string \<Rightarrow> bool" where
  "inmem_room v p \<longleftrightarrow> (\<exists>as. v_allocs v p = Some as \<and> card as < 10)"

lemma findIndex_exists: "index_by key xs k = Some x \<Longrightarrow> \<exists>i. findIndex (\<lambda>x. key x = k) xs = Some i"
  using findIndex_lookup(2) [of key k xs] by (cases "findIndex (\<lambda>x. key x = k) xs") auto

interpretation imr: reliable_backend "inmemoryNsxtBroker ord" inmem_inv inmem_view "''''"
  for ord :: "(inmem, string) order"
proof (unfold_locales, goal_cases)
  case (1 v k) show ?case
    by (rule tripleI) (auto simp: inmem_methods split: option.split)
next
  case (2 v p) show ?case
    by (rule tripleI) (auto simp: inmemoryNsxtBroker_def inmem_ListIPPoolAllocations_def split: option.split)
next
  case (3 v p as ip) then show ?case
    by (intro tripleI) (auto simp: inmemoryNsxtBroker_def inmem_ReleaseFromIPPool_def v_allocs_inmem split: option.split)
qed

lemma inmem_allocate_works:
  assumes "inmem_room (inmem_view b) p" "inmem_inv b"
  shows "post (\<lambda>(_, statusCode, err) _. statusCode = StatusOK \<and> err = None) (\<lambda>_ _. False) (inmem_AllocateFromIPPool p b)"
proof -
  from assms(1) obtain q where q: "map_of (ipPools b) p = Some q" "card (set (mip_allocations q)) < 10"
    by (auto simp: inmem_room_def v_allocs_inmem)
  have ok: "ippool_ok q" by (rule inmem_inv_pool [OF assms(2) q(1)])
  then have full: "mip_size q \<noteq> length (mip_allocations q)" using q(2) by (auto simp: ippool_ok_def distinct_card)
  from freeAddress_not_full [OF ok full] full q(1) show ?thesis by (auto simp: inmem_AllocateFromIPPool_def)
qed

interpretation imw: working_backend "inmemoryNsxtBroker ord" inmem_inv inmem_view "''''" inmem_room
  for ord :: "(inmem, string) order"
proof (unfold_locales, goal_cases)
  case (1 v' v p) then show ?case by (simp add: inmem_room_def)
next
  case (2 v p) then show ?case
    by (intro tripleI) (auto simp: inmemoryNsxtBroker_def intro: inmem_allocate_works)
qed (rule tripleI; auto simp: inmem_methods inmem_view_def dest!: findIndex_exists split: option.split)+

section \<open>Reachable states\<close>

text \<open>
  One step is one call of a method that writes the state, with any argument; callers run in
  any order, since every such method holds the mutex from its first to its last line.
\<close>

inductive inmem_step :: "inmem \<Rightarrow> inmem \<Rightarrow> bool" where
  create_service: "inmem_step b (snd (inmem_CreateLoadBalancerService svc b))"
| update_service: "inmem_step b (snd (inmem_UpdateLoadBalancerService svc b))"
| delete_service: "inmem_step b (snd (inmem_DeleteLoadBalancerService k b))"
| create_server: "inmem_step b (snd (inmem_CreateLoadBalancerVirtualServer srv b))"
| update_server: "inmem_step b (snd (inmem_UpdateLoadBalancerVirtualServer srv b))"
| delete_server: "inmem_step b (snd (inmem_DeleteLoadBalancerVirtualServer k b))"
| create_pool: "inmem_step b (snd (inmem_CreateLoadBalancerPool pool b))"
| update_pool: "inmem_step b (snd (inmem_UpdateLoadBalancerPool pool b))"
| delete_pool: "inmem_step b (snd (inmem_DeleteLoadBalancerPool k b))"
| create_monitor: "inmem_step b (snd (inmem_CreateLoadBalancerTCPMonitor mon b))"
| update_monitor: "inmem_step b (snd (inmem_UpdateLoadBalancerTCPMonitor mon b))"
| delete_monitor: "inmem_step b (snd (inmem_DeleteLoadBalancerMonitor k b))"
| allocate: "inmem_step b (snd (inmem_AllocateFromIPPool p b))"
| release: "inmem_step b (snd (inmem_ReleaseFromIPPool p ip b))"

inductive inmem_reachable :: "string list \<Rightarrow> inmem \<Rightarrow> bool" for names :: "string list" where
  init: "inmem_reachable names (NewInMemoryNsxtBroker names)"
| step: "inmem_reachable names b \<Longrightarrow> inmem_step b b' \<Longrightarrow> inmem_reachable names b'"

lemma inmem_step_inv:
  assumes "inmem_step b b'" "inmem_inv b"
  shows "inmem_inv b'"
  using assms
proof (induction rule: inmem_step.induct)
  case (create_service b svc)
  then show ?case by (simp add: inmem_state ids_ok_Suc create_view(3))
next
  case (create_server b srv)
  then show ?case by (simp add: inmem_state ids_ok_Suc create_view(3))
next
  case (create_pool b pool)
  then show ?case by (simp add: inmem_state ids_ok_Suc create_view(3))
next
  case (create_monitor b mon)
  then show ?case by (simp add: inmem_state ids_ok_Suc create_view(3))
next
  case (update_service b svc)
  then show ?case by (auto simp: inmem_state simp del: map_update split: option.split dest: update_view)
next
  case (update_server b srv)
  then show ?case by (auto simp: inmem_state simp del: map_update split: option.split dest: update_view)
next
  case (update_pool b pool)
  then show ?case by (auto simp: inmem_state simp del: map_update split: option.split dest: update_view)
next
  case (update_monitor b mon)
  then show ?case by (auto simp: inmem_state simp del: map_update split: option.split dest: update_view)
next
  case (delete_service b k)
  then show ?case by (auto simp: inmem_state split: option.split dest: delete_view)
next
  case (delete_server b k)
  then show ?case by (auto simp: inmem_state split: option.split dest: delete_view)
next
  case (delete_pool b k)
  then show ?case by (auto simp: inmem_state split: option.split dest: delete_view)
next
  case (delete_monitor b k)
  then show ?case by (auto simp: inmem_state split: option.split dest: delete_view)
next
  case (allocate b p)
  then show ?case
    by (auto simp: inmem_AllocateFromIPPool_def split: option.split
        intro!: inmem_inv_update_pool dest: freeAddress_Some [OF inmem_inv_pool])
next
  case (release b p ip)
  then show ?case
    by (auto simp: inmem_ReleaseFromIPPool_def split: option.split
        intro!: inmem_inv_update_pool ippool_ok_release dest: inmem_inv_pool)
qed

lemma new_pools_fold:
  assumes "distinct (map fst m)" "\<forall>(k, p) \<in> set m. ippool_ok p"
  shows "distinct (map fst (fold (\<lambda>i m. AList.update (key i) (newMemIPPool (key i) (nm i) (pre i) 10) m) is m)) \<and>
    (\<forall>(k, p) \<in> set (fold (\<lambda>i m. AList.update (key i) (newMemIPPool (key i) (nm i) (pre i) 10) m) is m). ippool_ok p)"
  using assms
proof (induction "is" arbitrary: m)
  case Nil
  then show ?case by simp
next
  case (Cons i "is")
  let ?m = "AList.update (key i) (newMemIPPool (key i) (nm i) (pre i) 10) m"
  have d: "distinct (map fst ?m)" using Cons.prems(1) by (rule distinct_update)
  have "ippool_ok (newMemIPPool (key i) (nm i) (pre i) 10)" by (simp add: ippool_ok_def newMemIPPool_def)
  then have "\<forall>(k, p) \<in> set ?m. ippool_ok p"
    using Cons.prems unfolding pools_all_iff [OF d] pools_all_iff [OF Cons.prems(1)]
    by (auto simp: update_conv' split: if_splits)
  with Cons.IH [OF d] show ?case by simp
qed

lemma inmem_init_inv: "inmem_inv (NewInMemoryNsxtBroker names)"
  using new_pools_fold [of "[]"] by (simp add: inmem_inv_def NewInMemoryNsxtBroker_def ids_ok_def)

lemma inmem_reachable_inv: "inmem_reachable names b \<Longrightarrow> inmem_inv b"
  by (induction rule: inmem_reachable.induct) (auto intro: inmem_init_inv inmem_step_inv)

section \<open>Properties\<close>





end
