(* ===== verification/LB_Classes.thy ===== *)
theory LB_Classes
  imports Access Inmem_Broker
begin

text \<open>
  Load balancer classes (\<open>class.go\<close>): each class names an IP pool, and the controller
  tags virtual servers with the class and the pool. The pool of a class is looked up by
  its name when the configuration gives no id.
\<close>

section \<open>Classes\<close>

record loadBalancerClass =
  className :: string
  ipPoolName :: string
  ipPoolID :: string
  class_tags :: "tag list"

record loadBalancerClasses =
  lbc_size :: string
  lbc_classes :: "(string \<times> loadBalancerClass) list"

definition newLBClass :: "string \<Rightarrow> string \<Rightarrow> string \<Rightarrow> loadBalancerClass" where
  "newLBClass name poolID poolName =
     \<lparr>className = name, ipPoolName = poolName, ipPoolID = poolID,
      class_tags = [\<lparr>Scope = ScopeIPPoolID, Tag = poolID\<rparr>, \<lparr>Scope = ScopeLBClass, Tag = name\<rparr>]\<rparr>"

definition GetClass :: "loadBalancerClasses \<Rightarrow> string \<Rightarrow> loadBalancerClass option" where
  "GetClass c name = map_of (lbc_classes c) name"

definition class_Tags :: "loadBalancerClass \<Rightarrow> tag list" where
  "class_Tags c = class_tags c"

text \<open>
  The pool name that is looked up is the one of the class itself, also where the class
  took the values of the default.
\<close>

definition classes_add ::
  "'s access \<Rightarrow> string \<Rightarrow> LoadBalancerClassConfig \<Rightarrow> LoadBalancerClassConfig \<Rightarrow>
   loadBalancerClasses \<Rightarrow> ('s, loadBalancerClasses) io" where
  "classes_add a name classConfig defaultConfig c =
     (let useDefault = cc_IPPoolID classConfig = '''' \<and> cc_IPPoolName classConfig = '''';
          poolID = (if useDefault then cc_IPPoolID defaultConfig else cc_IPPoolID classConfig);
          poolName = (if useDefault then cc_IPPoolName defaultConfig else cc_IPPoolName classConfig)
      in bindIO (if poolID = '''' then FindIPPoolByName a (cc_IPPoolName classConfig) else ret poolID)
           (\<lambda>poolID. ret (c\<lparr>lbc_classes := AList.update name (newLBClass name poolID poolName) (lbc_classes c)\<rparr>)))"

text \<open>The loop over the configured classes.\<close>

definition setupLoop ::
  "'s access \<Rightarrow> LoadBalancerClassConfig \<Rightarrow> loadBalancerClasses \<Rightarrow>
   (string \<times> LoadBalancerClassConfig) list \<Rightarrow> ('s, loadBalancerClasses) io" where
  "setupLoop a defaultConfig = foldIO (\<lambda>lbClasses (name, classConfig).
     case GetClass lbClasses name of
       Some _ \<Rightarrow> throw (Errorf ''duplicate LoadBalancerClass %s'' [name])
     | None \<Rightarrow> wrapErr (\<lambda>e. Wrapf e ''invalid LoadBalancerClass %s'' [name])
                 (classes_add a name classConfig defaultConfig lbClasses))"

definition setupClasses ::
  "('s, string) order \<Rightarrow> 's access \<Rightarrow> LBConfig \<Rightarrow> ('s, loadBalancerClasses) io" where
  "setupClasses ord a cfg =
     (if lbc_Size (LoadBalancer cfg) \<notin> set LoadBalancerSizes
      then throw (Errorf ''invalid load balancer size %s'' [lbc_Size (LoadBalancer cfg)])
      else
       (let lbClasses = \<lparr>lbc_size = lbc_Size (LoadBalancer cfg), lbc_classes = []\<rparr>;
            sectionConfig = \<lparr>cc_IPPoolName = lbc_IPPoolName (LoadBalancer cfg),
                             cc_IPPoolID = lbc_IPPoolID (LoadBalancer cfg)\<rparr>;
            defCfg = map_of (LoadBalancerClasses cfg) DefaultLoadBalancerClass;
            defaultConfig = (case defCfg of
               Some d \<Rightarrow> if cc_IPPoolID d \<noteq> '''' \<or> cc_IPPoolName d \<noteq> '''' then d else sectionConfig
             | None \<Rightarrow> sectionConfig)
        in bindIO
             (case defCfg of
                Some _ \<Rightarrow> ret lbClasses
              | None \<Rightarrow> wrapErr (\<lambda>e. Wrapf e ''invalid LoadBalancerClass %s'' [DefaultLoadBalancerClass])
                         (classes_add a DefaultLoadBalancerClass defaultConfig defaultConfig lbClasses))
             (\<lambda>lbClasses.
           bindIO (getsIO (\<lambda>s. rangeMap ord s (LoadBalancerClasses cfg))) (\<lambda>entries.
           setupLoop a defaultConfig lbClasses entries))))"

section \<open>Lemmas\<close>

lemma class_tags_scopes:
  "Scope ` set (class_Tags (newLBClass name poolID poolName)) \<inter> {ScopeOwner, ScopeCluster, ScopeService} = {}"
  by (auto simp: class_Tags_def newLBClass_def)

text \<open>The names of the classes a computation produced, if it produced any.\<close>

lemma classes_add_Ok:
  "classes_add a name cc dc c s = (Ok c', s') \<Longrightarrow>
   \<exists>poolID poolName. lbc_classes c' = AList.update name (newLBClass name poolID poolName) (lbc_classes c) \<and>
     (cc_IPPoolID cc \<noteq> '''' \<longrightarrow> poolID = cc_IPPoolID cc) \<and> lbc_size c' = lbc_size c"
  by (auto 0 0 simp: classes_add_def Let_def bindIO_Ok ret_def split: if_splits) (blast | force)+

lemma wrapErr_Ok: "wrapErr w f s = (Ok v, s') \<longleftrightarrow> f s = (Ok v, s')"
  by (auto simp: wrapErr_def split: prod.splits outcome.splits)

definition goodClass :: "LBConfig \<Rightarrow> string \<Rightarrow> loadBalancerClass \<Rightarrow> bool" where
  "goodClass cfg k c \<longleftrightarrow> className c = k \<and>
     class_tags c = [\<lparr>Scope = ScopeIPPoolID, Tag = ipPoolID c\<rparr>, \<lparr>Scope = ScopeLBClass, Tag = k\<rparr>] \<and>
     (\<forall>cc. map_of (LoadBalancerClasses cfg) k = Some cc \<and> cc_IPPoolID cc \<noteq> '''' \<longrightarrow> ipPoolID c = cc_IPPoolID cc)"

lemma goodClass_new:
  "map_of (LoadBalancerClasses cfg) k = Some cc \<Longrightarrow> (cc_IPPoolID cc \<noteq> '''' \<longrightarrow> poolID = cc_IPPoolID cc) \<Longrightarrow>
   goodClass cfg k (newLBClass k poolID poolName)"
  by (simp add: goodClass_def newLBClass_def)

lemma setupLoop_Ok:
  assumes "setupLoop a d c entries s = (Ok c', s')"
    and "\<forall>(k, cc) \<in> set entries. map_of (LoadBalancerClasses cfg) k = Some cc"
    and "\<forall>k x. map_of (lbc_classes c) k = Some x \<longrightarrow> goodClass cfg k x"
  shows "dom (map_of (lbc_classes c')) = dom (map_of (lbc_classes c)) \<union> fst ` set entries \<and>
    lbc_size c' = lbc_size c \<and> (\<forall>k x. map_of (lbc_classes c') k = Some x \<longrightarrow> goodClass cfg k x)"
  using assms
proof (induction entries arbitrary: c s)
  case Nil
  then show ?case by (auto simp: setupLoop_def ret_def)
next
  case (Cons e es)
  obtain k cc where e: "e = (k, cc)" by (cases e)
  from Cons.prems(1) obtain c1 s1 where add: "classes_add a k cc d c s = (Ok c1, s1)"
    and rest: "setupLoop a d c1 es s1 = (Ok c', s')"
    by (auto simp: setupLoop_def e bindIO_Ok wrapErr_Ok throw_def split: option.splits)
  from classes_add_Ok [OF add] obtain pid pn
    where c1: "lbc_classes c1 = AList.update k (newLBClass k pid pn) (lbc_classes c)"
      "cc_IPPoolID cc \<noteq> '''' \<longrightarrow> pid = cc_IPPoolID cc" "lbc_size c1 = lbc_size c"
    by blast
  have kc: "map_of (LoadBalancerClasses cfg) k = Some cc" using Cons.prems(2) e by simp
  have "\<forall>k x. map_of (lbc_classes c1) k = Some x \<longrightarrow> goodClass cfg k x"
    using Cons.prems(3) goodClass_new [OF kc c1(2)] by (auto simp: c1(1) update_conv')
  with Cons.IH [OF rest] Cons.prems(2) show ?case by (auto simp: c1 e update_conv')
qed

lemma setupClasses_cases:
  assumes "setupClasses ord a cfg s = (Ok c, s')"
  obtains (Default) d s0 where "map_of (LoadBalancerClasses cfg) DefaultLoadBalancerClass \<noteq> None"
      "setupLoop a d \<lparr>lbc_size = lbc_Size (LoadBalancer cfg), lbc_classes = []\<rparr>
         (rangeMap ord s0 (LoadBalancerClasses cfg)) s0 = (Ok c, s')"
    | (NoDefault) d c0 s0 where "map_of (LoadBalancerClasses cfg) DefaultLoadBalancerClass = None"
      "classes_add a DefaultLoadBalancerClass d d \<lparr>lbc_size = lbc_Size (LoadBalancer cfg), lbc_classes = []\<rparr> s = (Ok c0, s0)"
      "setupLoop a d c0 (rangeMap ord s0 (LoadBalancerClasses cfg)) s0 = (Ok c, s')"
proof (cases "map_of (LoadBalancerClasses cfg) DefaultLoadBalancerClass")
  case None
  with assms show ?thesis
    by (auto simp: setupClasses_def Let_def bindIO_Ok wrapErr_Ok getsIO_def throw_def split: if_splits intro: NoDefault)
next
  case (Some x)
  with assms show ?thesis
    by (auto simp: setupClasses_def Let_def bindIO_Ok getsIO_def ret_def throw_def split: if_splits intro: Default)
qed

lemma setupClasses_good:
  assumes "setupClasses ord a cfg s = (Ok c, s')" "distinct (map fst (LoadBalancerClasses cfg))"
  shows "dom (map_of (lbc_classes c)) = insert DefaultLoadBalancerClass (fst ` set (LoadBalancerClasses cfg)) \<and>
    lbc_size c = lbc_Size (LoadBalancer cfg) \<and> (\<forall>k x. map_of (lbc_classes c) k = Some x \<longrightarrow> goodClass cfg k x)"
proof -
  have entries: "\<forall>(k, cc) \<in> set (rangeMap ord s0 (LoadBalancerClasses cfg)). map_of (LoadBalancerClasses cfg) k = Some cc"
    "fst ` set (rangeMap ord s0 (LoadBalancerClasses cfg)) = fst ` set (LoadBalancerClasses cfg)" for s0
    using assms(2) by (auto simp: set_rangeMap)
  from assms(1) show ?thesis
  proof (cases rule: setupClasses_cases)
    case (Default d s0)
    then have "DefaultLoadBalancerClass \<in> fst ` set (LoadBalancerClasses cfg)"
      by (simp add: map_of_eq_None_iff)
    with setupLoop_Ok [OF Default(2) entries(1)] entries(2) [of s0] show ?thesis
      by (simp add: insert_absorb)
  next
    case (NoDefault d c0 s0)
    from classes_add_Ok [OF NoDefault(2)] obtain pid pn
      where c0: "lbc_classes c0 = [(DefaultLoadBalancerClass, newLBClass DefaultLoadBalancerClass pid pn)]"
        "lbc_size c0 = lbc_Size (LoadBalancer cfg)" by auto
    have "\<forall>k x. map_of (lbc_classes c0) k = Some x \<longrightarrow> goodClass cfg k x"
      using NoDefault(1) by (auto simp: c0 goodClass_def newLBClass_def)
    from setupLoop_Ok [OF NoDefault(3) entries(1) this] entries(2) [of s0] c0 show ?thesis
      by simp
  qed
qed

section \<open>Properties\<close>

text \<open>
  C28. A successful setup gives exactly the configured classes and the default class, each
  under its own name, with its tags naming its pool and its class, and with the pool id of
  the configuration where that gives one; for every order in which the classes are visited.
\<close>

theorem setupClasses_sound:
  assumes "setupClasses ord a cfg s = (Ok c, s')" "distinct (map fst (LoadBalancerClasses cfg))"
  shows "dom (map_of (lbc_classes c)) = insert DefaultLoadBalancerClass (fst ` set (LoadBalancerClasses cfg)) \<and>
    lbc_size c = lbc_Size (LoadBalancer cfg) \<and>
    (\<forall>k x. GetClass c k = Some x \<longrightarrow> className x = k \<and>
       class_Tags x = [\<lparr>Scope = ScopeIPPoolID, Tag = ipPoolID x\<rparr>, \<lparr>Scope = ScopeLBClass, Tag = k\<rparr>] \<and>
       (\<forall>cc. map_of (LoadBalancerClasses cfg) k = Some cc \<and> cc_IPPoolID cc \<noteq> '''' \<longrightarrow> ipPoolID x = cc_IPPoolID cc))"
  using setupClasses_good [OF assms] by (auto simp: GetClass_def class_Tags_def goodClass_def)

definition example_classes_cfg :: LBConfig where
  "example_classes_cfg = example_cfg\<lparr>LoadBalancer := (LoadBalancer example_cfg)\<lparr>lbc_IPPoolID := ''ipp-1''\<rparr>,
     LoadBalancerClasses := [(''public'', \<lparr>cc_IPPoolName = '''', cc_IPPoolID = ''ipp-2''\<rparr>)]\<rparr>"

lemma setupClasses_example:
  "setupClasses (\<lambda>_ ks. ks) a example_classes_cfg s =
     (Ok \<lparr>lbc_size = ''MEDIUM'', lbc_classes =
        [(''default'', newLBClass ''default'' ''ipp-1'' ''pool1''), (''public'', newLBClass ''public'' ''ipp-2'' '''')]\<rparr>, s)"
  by (simp add: setupClasses_def setupLoop_def classes_add_def GetClass_def example_classes_cfg_def example_cfg_def
      rangeMap_def rangeKeys_def LoadBalancerSizes_def SizeMedium_def DefaultLoadBalancerClass_def Let_def io_defs)

definition example_access :: "inmem access" where
  "example_access = projr (NewAccess (inmemoryNsxtBroker (\<lambda>_ ks. ks)) example_classes_cfg)"

theorem setupClasses_sound_witness:
  "\<exists>c s'. setupClasses (\<lambda>_ ks. ks) example_access example_classes_cfg (NewInMemoryNsxtBroker []) = (Ok c, s') \<and>
     dom (map_of (lbc_classes c)) = {''default'', ''public''}"
proof -
  have keys: "distinct (map fst (LoadBalancerClasses example_classes_cfg))"
    "insert DefaultLoadBalancerClass (fst ` set (LoadBalancerClasses example_classes_cfg)) = {''default'', ''public''}"
    by (simp_all add: example_classes_cfg_def DefaultLoadBalancerClass_def)
  obtain c where c: "setupClasses (\<lambda>_ ks. ks) example_access example_classes_cfg (NewInMemoryNsxtBroker []) =
      (Ok c, NewInMemoryNsxtBroker [])"
    by (rule that [OF setupClasses_example])
  from setupClasses_sound [OF c keys(1), unfolded keys(2)] c show ?thesis by (intro exI conjI) (rule c, rule conjunct1)
qed

text \<open>
  A class that leaves out its pool does not inherit a default pool given by name: the
  lookup uses the empty name of the class, so the setup of that class fails whenever no
  IP pool has an empty name, although the default names an existing pool.
\<close>

theorem default_pool_name_ignored:
  assumes "cc_IPPoolID cc = ''''" "cc_IPPoolName cc = ''''" "cc_IPPoolID dc = ''''"
    and "b_ListIPPools (broker a) s = (Ok pools, s')" "\<forall>p \<in> set pools. ipp_DisplayName p \<noteq> ''''"
  shows "classes_add a name cc dc c s = (Err (Errorf ''load balancer IP pool named %s not found'' ['''']), s')"
proof -
  have "find (\<lambda>p. ipp_DisplayName p = []) pools = None"
    using assms(5) by (simp add: find_None_iff)
  with assms(1-4) show ?thesis
    by (simp add: classes_add_def FindIPPoolByName_def bindIO_def wrapErr_def throw_def)
qed

theorem default_pool_name_ignored_witness:
  "classes_add example_access ''public'' \<lparr>cc_IPPoolName = '''', cc_IPPoolID = ''''\<rparr>
     \<lparr>cc_IPPoolName = ''pool1'', cc_IPPoolID = ''''\<rparr> \<lparr>lbc_size = ''SMALL'', lbc_classes = []\<rparr> (NewInMemoryNsxtBroker [''pool1''])
   = (Err (Errorf ''load balancer IP pool named %s not found'' ['''']), NewInMemoryNsxtBroker [''pool1''])"
proof (rule default_pool_name_ignored)
  show "b_ListIPPools (broker example_access) (NewInMemoryNsxtBroker [''pool1'']) =
      (Ok [\<lparr>ipp_Id = ipPoolId 0, ipp_DisplayName = ''pool1''\<rparr>], NewInMemoryNsxtBroker [''pool1''])"
    by (simp add: example_access_def NewAccess_def Let_def inmemoryNsxtBroker_def inmem_ListIPPools_def
        getsIO_def NewInMemoryNsxtBroker_def rangeMap_def rangeKeys_def newMemIPPool_def toIPPool_def)
qed simp_all

end
