(* ===== verification/LB_Service.thy ===== *)
theory LB_Service
  imports LB_Classes
begin

text \<open>
  The load balancer service the virtual servers are attached to (\<open>lbservice.go\<close>). It is
  either given by the configuration or managed: created for the first virtual server and
  deleted with the last one. Both operations hold the mutex \<open>lbLock\<close> from their first to
  their last statement, so each is one step on the pair of the object and the backend.
\<close>

section \<open>The object and its operations\<close>

record 's lbService =
  access :: "'s access"
  lbServiceID :: string
  managed :: bool

definition newLbService :: "'s access \<Rightarrow> string \<Rightarrow> 's lbService" where
  "newLbService a ident = \<lparr>access = a, lbServiceID = ident, managed = (ident = '''')\<rparr>"

text \<open>\<open>s.access.<method>\<close>\<close>

definition viaAccess :: "('s access \<Rightarrow> ('s, 'a) io) \<Rightarrow> ('s lbService \<times> 's, 'a) io" where
  [io_defs]: "viaAccess f = (\<lambda>(l, b). case f (access l) b of (r, b') \<Rightarrow> (r, (l, b')))"

definition addVirtualServerToLoadBalancerService ::
  "string \<Rightarrow> string \<Rightarrow> ('s lbService \<times> 's, unit) io" where
  "addVirtualServerToLoadBalancerService clusterName serverID =
     bindIO (getsIO (\<lambda>(s, _). (lbServiceID s, managed s))) (\<lambda>(ident, isManaged).
     bindIO (viaAccess (\<lambda>a. FindLoadBalancerService a clusterName ident)) (\<lambda>found.
     bindIO (case found of
               Some svc \<Rightarrow> ret svc
             | None \<Rightarrow>
                 if isManaged
                 then bindIO (viaAccess (\<lambda>a. CreateLoadBalancerService a clusterName)) (\<lambda>svc.
                      bindIO (modifyIO (\<lambda>(s, b). (s\<lparr>lbServiceID := svc_Id svc\<rparr>, b))) (\<lambda>_.
                      ret svc))
                 else throw (Errorf ''no more virtual servers for load balancer service'' [])) (\<lambda>svc.
     viaAccess (\<lambda>a. UpdateLoadBalancerService a
       (svc\<lparr>svc_VirtualServerIds := svc_VirtualServerIds svc @ [serverID]\<rparr>)))))"

definition removeVirtualServerFromLoadBalancerService ::
  "string \<Rightarrow> string \<Rightarrow> ('s lbService \<times> 's, unit) io" where
  "removeVirtualServerFromLoadBalancerService clusterName serverID =
     bindIO (getsIO (\<lambda>(s, _). managed s)) (\<lambda>isManaged.
     bindIO (viaAccess (\<lambda>a. FindLoadBalancerServiceForVirtualServer a clusterName serverID)) (\<lambda>found.
     case found of
       None \<Rightarrow> ret ()
     | Some svc \<Rightarrow>
         (let ids = (case findIndex (\<lambda>ident. ident = serverID) (svc_VirtualServerIds svc) of
                       Some i \<Rightarrow> removeAt i (svc_VirtualServerIds svc)
                     | None \<Rightarrow> svc_VirtualServerIds svc)
          in if isManaged \<and> length ids = 0
             then viaAccess (\<lambda>a. DeleteLoadBalancerService a (svc_Id svc))
             else viaAccess (\<lambda>a. UpdateLoadBalancerService a (svc\<lparr>svc_VirtualServerIds := ids\<rparr>)))))"

section \<open>Contracts over a backend\<close>

lemma triple_viaAccess [triple_rules]:
  assumes "\<And>l. triple (\<lambda>b. P (l, b)) (f (access l)) (\<lambda>v b. Q v (l, b)) (\<lambda>e b. E e (l, b))"
  shows "triple P (viaAccess f) Q E"
proof (rule tripleI)
  fix s assume "P s"
  then obtain l b where s: "s = (l, b)" "P (l, b)" by (cases s) auto
  from assms s(2) show "post Q E (viaAccess f s)"
    by (cases rule: triple_elim) (auto simp: viaAccess_def s)
qed

text \<open>The load balancer services a virtual server is attached to.\<close>

definition attached :: "nsxt_view \<Rightarrow> string \<Rightarrow> string set" where
  "attached v k = {sid. \<exists>svc. v_services v sid = Some svc \<and> k \<in> set (svc_VirtualServerIds svc)}"

definition add_to :: "nsxt_view \<Rightarrow> string \<Rightarrow> LbService \<Rightarrow> nsxt_view" where
  "add_to v serverID svc =
     v\<lparr>v_services := (v_services v)(svc_Id svc \<mapsto> svc\<lparr>svc_VirtualServerIds := svc_VirtualServerIds svc @ [serverID]\<rparr>)\<rparr>"

lemma findIndex_remove1:
  "(case findIndex (\<lambda>y. y = x) xs of Some i \<Rightarrow> removeAt i xs | None \<Rightarrow> xs) = remove1 x xs"
proof (induction xs)
  case Nil
  then show ?case by simp
next
  case (Cons y ys)
  then show ?case by (auto simp: removeAt_def split: option.splits)
qed

lemma attached_add_to:
  assumes "v_services v (svc_Id svc) = Some svc"
  shows "attached (add_to v serverID svc) k = (if k = serverID then insert (svc_Id svc) (attached v k) else attached v k)"
  using assms by (auto simp: attached_def add_to_def split: if_splits)

lemma attached_services: "v_services v' = v_services v \<Longrightarrow> attached v' = attached v"
  by (simp add: attached_def fun_eq_iff)

text \<open>
  A new service without servers, and the step from the views before to the views after a
  removal: nothing to remove, the last server of a managed service, or one of several.
\<close>

definition with_service :: "nsxt_view \<Rightarrow> LbService \<Rightarrow> nsxt_view" where
  "with_service v svc = v\<lparr>v_services := (v_services v)(svc_Id svc \<mapsto> svc)\<rparr>"

definition removed_from :: "'s lbService \<Rightarrow> nsxt_view \<Rightarrow> string \<Rightarrow> LbService \<Rightarrow> nsxt_view" where
  "removed_from l v serverID svc =
     (let ids = remove1 serverID (svc_VirtualServerIds svc)
      in if managed l \<and> ids = [] then v\<lparr>v_services := (v_services v)(svc_Id svc := None)\<rparr>
         else with_service v (svc\<lparr>svc_VirtualServerIds := ids\<rparr>))"

lemma attached_with_service:
  "v_services v (svc_Id svc) = None \<Longrightarrow> svc_VirtualServerIds svc = [] \<Longrightarrow> attached (with_service v svc) = attached v"
  by (auto simp: attached_def with_service_def fun_eq_iff)

lemma attached_removed_from:
  assumes "v_services v (svc_Id svc) = Some svc" "k \<noteq> serverID"
  shows "attached (removed_from l v serverID svc) k = attached v k"
proof -
  have "k \<in> set (remove1 serverID ids) \<longleftrightarrow> k \<in> set ids" for ids
    using assms(2) by (auto simp: in_set_remove1)
  then have mem: "k \<in> set (remove1 serverID ids) \<longleftrightarrow> k \<in> set ids" "remove1 serverID ids = [] \<Longrightarrow> k \<notin> set ids" for ids
    by (simp, metis list.set(1) empty_iff)
  show ?thesis
  proof (cases "managed l \<and> remove1 serverID (svc_VirtualServerIds svc) = []")
    case True
    with assms(1) mem(2) show ?thesis by (auto simp: attached_def removed_from_def Let_def)
  next
    case False
    then have "removed_from l v serverID svc =
        with_service v (svc\<lparr>svc_VirtualServerIds := remove1 serverID (svc_VirtualServerIds svc)\<rparr>)"
      by (auto simp: removed_from_def Let_def)
    with assms(1) show ?thesis by (auto simp: attached_def with_service_def mem(1) split: if_splits)
  qed
qed

context nsxt_backend
begin

abbreviation atL :: "'s lbService \<Rightarrow> nsxt_view \<Rightarrow> 's lbService \<times> 's \<Rightarrow> bool" where
  "atL l v \<equiv> \<lambda>(l', b). l' = l \<and> at v b"

text \<open>
  A successful addition: the server is in the list of one service, which was there or was
  created. After an error the services are as before, or there is one new service without
  servers, whose id the object has stored.
\<close>

lemma triple_viaAccess_at:
  assumes "triple (at v) (f (access l)) (\<lambda>x b. Q x (l, b)) (\<lambda>e b. E e (l, b))"
  shows "triple (atL l v) (viaAccess f) Q E"
proof (rule triple_viaAccess)
  fix l'
  show "triple (\<lambda>b. case (l', b) of (l', b) \<Rightarrow> l' = l \<and> at v b) (f (access l')) (\<lambda>x b. Q x (l', b)) (\<lambda>e b. E e (l', b))"
    using assms by (cases "l' = l") (auto simp: triple_def)
qed

lemma add_server:
  assumes "broker (access l) = B"
  shows "triple (atL l v) (addVirtualServerToLoadBalancerService cl sid)
    (\<lambda>_ s. (\<exists>svc. v_services v (svc_Id svc) = Some svc \<and> atL l (add_to v sid svc) s) \<or>
       (\<exists>svc. managed l \<and> v_services v (svc_Id svc) = None \<and> svc_VirtualServerIds svc = [] \<and>
          atL (l\<lparr>lbServiceID := svc_Id svc\<rparr>) (add_to (with_service v svc) sid svc) s))
    (\<lambda>_ s. atL l v s \<or>
       (\<exists>svc. managed l \<and> v_services v (svc_Id svc) = None \<and> svc_VirtualServerIds svc = [] \<and>
          atL (l\<lparr>lbServiceID := svc_Id svc\<rparr>) (with_service v svc) s))"
    (is "triple _ _ ?Q ?E")
proof -
  let ?new = "\<lambda>svc s. managed l \<and> v_services v (svc_Id svc) = None \<and> svc_VirtualServerIds svc = [] \<and>
          atL (l\<lparr>lbServiceID := svc_Id svc\<rparr>) (with_service v svc) s"
  let ?old = "\<lambda>svc s. v_services v (svc_Id svc) = Some svc \<and> atL l v s"
  let ?upd = "\<lambda>svc. viaAccess (\<lambda>a. UpdateLoadBalancerService a
       (svc\<lparr>svc_VirtualServerIds := svc_VirtualServerIds svc @ [sid]\<rparr>))"
  let ?create = "bindIO (viaAccess (\<lambda>a. CreateLoadBalancerService a cl)) (\<lambda>svc.
                 bindIO (modifyIO (\<lambda>(s, b). (s\<lparr>lbServiceID := svc_Id svc\<rparr>, b))) (\<lambda>_. ret svc))"
  have find: "triple (atL l v) (viaAccess (\<lambda>a. FindLoadBalancerService a cl (lbServiceID l)))
      (\<lambda>r s. atL l v s \<and> (\<forall>x. r = Some x \<longrightarrow> v_services v (svc_Id x) = Some x)) ?E"
    by (rule triple_viaAccess_at, rule triple_post [OF FindLoadBalancerService_triple [OF assms]]) auto
  have create: "triple (atL l v) ?create ?new ?E" if "managed l"
  proof (rule triple_bind)
    show "triple (atL l v) (viaAccess (\<lambda>a. CreateLoadBalancerService a cl))
      (\<lambda>svc s. v_services v (svc_Id svc) = None \<and> svc_VirtualServerIds svc = [] \<and> atL l (with_service v svc) s) ?E"
      by (rule triple_viaAccess_at, rule triple_post [OF create_lb_service [OF assms]])
        (auto simp: newLbServiceObject_def with_service_def)
    show "triple (\<lambda>s. v_services v (svc_Id svc) = None \<and> svc_VirtualServerIds svc = [] \<and> atL l (with_service v svc) s)
        (bindIO (modifyIO (\<lambda>(s, b). (s\<lparr>lbServiceID := svc_Id svc\<rparr>, b))) (\<lambda>_. ret svc)) ?new ?E" for svc
      using that by (intro tripleI) (auto simp: io_defs)
  qed
  have choose: "triple (\<lambda>s. atL l v s \<and> (\<forall>x. r = Some x \<longrightarrow> v_services v (svc_Id x) = Some x))
      (case r of Some svc \<Rightarrow> ret svc | None \<Rightarrow> if managed l then ?create
         else throw (Errorf ''no more virtual servers for load balancer service'' []))
      (\<lambda>svc s. ?old svc s \<or> ?new svc s) ?E" for r
    by (intro triple_option triple_if triple_ret triple_throw triple_conseq [OF create]) auto
  have upd: "triple (atL l' v') (?upd svc) (\<lambda>_ s. atL l' (add_to v' sid svc) s) (\<lambda>_ s. atL l' v' s)"
    if "broker (access l') = B" for l' v' svc
    using that by (intro triple_viaAccess_at triple_post [OF update_lb_service]) (auto simp: add_to_def)
  have update: "triple (\<lambda>s. ?old svc s \<or> ?new svc s) (?upd svc) ?Q ?E" for svc
  proof (rule tripleI, elim disjE)
    fix s assume "?old svc s"
    with tripleD [OF upd [OF assms], of v s svc] show "post ?Q ?E (?upd svc s)" by (auto elim!: post_mono)
  next
    fix s assume "?new svc s"
    with tripleD [OF upd [of "l\<lparr>lbServiceID := svc_Id svc\<rparr>"], of "with_service v svc" s svc] assms
    show "post ?Q ?E (?upd svc s)" by (auto elim!: post_mono)
  qed
  have "triple (atL l v) (bindIO (viaAccess (\<lambda>a. FindLoadBalancerService a cl (lbServiceID l))) (\<lambda>found.
      bindIO (case found of Some svc \<Rightarrow> ret svc | None \<Rightarrow> if managed l then ?create
         else throw (Errorf ''no more virtual servers for load balancer service'' [])) ?upd)) ?Q ?E"
    by (rule triple_bind [OF find], rule triple_bind [OF choose], rule update)
  then show ?thesis
    unfolding addVirtualServerToLoadBalancerService_def
    by (intro triple_gets_bind [where c = "(lbServiceID l, managed l)"]) auto
qed

text \<open>
  A successful removal takes one occurrence of the server out of a service that has it, or
  changes nothing because none of the usable services has it. An error changes nothing.
\<close>

lemma remove_server:
  assumes "broker (access l) = B"
  shows "triple (atL l v) (removeVirtualServerFromLoadBalancerService cl sid)
    (\<lambda>_ s. (\<exists>svc. v_services v (svc_Id svc) = Some svc \<and> usableService (access l) cl svc \<and>
          sid \<in> set (svc_VirtualServerIds svc) \<and> atL l (removed_from l v sid svc) s) \<or>
       (\<forall>k svc. v_services v k = Some svc \<and> usableService (access l) cl svc \<longrightarrow> sid \<notin> set (svc_VirtualServerIds svc)) \<and>
          atL l v s)
    (\<lambda>_. atL l v)"
    (is "triple _ _ ?Q ?E")
proof -
  let ?has = "\<lambda>svc. sid \<in> set (svc_VirtualServerIds svc)"
  let ?found = "\<lambda>r. case r of
      Some svc \<Rightarrow> v_services v (svc_Id svc) = Some svc \<and> usableService (access l) cl svc \<and> ?has svc
    | None \<Rightarrow> \<forall>k svc. v_services v k = Some svc \<longrightarrow> \<not> (usableService (access l) cl svc \<and> ?has svc)"
  have find: "triple (atL l v) (viaAccess (\<lambda>a. FindLoadBalancerServiceForVirtualServer a cl sid))
      (\<lambda>r s. ?found r \<and> atL l v s) ?E"
    unfolding FindLoadBalancerServiceForVirtualServer_def
    by (rule triple_viaAccess_at, rule triple_post [OF find_lb_service [OF assms]])
      (auto simp: list_ex_iff split: option.splits)
  have act: "triple (atL l v)
      (let ids = remove1 sid (svc_VirtualServerIds svc)
       in if managed l \<and> length ids = 0 then viaAccess (\<lambda>a. DeleteLoadBalancerService a (svc_Id svc))
          else viaAccess (\<lambda>a. UpdateLoadBalancerService a (svc\<lparr>svc_VirtualServerIds := ids\<rparr>)))
      (\<lambda>_. atL l (removed_from l v sid svc)) ?E" for svc
    unfolding Let_def
    by (intro triple_if triple_viaAccess_at triple_post [OF delete_lb_service] triple_post [OF update_lb_service])
      (auto simp: assms removed_from_def with_service_def)
  have "triple (\<lambda>s. ?found r \<and> atL l v s) (case r of None \<Rightarrow> ret ()
     | Some svc \<Rightarrow> let ids = remove1 sid (svc_VirtualServerIds svc)
       in if managed l \<and> length ids = 0 then viaAccess (\<lambda>a. DeleteLoadBalancerService a (svc_Id svc))
          else viaAccess (\<lambda>a. UpdateLoadBalancerService a (svc\<lparr>svc_VirtualServerIds := ids\<rparr>))) ?Q ?E" for r
    by (rule triple_pure_pre, intro triple_option triple_ret triple_post [OF act]) auto
  from triple_bind [OF find this] show ?thesis
    unfolding removeVirtualServerFromLoadBalancerService_def findIndex_remove1
    by (rule triple_gets_bind [rotated]) auto
qed

end

section \<open>Properties\<close>

text \<open>
  C22. Adding a virtual server, on any backend that keeps its contract: after a success the
  server is attached to a load balancer service, every other server is attached to the
  services it was attached to before, and nothing but load balancer services has changed.
\<close>

theorem addVirtualServer_attaches:
  assumes backend: "nsxt_backend B invar view mt" and l: "broker (access l) = B" and b: "invar b"
    and run: "addVirtualServerToLoadBalancerService cl sid (l, b) = (Ok (), (l', b'))"
  shows "attached (view b') sid \<noteq> {} \<and> (\<forall>k. k \<noteq> sid \<longrightarrow> attached (view b') k = attached (view b) k) \<and>
    view b' = (view b)\<lparr>v_services := v_services (view b')\<rparr> \<and> invar b' \<and> access l' = access l \<and> managed l' = managed l"
proof -
  note at = nsxt_backend.at_def [OF backend]
  from triple_OkD [OF nsxt_backend.add_server [OF backend l] _ run, of "view b"] b
  consider (old) svc where "v_services (view b) (svc_Id svc) = Some svc" "l' = l" "invar b'"
      "view b' = add_to (view b) sid svc"
    | (new) svc where "v_services (view b) (svc_Id svc) = None" "svc_VirtualServerIds svc = []"
      "l' = l\<lparr>lbServiceID := svc_Id svc\<rparr>" "invar b'" "view b' = add_to (with_service (view b) svc) sid svc"
    by (auto simp: at)
  then show ?thesis
  proof cases
    case old
    then show ?thesis by (auto simp: attached_add_to) (simp_all add: add_to_def)
  next
    case new
    have "v_services (with_service (view b) svc) (svc_Id svc) = Some svc" by (simp add: with_service_def)
    with new show ?thesis
      by (auto simp: attached_add_to attached_with_service) (simp_all add: add_to_def with_service_def)
  qed
qed

definition example_lb :: "inmem lbService" where
  "example_lb = newLbService example_access ''''"

definition example_backend :: inmem where
  "example_backend = NewInMemoryNsxtBroker [''pool1'']"

lemma example_broker: "broker (access example_lb) = inmemoryNsxtBroker (\<lambda>_ ks. ks)"
  by (simp add: example_lb_def newLbService_def example_access_def NewAccess_def Let_def)

lemma example_backend_inv: "inmem_inv example_backend"
  by (simp add: example_backend_def inmem_init_inv)

lemma example_add: "\<exists>l b. addVirtualServerToLoadBalancerService ''c'' ''server-0'' (example_lb, example_backend) = (Ok (), (l, b))"
proof -
  have "fst (addVirtualServerToLoadBalancerService ''c'' ''server-0'' (example_lb, example_backend)) = Ok ()"
    by code_simp
  then show ?thesis by (cases "addVirtualServerToLoadBalancerService ''c'' ''server-0'' (example_lb, example_backend)") auto
qed

theorem addVirtualServer_attaches_witness:
  "\<exists>l b. addVirtualServerToLoadBalancerService ''c'' ''server-0'' (example_lb, example_backend) = (Ok (), (l, b)) \<and>
     attached (inmem_view b) ''server-0'' \<noteq> {}"
  using example_add addVirtualServer_attaches [OF im.nsxt_backend_axioms example_broker example_backend_inv] by blast

text \<open>
  C23. Removing a virtual server, on any backend that keeps its contract: after a success
  the server is attached to no service, if it was attached only to one, only once, and to
  one the lookup can see (on the configured router, or tagged for owner and cluster); the
  attachments of every other server are as before.
\<close>

theorem removeVirtualServer_detaches:
  assumes backend: "nsxt_backend B invar view mt" and l: "broker (access l) = B" and b: "invar b"
    and run: "removeVirtualServerFromLoadBalancerService cl sid (l, b) = (Ok (), (l', b'))"
    and visible: "\<And>k svc. v_services (view b) k = Some svc \<Longrightarrow> sid \<in> set (svc_VirtualServerIds svc) \<Longrightarrow>
      k = home \<and> usableService (access l) cl svc \<and> distinct (svc_VirtualServerIds svc)"
  shows "attached (view b') sid = {} \<and> (\<forall>k. k \<noteq> sid \<longrightarrow> attached (view b') k = attached (view b) k) \<and>
    view b' = (view b)\<lparr>v_services := v_services (view b')\<rparr> \<and> invar b' \<and> l' = l"
proof -
  note at = nsxt_backend.at_def [OF backend]
  from triple_OkD [OF nsxt_backend.remove_server [OF backend l] _ run, of "view b"] b
  consider (found) svc where "v_services (view b) (svc_Id svc) = Some svc" "sid \<in> set (svc_VirtualServerIds svc)"
      "l' = l" "invar b'" "view b' = removed_from l (view b) sid svc"
    | (absent) "\<forall>k svc. v_services (view b) k = Some svc \<and> usableService (access l) cl svc \<longrightarrow>
        sid \<notin> set (svc_VirtualServerIds svc)" "l' = l" "invar b'" "view b' = view b"
    by (auto simp: at)
  then show ?thesis
  proof cases
    case found
    have home: "svc_Id svc = home" "distinct (svc_VirtualServerIds svc)" using visible [OF found(1,2)] by auto
    have "attached (view b') sid = {}"
      using visible home by (auto simp: found(5) attached_def removed_from_def with_service_def Let_def split: if_splits)
    moreover have "view b' = (view b)\<lparr>v_services := v_services (view b')\<rparr>"
      by (simp add: found(5) removed_from_def with_service_def Let_def)
    moreover have "\<forall>k. k \<noteq> sid \<longrightarrow> attached (view b') k = attached (view b) k"
      by (simp add: found(5) attached_removed_from [OF found(1)])
    ultimately show ?thesis using found(3,4) by blast
  next
    case absent
    with visible have "attached (view b') sid = {}" by (force simp: attached_def)
    with absent show ?thesis by simp
  qed
qed

definition example_one :: "inmem lbService \<times> inmem" where
  "example_one = snd (addVirtualServerToLoadBalancerService ''c'' ''server-0'' (example_lb, example_backend))"

lemma example_one_services:
  "lbServices (snd example_one) =
     [(newLbServiceObject example_access ''c'')\<lparr>svc_Id := ''lbservice-0'', svc_VirtualServerIds := [''server-0'']\<rparr>]"
  by code_simp

lemma example_one_usable:
  "usableService example_access ''c''
     ((newLbServiceObject example_access ''c'')\<lparr>svc_Id := ''lbservice-0'', svc_VirtualServerIds := [''server-0'']\<rparr>)"
  by code_simp

lemma example_one_ok:
  "access (fst example_one) = example_access" "broker (access (fst example_one)) = inmemoryNsxtBroker (\<lambda>_ ks. ks)"
  "inmem_inv (snd example_one)"
proof -
  from example_add obtain l b
    where run: "addVirtualServerToLoadBalancerService ''c'' ''server-0'' (example_lb, example_backend) = (Ok (), (l, b))" by blast
  have "access l = access example_lb \<and> inmem_inv b"
    using triple_OkD [OF im.add_server [OF example_broker] _ run, of "inmem_view example_backend"] example_backend_inv
    by (auto simp: im.at_def)
  then show "access (fst example_one) = example_access" "broker (access (fst example_one)) = inmemoryNsxtBroker (\<lambda>_ ks. ks)"
    "inmem_inv (snd example_one)"
    using example_broker by (simp_all add: example_one_def run) (simp add: example_lb_def newLbService_def)
qed

lemma example_remove: "\<exists>l b. removeVirtualServerFromLoadBalancerService ''c'' ''server-0'' example_one = (Ok (), (l, b))"
proof -
  have "fst (removeVirtualServerFromLoadBalancerService ''c'' ''server-0'' example_one) = Ok ()"
    by code_simp
  then show ?thesis by (cases "removeVirtualServerFromLoadBalancerService ''c'' ''server-0'' example_one") auto
qed

theorem removeVirtualServer_detaches_witness:
  "\<exists>l b. removeVirtualServerFromLoadBalancerService ''c'' ''server-0'' example_one = (Ok (), (l, b)) \<and>
     attached (inmem_view b) ''server-0'' = {}"
proof -
  from example_remove obtain l b
    where run: "removeVirtualServerFromLoadBalancerService ''c'' ''server-0'' (fst example_one, snd example_one) = (Ok (), (l, b))"
    by auto
  have visible: "k = ''lbservice-0'' \<and> usableService (access (fst example_one)) ''c'' svc \<and> distinct (svc_VirtualServerIds svc)"
    if "v_services (inmem_view (snd example_one)) k = Some svc" for k svc
    using that example_one_usable
    by (auto simp: inmem_view_def example_one_services index_by_def example_one_ok(1) split: if_splits)
  have "attached (inmem_view b) ''server-0'' = {}"
    by (rule removeVirtualServer_detaches [OF im.nsxt_backend_axioms example_one_ok(2,3) run, THEN conjunct1]) (rule visible)
  with run show ?thesis by auto
qed

text \<open>
  A managed service that was deleted with its last server leaves its id behind: while
  the stored id names no existing load balancer service, every addition fails and changes
  nothing, so the service is not created again although the object manages it.
\<close>

theorem stale_service_id_blocks_addition:
  assumes backend: "nsxt_backend B invar view mt" and l: "broker (access l) = B" and b: "invar b"
    and stale: "lbServiceID l \<noteq> ''''" "v_services (view b) (lbServiceID l) = None"
  shows "\<exists>e b'. addVirtualServerToLoadBalancerService cl sid (l, b) = (Err e, (l, b')) \<and> invar b' \<and> view b' = view b"
proof -
  have read: "\<exists>e b'. b_ReadLoadBalancerService B (lbServiceID l) b = (Err e, b') \<and> invar b' \<and> view b' = view b"
    using nsxt_backend.read_service [OF backend, of "view b" "lbServiceID l"] b stale(2)
    by (auto elim: triple_elim [of _ _ _ _ b])
  then show ?thesis
    using stale(1) by (auto simp: addVirtualServerToLoadBalancerService_def FindLoadBalancerService_def io_defs l)
qed

definition example_two :: "inmem lbService \<times> inmem" where
  "example_two = snd (removeVirtualServerFromLoadBalancerService ''c'' ''server-0'' example_one)"

theorem stale_service_id_blocks_addition_witness:
  "managed (fst example_two) \<and> lbServices (snd example_two) = [] \<and>
   (\<exists>e b. addVirtualServerToLoadBalancerService ''c'' ''server-1'' (fst example_two, snd example_two) =
      (Err e, (fst example_two, b)))"
proof -
  from example_remove obtain l b
    where run: "removeVirtualServerFromLoadBalancerService ''c'' ''server-0'' (fst example_one, snd example_one) = (Ok (), (l, b))"
    by auto
  have "im.atL (fst example_one) (inmem_view (snd example_one)) (fst example_one, snd example_one)"
    using example_one_ok(3) by (simp add: im.at_def case_prod_beta)
  from triple_OkD [OF im.remove_server [OF example_one_ok(2)] this run]
  have "l = fst example_one \<and> inmem_inv b" by (auto simp: im.at_def)
  then have ok: "broker (access (fst example_two)) = inmemoryNsxtBroker (\<lambda>_ ks. ks)" "inmem_inv (snd example_two)"
    using run example_one_ok(2) by (simp_all add: example_two_def)
  have now: "managed (fst example_two)" "lbServices (snd example_two) = []" "lbServiceID (fst example_two) = ''lbservice-0''"
    by code_simp+
  then have "lbServiceID (fst example_two) \<noteq> ''''" "v_services (inmem_view (snd example_two)) (lbServiceID (fst example_two)) = None"
    by (simp_all add: inmem_view_def index_by_def)
  from stale_service_id_blocks_addition [OF im.nsxt_backend_axioms ok this] now(1,2) show ?thesis by blast
qed

end
