(* ===== verification/LB_State.thy ===== *)
theory LB_State
  imports LB_Service
begin

text \<open>
  The reconciliation of one service (\<open>state.go\<close>): read the objects that belong to the
  service, bring monitor, pool and virtual server of every port up to date, and delete what
  no port needs any more.

  A computation of this theory works on the \<open>state\<close> object, the shared \<open>lbService\<close>
  object it embeds, and the backend. A pointer into one of the lists of the state is the
  index of the element: an operation that changes the object behind a pointer takes the
  old value and returns the new one, and its caller puts it back at the index. After an
  error nobody reads the lists again. Log lines are left out.
\<close>

section \<open>The state of a reconciliation\<close>

record state =
  clusterName :: string
  objectName :: NamespacedName
  service :: Service
  nodes :: "Node list"
  servers :: "LbVirtualServer list"
  pools :: "LbPool list"
  tcpMonitors :: "LbTcpMonitor list"
  ipAddress :: string
  lbClass :: "loadBalancerClass option"

type_synonym 's world = "state \<times> 's lbService \<times> 's"

definition newState :: "string \<Rightarrow> Service \<Rightarrow> Node list \<Rightarrow> state" where
  "newState cluster svc ns =
     \<lparr>clusterName = cluster, objectName = objectNameFromService svc, service = svc, nodes = ns,
      servers = [], pools = [], tcpMonitors = [], ipAddress = '''', lbClass = None\<rparr>"

definition callAccess :: "('s access \<Rightarrow> ('s, 'a) io) \<Rightarrow> ('s world, 'a) io" where
  "callAccess f = onSnd (viaAccess f)"

definition getState :: "('s world, state) io" where
  "getState = getsIO fst"

definition putState :: "(state \<Rightarrow> state) \<Rightarrow> ('s world, unit) io" where
  "putState f = modifyIO (\<lambda>(s, w). (f s, w))"

definition nilClass :: string where
  "nilClass = ''invalid memory address or nil pointer dereference''"

text \<open>\<open>s.class.ipPoolID\<close> and \<open>s.class.Tags()\<close> panic when the class is nil.\<close>

definition classOf :: "('s world, loadBalancerClass) io" where
  "classOf = bindIO getState (\<lambda>s. case lbClass s of None \<Rightarrow> panic nilClass | Some c \<Rightarrow> ret c)"

section \<open>Addresses\<close>

definition allocateResources :: "('s world, bool) io" where
  "allocateResources =
     bindIO getState (\<lambda>s.
     if ipAddress s = '''' then
       bindIO classOf (\<lambda>c.
       bindIO (callAccess (\<lambda>a. AllocateExternalIPAddress a (ipPoolID c))) (\<lambda>address.
       bindIO (putState (\<lambda>s. s\<lparr>ipAddress := address\<rparr>)) (\<lambda>_. ret True)))
     else ret False)"

definition releaseResources :: "('s world, unit) io" where
  "releaseResources =
     bindIO getState (\<lambda>s.
     if ipAddress s \<noteq> '''' then
       bindIO classOf (\<lambda>c.
       bindIO (callAccess (\<lambda>a. IsAllocatedExternalIPAddress a (ipPoolID c) (ipAddress s))) (\<lambda>exists.
       if exists then callAccess (\<lambda>a. ReleaseExternalIPAddress a (ipPoolID c) (ipAddress s)) else ret ()))
     else ret ())"

definition loggedReleaseResources :: "('s world, unit) io" where
  "loggedReleaseResources = bindIO (tryIO releaseResources) (\<lambda>_. ret ())"

section \<open>TCP monitors\<close>

definition ProtocolTCP :: string where "ProtocolTCP = ''TCP''"

definition createTCPMonitor :: "Mapping \<Rightarrow> ('s world, LbTcpMonitor) io" where
  "createTCPMonitor mapping =
     bindIO getState (\<lambda>s.
     bindIO (callAccess (\<lambda>a. CreateTCPMonitor a (clusterName s) (objectName s) mapping)) (\<lambda>monitor.
     bindIO (putState (\<lambda>s. s\<lparr>tcpMonitors := tcpMonitors s @ [monitor]\<rparr>)) (\<lambda>_. ret monitor)))"

definition updateTCPMonitor :: "LbTcpMonitor \<Rightarrow> Mapping \<Rightarrow> ('s world, LbTcpMonitor) io" where
  "updateTCPMonitor monitor mapping =
     (if mon_MonitorPort monitor = showInt (NodePort mapping) then ret monitor
      else let monitor = monitor\<lparr>mon_MonitorPort := showInt (NodePort mapping)\<rparr>
           in bindIO (callAccess (\<lambda>a. UpdateTCPMonitor a monitor)) (\<lambda>_. ret monitor))"

definition deleteTCPMonitor :: "LbTcpMonitor \<Rightarrow> ('s world, unit) io" where
  "deleteTCPMonitor monitor = callAccess (\<lambda>a. DeleteTCPMonitor a (mon_Id monitor))"

definition getTCPMonitor :: "Mapping \<Rightarrow> ('s world, LbTcpMonitor option) io" where
  "getTCPMonitor mapping =
     (if Protocol mapping = ProtocolTCP then
        bindIO getState (\<lambda>s.
        case findIndex (MatchTCPMonitor mapping) (tcpMonitors s) of
          Some i \<Rightarrow>
            bindIO (updateTCPMonitor (tcpMonitors s ! i) mapping) (\<lambda>m.
            bindIO (putState (\<lambda>s. s\<lparr>tcpMonitors := (tcpMonitors s)[i := m]\<rparr>)) (\<lambda>_. ret (Some m)))
        | None \<Rightarrow> bindIO (createTCPMonitor mapping) (\<lambda>m. ret (Some m)))
      else ret None)"

section \<open>Pools\<close>

definition updatedPoolMembers ::
  "('s, string) order \<Rightarrow> 's \<Rightarrow> string \<Rightarrow> Node list \<Rightarrow> PoolMember list \<Rightarrow> PoolMember list \<times> bool" where
  "updatedPoolMembers ord b cluster ns oldMembers =
     (let nodeIPAddresses = collectNodeInternalAddresses ns;
          (newMembers, modified) = fold (\<lambda>member (newMembers, modified).
             if map_of nodeIPAddresses (pm_IpAddress member) \<noteq> None
             then (newMembers @ [member], modified) else (newMembers, True)) oldMembers ([], False)
      in if length nodeIPAddresses > length newMembers
         then fold (\<lambda>(nodeIPAddress, nodeName) (newMembers, modified).
                if list_ex (\<lambda>member. pm_IpAddress member = nodeIPAddress) oldMembers
                then (newMembers, modified)
                else (newMembers @ [\<lparr>pm_AdminState = ''ENABLED'', pm_DisplayName = cluster @ '':'' @ nodeName,
                        pm_IpAddress = nodeIPAddress\<rparr>], True))
              (rangeMap ord b nodeIPAddresses) (newMembers, modified)
         else (newMembers, modified))"

definition updatedMembers ::
  "('s, string) order \<Rightarrow> PoolMember list \<Rightarrow> ('s world, PoolMember list \<times> bool) io" where
  "updatedMembers ord oldMembers =
     getsIO (\<lambda>(s, l, b). updatedPoolMembers ord b (clusterName s) (nodes s) oldMembers)"

definition createPool :: "('s, string) order \<Rightarrow> Mapping \<Rightarrow> string list \<Rightarrow> ('s world, LbPool) io" where
  "createPool ord mapping activeMonitorIds =
     bindIO (updatedMembers ord []) (\<lambda>(members, _).
     bindIO getState (\<lambda>s.
     bindIO (callAccess (\<lambda>a. CreatePool a (clusterName s) (objectName s) mapping members activeMonitorIds)) (\<lambda>pool.
     bindIO (putState (\<lambda>s. s\<lparr>pools := pools s @ [pool]\<rparr>)) (\<lambda>_. ret pool))))"

definition updatePool :: "('s, string) order \<Rightarrow> LbPool \<Rightarrow> Mapping \<Rightarrow> string list \<Rightarrow> ('s world, LbPool) io" where
  "updatePool ord pool mapping activeMonitorIds =
     bindIO (updatedMembers ord (pool_Members pool)) (\<lambda>(newMembers, modified).
     if modified \<or> \<not> stringsEquals activeMonitorIds (pool_ActiveMonitorIds pool)
     then let pool = pool\<lparr>pool_Members := newMembers, pool_ActiveMonitorIds := activeMonitorIds\<rparr>
          in bindIO (callAccess (\<lambda>a. UpdatePool a pool)) (\<lambda>_. ret pool)
     else ret pool)"

definition getPool :: "('s, string) order \<Rightarrow> Mapping \<Rightarrow> LbTcpMonitor option \<Rightarrow> ('s world, LbPool) io" where
  "getPool ord mapping monitor =
     (let activeMonitorIds = (case monitor of None \<Rightarrow> [] | Some m \<Rightarrow> [mon_Id m])
      in bindIO getState (\<lambda>s.
         case findIndex (MatchPool mapping) (pools s) of
           Some i \<Rightarrow>
             bindIO (updatePool ord (pools s ! i) mapping activeMonitorIds) (\<lambda>pool.
             bindIO (putState (\<lambda>s. s\<lparr>pools := (pools s)[i := pool]\<rparr>)) (\<lambda>_. ret pool))
         | None \<Rightarrow> createPool ord mapping activeMonitorIds))"

definition deletePool :: "LbPool \<Rightarrow> ('s world, unit) io" where
  "deletePool pool = callAccess (\<lambda>a. DeletePool a (pool_Id pool))"

text \<open>
  The two nested loops of \<open>UpdatePoolMembers\<close> work on a local list of pools, which the
  outer loop carries along.
\<close>

definition UpdatePoolMembers :: "('s, string) order \<Rightarrow> ('s world, unit) io" where
  "UpdatePoolMembers ord =
     bindIO getState (\<lambda>s.
     bindIO (callAccess (\<lambda>a. FindPools a (clusterName s) (objectName s))) (\<lambda>found.
     bindIO (foldIO (\<lambda>found servicePort.
               foldIO (\<lambda>found i.
                 if MatchPool (NewMapping servicePort) (found ! i)
                 then bindIO (updatePool ord (found ! i) (NewMapping servicePort) (pool_ActiveMonitorIds (found ! i)))
                        (\<lambda>pool. ret (found[i := pool]))
                 else ret found) found [0..<length found])
             found (s_Ports (service s))) (\<lambda>_.
     ret ())))"

section \<open>Virtual servers\<close>

definition updateVirtualServer :: "LbVirtualServer \<Rightarrow> Mapping \<Rightarrow> string \<Rightarrow> ('s world, LbVirtualServer) io" where
  "updateVirtualServer server mapping poolID =
     (if \<not> MatchNodePort mapping server \<or> poolID \<noteq> vs_PoolId server
      then let server = server\<lparr>vs_DefaultPoolMemberPort := formatPort (NodePort mapping), vs_PoolId := poolID\<rparr>
           in bindIO (callAccess (\<lambda>a. UpdateVirtualServer a server)) (\<lambda>_. ret server)
      else ret server)"

definition createVirtualServer :: "Mapping \<Rightarrow> string \<Rightarrow> ('s world, LbVirtualServer) io" where
  "createVirtualServer mapping poolID =
     bindIO allocateResources (\<lambda>allocated.
     bindIO getState (\<lambda>s.
     bindIO classOf (\<lambda>c.
     bindIO (tryIO (callAccess (\<lambda>a. CreateVirtualServer a (clusterName s) (objectName s) (class_Tags c)
                                  (ipAddress s) mapping poolID))) (\<lambda>created.
     case created of
       Inl err \<Rightarrow>
         bindIO (if allocated then loggedReleaseResources else ret ()) (\<lambda>_. throw err)
     | Inr server \<Rightarrow>
         bindIO (putState (\<lambda>s. s\<lparr>servers := servers s @ [server]\<rparr>)) (\<lambda>_.
         bindIO (tryIO (onSnd (addVirtualServerToLoadBalancerService (clusterName s) (vs_Id server)))) (\<lambda>added.
         case added of
           Inl err \<Rightarrow>
             bindIO (tryIO (callAccess (\<lambda>a. DeleteVirtualServer a (vs_Id server)))) (\<lambda>_.
             bindIO (if allocated then loggedReleaseResources else ret ()) (\<lambda>_. throw err))
         | Inr _ \<Rightarrow> ret server))))))"

definition getVirtualServer :: "Mapping \<Rightarrow> string \<Rightarrow> ('s world, LbVirtualServer) io" where
  "getVirtualServer mapping poolID =
     bindIO getState (\<lambda>s.
     case findIndex (MatchVirtualServer mapping) (servers s) of
       Some i \<Rightarrow>
         bindIO (updateVirtualServer (servers s ! i) mapping poolID) (\<lambda>server.
         bindIO (putState (\<lambda>s. s\<lparr>servers := (servers s)[i := server]\<rparr>)) (\<lambda>_. ret server))
     | None \<Rightarrow> createVirtualServer mapping poolID)"

definition deleteVirtualServer :: "LbVirtualServer \<Rightarrow> ('s world, unit) io" where
  "deleteVirtualServer server =
     bindIO getState (\<lambda>s.
     bindIO (onSnd (removeVirtualServerFromLoadBalancerService (clusterName s) (vs_Id server))) (\<lambda>_.
     callAccess (\<lambda>a. DeleteVirtualServer a (vs_Id server))))"

section \<open>Cleanup\<close>

definition deleteOrphanVirtualServers :: "('s world, string set) io" where
  "deleteOrphanVirtualServers =
     bindIO getState (\<lambda>s.
     foldIO (\<lambda>validPoolIds server.
       if list_ex (\<lambda>servicePort. MatchVirtualServer (NewMapping servicePort) server) (s_Ports (service s))
       then ret (insert (vs_PoolId server) validPoolIds)
       else bindIO (deleteVirtualServer server) (\<lambda>_. ret validPoolIds)) {} (servers s))"

definition deleteOrphanPools :: "string set \<Rightarrow> ('s world, string set) io" where
  "deleteOrphanPools validPoolIds =
     bindIO getState (\<lambda>s.
     foldIO (\<lambda>validTCPMonitorIds pool.
       if list_ex (\<lambda>servicePort. MatchPool (NewMapping servicePort) pool \<and> pool_Id pool \<in> validPoolIds)
            (s_Ports (service s))
       then ret (validTCPMonitorIds \<union> set (pool_ActiveMonitorIds pool))
       else bindIO (deletePool pool) (\<lambda>_. ret validTCPMonitorIds)) {} (pools s))"

definition deleteOrphanTCPMonitors :: "string set \<Rightarrow> ('s world, unit) io" where
  "deleteOrphanTCPMonitors validTCPMonitorIds =
     bindIO getState (\<lambda>s.
     forIO (\<lambda>monitor.
       if list_ex (\<lambda>servicePort. MatchTCPMonitor (NewMapping servicePort) monitor \<and>
            mon_Id monitor \<in> validTCPMonitorIds) (s_Ports (service s))
       then ret ()
       else deleteTCPMonitor monitor) (tcpMonitors s))"

section \<open>Process and Finish\<close>

definition findObjects :: "('s world, unit) io" where
  "findObjects =
     bindIO getState (\<lambda>s.
     bindIO (callAccess (\<lambda>a. FindVirtualServers a (clusterName s) (objectName s))) (\<lambda>found.
     bindIO (putState (\<lambda>s. s\<lparr>servers := found\<rparr>)) (\<lambda>_.
     bindIO (callAccess (\<lambda>a. FindPools a (clusterName s) (objectName s))) (\<lambda>found.
     bindIO (putState (\<lambda>s. s\<lparr>pools := found\<rparr>)) (\<lambda>_.
     bindIO (callAccess (\<lambda>a. FindTCPMonitors a (clusterName s) (objectName s))) (\<lambda>found.
     putState (\<lambda>s. s\<lparr>tcpMonitors := found\<rparr>)))))))"

text \<open>The address and the class: those of an existing server take precedence.\<close>

definition adoptClass :: "loadBalancerClass \<Rightarrow> state \<Rightarrow> state" where
  "adoptClass c s =
     (let address = (case s_Ingress (service s) of [] \<Rightarrow> ipAddress s | ip # _ \<Rightarrow> ip)
      in case servers s of
           [] \<Rightarrow> s\<lparr>ipAddress := address, lbClass := Some c\<rparr>
         | server # _ \<Rightarrow>
             (let name = getTag (vs_Tags server) ScopeLBClass;
                  poolID = getTag (vs_Tags server) ScopeIPPoolID
              in s\<lparr>ipAddress := vs_IpAddress server,
                   lbClass := Some (if className c \<noteq> name \<or> ipPoolID c \<noteq> poolID
                                    then newLBClass name poolID '''' else c)\<rparr>))"

definition processPort :: "('s, string) order \<Rightarrow> ServicePort \<Rightarrow> ('s world, unit) io" where
  "processPort ord servicePort =
     (let mapping = NewMapping servicePort
      in bindIO (getTCPMonitor mapping) (\<lambda>monitor.
         bindIO (getPool ord mapping monitor) (\<lambda>pool.
         bindIO (getVirtualServer mapping (pool_Id pool)) (\<lambda>_. ret ()))))"

definition Process :: "('s, string) order \<Rightarrow> loadBalancerClass \<Rightarrow> ('s world, unit) io" where
  "Process ord c =
     bindIO findObjects (\<lambda>_.
     bindIO (putState (adoptClass c)) (\<lambda>_.
     bindIO getState (\<lambda>s.
     bindIO (forIO (processPort ord) (s_Ports (service s))) (\<lambda>_.
     bindIO deleteOrphanVirtualServers (\<lambda>validPoolIds.
     bindIO (deleteOrphanPools validPoolIds) (\<lambda>validTCPMonitorIds.
     deleteOrphanTCPMonitors validTCPMonitorIds))))))"

definition newLoadBalancerStatus :: "string \<Rightarrow> LoadBalancerStatus" where
  "newLoadBalancerStatus address = \<lparr>Ingress = [address]\<rparr>"

definition Finish :: "('s world, LoadBalancerStatus option) io" where
  "Finish =
     bindIO getState (\<lambda>s.
     if length (s_Ports (service s)) = 0
     then bindIO releaseResources (\<lambda>_. ret None)
     else ret (Some (newLoadBalancerStatus (ipAddress s))))"

section \<open>Pool members\<close>

lemma members_kept:
  "fold (\<lambda>member (newMembers, modified).
     if map_of m (pm_IpAddress member) \<noteq> None
     then (newMembers @ [member], modified) else (newMembers, True)) old (acc, modified) =
   (acc @ filter (\<lambda>x. pm_IpAddress x \<in> fst ` set m) old,
    modified \<or> \<not> pm_IpAddress ` set old \<subseteq> fst ` set m)"
proof (induction old arbitrary: acc modified)
  case Nil
  then show ?case by simp
next
  case (Cons x old)
  then show ?case by (auto simp: map_of_eq_None_iff)
qed

definition newMember :: "string \<Rightarrow> string \<times> string \<Rightarrow> PoolMember" where
  "newMember cluster = (\<lambda>(address, name). \<lparr>pm_AdminState = ''ENABLED'',
     pm_DisplayName = cluster @ '':'' @ name, pm_IpAddress = address\<rparr>)"

lemma pm_IpAddress_newMember [simp]: "pm_IpAddress (newMember cluster e) = fst e"
  by (simp add: newMember_def split: prod.split)

lemma members_added:
  "fold (\<lambda>(nodeIPAddress, nodeName) (newMembers, modified).
     if list_ex (\<lambda>member. pm_IpAddress member = nodeIPAddress) old
     then (newMembers, modified)
     else (newMembers @ [\<lparr>pm_AdminState = ''ENABLED'', pm_DisplayName = cluster @ '':'' @ nodeName,
             pm_IpAddress = nodeIPAddress\<rparr>], True)) entries (acc, modified) =
   (acc @ map (newMember cluster) (filter (\<lambda>e. fst e \<notin> pm_IpAddress ` set old) entries),
    modified \<or> \<not> fst ` set entries \<subseteq> pm_IpAddress ` set old)"
proof (induction entries arbitrary: acc modified)
  case Nil
  then show ?case by simp
next
  case (Cons e entries)
  have "list_ex (\<lambda>member. pm_IpAddress member = a) old \<longleftrightarrow> a \<in> pm_IpAddress ` set old" for a
    by (auto simp: list_ex_iff)
  with Cons show ?case by (cases e) (auto simp: newMember_def)
qed

definition nodeAddresses :: "Node list \<Rightarrow> string set" where
  "nodeAddresses ns = {a. \<exists>n \<in> set ns. internalAddress n = Some a}"

lemma updatedPoolMembers_eq:
  "updatedPoolMembers ord b cluster ns old =
     (let m = collectNodeInternalAddresses ns;
          kept = filter (\<lambda>x. pm_IpAddress x \<in> nodeAddresses ns) old;
          new = map (newMember cluster) (filter (\<lambda>e. fst e \<notin> pm_IpAddress ` set old) (rangeMap ord b m));
          gone = (\<not> pm_IpAddress ` set old \<subseteq> nodeAddresses ns)
      in if length m > length kept then (kept @ new, gone \<or> \<not> nodeAddresses ns \<subseteq> pm_IpAddress ` set old)
         else (kept, gone))"
  by (simp add: updatedPoolMembers_def members_kept members_added collect_keys [folded nodeAddresses_def] Let_def
      set_rangeMap [OF collect_distinct] del: not_None_eq)

lemma kept_complete:
  assumes "distinct (map pm_IpAddress old)" "\<not> length (collectNodeInternalAddresses ns) > length (filter (\<lambda>x. pm_IpAddress x \<in> nodeAddresses ns) old)"
  shows "nodeAddresses ns \<subseteq> pm_IpAddress ` set old"
proof -
  let ?kept = "filter (\<lambda>x. pm_IpAddress x \<in> nodeAddresses ns) old"
  have A: "card (nodeAddresses ns) = length (collectNodeInternalAddresses ns)" "finite (nodeAddresses ns)"
    using distinct_card [OF collect_distinct [of ns]] by (simp_all add: nodeAddresses_def flip: collect_keys)
  have "distinct (map pm_IpAddress ?kept)" using assms(1) by (rule distinct_map_filter)
  then have "card (pm_IpAddress ` set ?kept) = length ?kept" by (metis distinct_card length_map set_map)
  moreover have "pm_IpAddress ` set ?kept \<subseteq> nodeAddresses ns" by auto
  ultimately have "pm_IpAddress ` set ?kept = nodeAddresses ns"
    using A assms(2) by (intro card_subset_eq) (auto dest: card_mono)
  then show ?thesis by auto
qed

lemma updatedPoolMembers_spec:
  assumes "distinct (map pm_IpAddress old)" "updatedPoolMembers ord b cluster ns old = (new, modified)"
  shows "pm_IpAddress ` set new = nodeAddresses ns" "distinct (map pm_IpAddress new)"
    "modified \<longleftrightarrow> pm_IpAddress ` set old \<noteq> nodeAddresses ns" "\<not> modified \<Longrightarrow> new = old"
proof -
  let ?m = "collectNodeInternalAddresses ns"
  let ?kept = "filter (\<lambda>x. pm_IpAddress x \<in> nodeAddresses ns) old"
  let ?new = "map (newMember cluster) (filter (\<lambda>e. fst e \<notin> pm_IpAddress ` set old) (rangeMap ord b ?m))"
  have keys: "fst ` set (rangeMap ord b ?m) = nodeAddresses ns"
    by (simp add: set_rangeMap [OF collect_distinct] collect_keys nodeAddresses_def)
  have added: "pm_IpAddress ` set ?new = nodeAddresses ns - pm_IpAddress ` set old"
    unfolding keys [symmetric] by force
  have dist: "distinct (map pm_IpAddress (?kept @ ?new))"
  proof -
    have "map pm_IpAddress ?new = filter (\<lambda>a. a \<notin> pm_IpAddress ` set old) (map fst (rangeMap ord b ?m))"
      by (simp add: filter_map comp_def del: map_fst_rangeMap)
    with assms(1) show ?thesis
      by (auto simp: collect_distinct distinct_map_filter simp del: map_map)
  qed
  have kept: "pm_IpAddress ` set ?kept = pm_IpAddress ` set old \<inter> nodeAddresses ns" by auto
  have all: "?kept = old" if "pm_IpAddress ` set old \<subseteq> nodeAddresses ns" using that by (auto intro: filter_True)
  have none: "?new = []" if "nodeAddresses ns \<subseteq> pm_IpAddress ` set old"
    using that added by (metis Diff_eq_empty_iff image_is_empty set_empty)
  have eq: "new = ?kept @ ?new \<and> (modified \<longleftrightarrow> pm_IpAddress ` set old \<noteq> nodeAddresses ns)"
  proof (cases "length ?m > length ?kept")
    case True
    with assms(2) show ?thesis unfolding updatedPoolMembers_eq Let_def by auto
  next
    case False
    with assms(2) have "new = ?kept" "modified \<longleftrightarrow> \<not> pm_IpAddress ` set old \<subseteq> nodeAddresses ns"
      unfolding updatedPoolMembers_eq Let_def by auto
    with kept_complete [OF assms(1) False] none show ?thesis by (simp add: set_eq_subset)
  qed
  then show "modified \<longleftrightarrow> pm_IpAddress ` set old \<noteq> nodeAddresses ns" by blast
  show "distinct (map pm_IpAddress new)" using eq dist by simp
  have "pm_IpAddress ` set new = pm_IpAddress ` set ?kept \<union> pm_IpAddress ` set ?new"
    using eq by (simp only: set_append image_Un)
  then show "pm_IpAddress ` set new = nodeAddresses ns" unfolding added kept by blast
  show "new = old" if "\<not> modified" using that eq all none by simp
qed

section \<open>Properties of the members\<close>

lemma updatedPoolMembers_kept:
  assumes "distinct (map pm_IpAddress old)" "updatedPoolMembers ord b cluster ns old = (new, modified)"
    and "x \<in> set old" "pm_IpAddress x \<in> nodeAddresses ns"
  shows "x \<in> set new"
proof -
  have "x \<in> set (filter (\<lambda>x. pm_IpAddress x \<in> nodeAddresses ns) old)" using assms(3,4) by simp
  with assms(2) show ?thesis unfolding updatedPoolMembers_eq Let_def by (auto split: if_splits)
qed

text \<open>
  C21. The new members of a pool: exactly the internal addresses of the nodes, each once; a member
  whose node still exists is kept as it is; the update is reported exactly when the addresses
  differ; and computing the members again changes nothing, in whatever order the maps are
  visited.
\<close>

theorem updatedPoolMembers_correct:
  assumes "distinct (map pm_IpAddress old)" "updatedPoolMembers ord b cluster ns old = (new, modified)"
  shows "pm_IpAddress ` set new = nodeAddresses ns \<and> distinct (map pm_IpAddress new) \<and>
    (\<forall>x \<in> set old. pm_IpAddress x \<in> nodeAddresses ns \<longrightarrow> x \<in> set new) \<and>
    (modified \<longleftrightarrow> pm_IpAddress ` set old \<noteq> nodeAddresses ns) \<and> (\<not> modified \<longrightarrow> new = old) \<and>
    updatedPoolMembers ord' b' cluster' ns new = (new, False)"
proof -
  note spec = updatedPoolMembers_spec [OF assms]
  obtain new' modified' where again: "updatedPoolMembers ord' b' cluster' ns new = (new', modified')" by fastforce
  have "\<not> modified'" using updatedPoolMembers_spec(3) [OF spec(2) again] spec(1) by simp
  with updatedPoolMembers_spec(4) [OF spec(2) again] again have "updatedPoolMembers ord' b' cluster' ns new = (new, False)" by simp
  then show ?thesis by (intro conjI ballI impI spec) (erule (1) updatedPoolMembers_kept [OF assms])
qed

definition example_members :: "PoolMember list" where
  "example_members = [\<lparr>pm_AdminState = ''ENABLED'', pm_DisplayName = ''c:n1'', pm_IpAddress = ''10.0.0.1''\<rparr>,
     \<lparr>pm_AdminState = ''DISABLED'', pm_DisplayName = ''c:n2'', pm_IpAddress = ''10.0.0.2''\<rparr>]"

definition example_cluster :: "Node list" where
  "example_cluster = [\<lparr>n_Name = ''n2'', n_Addresses = [\<lparr>addr_Type = ''InternalIP'', addr_Address = ''10.0.0.2''\<rparr>]\<rparr>,
     \<lparr>n_Name = ''n3'', n_Addresses = [\<lparr>addr_Type = ''ExternalIP'', addr_Address = ''1.2.3.4''\<rparr>,
        \<lparr>addr_Type = ''InternalIP'', addr_Address = ''10.0.0.3''\<rparr>]\<rparr>]"

lemma example_members_new:
  "updatedPoolMembers (\<lambda>_ ks. ks) () ''c'' example_cluster example_members =
     ([\<lparr>pm_AdminState = ''DISABLED'', pm_DisplayName = ''c:n2'', pm_IpAddress = ''10.0.0.2''\<rparr>,
       \<lparr>pm_AdminState = ''ENABLED'', pm_DisplayName = ''c:n3'', pm_IpAddress = ''10.0.0.3''\<rparr>], True)"
  by code_simp

theorem updatedPoolMembers_correct_witness:
  "nodeAddresses example_cluster = {''10.0.0.2'', ''10.0.0.3''}"
proof -
  have "distinct (map pm_IpAddress example_members)" by code_simp
  from updatedPoolMembers_correct [OF this example_members_new, of "\<lambda>_ ks. ks" "()" "''c''"] show ?thesis by simp
qed

text \<open>
  Without distinct members the shortcut on the lengths loses nodes: a pool that has one node
  twice does not get the other node.
\<close>

theorem duplicate_members_hide_nodes:
  "updatedPoolMembers (\<lambda>_ ks. ks) () ''c'' example_cluster
     [\<lparr>pm_AdminState = ''ENABLED'', pm_DisplayName = ''a'', pm_IpAddress = ''10.0.0.2''\<rparr>,
      \<lparr>pm_AdminState = ''ENABLED'', pm_DisplayName = ''b'', pm_IpAddress = ''10.0.0.2''\<rparr>] =
   ([\<lparr>pm_AdminState = ''ENABLED'', pm_DisplayName = ''a'', pm_IpAddress = ''10.0.0.2''\<rparr>,
     \<lparr>pm_AdminState = ''ENABLED'', pm_DisplayName = ''b'', pm_IpAddress = ''10.0.0.2''\<rparr>], False)"
  by code_simp

end
