(* ===== verification/Reconcile_View.thy ===== *)
theory Reconcile_View
  imports LB_State
begin

text \<open>
  What a reconciliation does to the backend, for every backend that keeps the contract of
  \<open>nsxt_backend\<close> and for every outcome: which objects it leaves alone, what holds after a
  success, and that it never panics. The lists of the state mirror the objects of the
  service in the backend; every operation is a step on both.
\<close>

section \<open>Mirrored lists\<close>

text \<open>
  The list has only own objects of the backend, as they are there, and all of those that
  the lookup selects.
\<close>

definition mirrors :: "('a \<Rightarrow> 'k) \<Rightarrow> ('a \<Rightarrow> bool) \<Rightarrow> ('a \<Rightarrow> bool) \<Rightarrow> 'a list \<Rightarrow> ('k \<rightharpoonup> 'a) \<Rightarrow> bool" where
  "mirrors key own sel xs m \<longleftrightarrow> distinct (map key xs) \<and> (\<forall>x \<in> set xs. m (key x) = Some x \<and> own x) \<and>
     (\<forall>k x. m k = Some x \<and> own x \<and> sel x \<longrightarrow> x \<in> set xs \<and> key x = k)"

text \<open>The effect of \<open>get<object>(mapping)\<close>: the first match is replaced, or a new object appended.\<close>

definition upsert ::
  "('a \<Rightarrow> 'k) \<Rightarrow> ('a \<Rightarrow> bool) \<Rightarrow> ('a \<Rightarrow> bool) \<Rightarrow> 'a list \<Rightarrow> ('k \<rightharpoonup> 'a) \<Rightarrow> 'a \<Rightarrow> 'a list \<Rightarrow> ('k \<rightharpoonup> 'a) \<Rightarrow> bool" where
  "upsert key own matches xs m r xs' m' \<longleftrightarrow>
     m' = m(key r \<mapsto> r) \<and> own r \<and> matches r \<and>
     ((\<exists>i < length xs. matches (xs ! i) \<and> key r = key (xs ! i) \<and> xs' = xs[i := r]) \<or>
      m (key r) = None \<and> (\<forall>x \<in> set xs. \<not> matches x) \<and> xs' = xs @ [r])"

lemma upsert_updateI:
  "i < length xs \<Longrightarrow> matches (xs ! i) \<Longrightarrow> key r = key (xs ! i) \<Longrightarrow> own r \<Longrightarrow> matches r \<Longrightarrow>
   xs' = xs[i := r] \<Longrightarrow> m' = m(key r \<mapsto> r) \<Longrightarrow> upsert key own matches xs m r xs' m'"
  by (auto simp: upsert_def)

lemma upsert_snocI:
  "m (key r) = None \<Longrightarrow> findIndex matches xs = None \<Longrightarrow> own r \<Longrightarrow> matches r \<Longrightarrow> xs' = xs @ [r] \<Longrightarrow> m' = m(key r \<mapsto> r) \<Longrightarrow>
   upsert key own matches xs m r xs' m'"
  by (simp add: upsert_def findIndex_None)

lemma mirrors_lists: "lists key xs (restrictBy (\<lambda>x. own x \<and> sel x) m) \<Longrightarrow> mirrors key own sel xs m"
  by (auto simp: mirrors_def lists_def)

lemma mirrors_view: "mirrors key own sel xs m \<Longrightarrow> x \<in> set xs \<Longrightarrow> m (key x) = Some x \<and> own x"
  by (simp add: mirrors_def)

lemma mirrors_complete: "mirrors key own sel xs m \<Longrightarrow> m k = Some x \<Longrightarrow> own x \<Longrightarrow> sel x \<Longrightarrow> x \<in> set xs \<and> key x = k"
  by (simp add: mirrors_def)

lemma mirrors_snoc:
  assumes "mirrors key own sel xs m" "m (key x) = None" "own x"
  shows "mirrors key own sel (xs @ [x]) (m(key x \<mapsto> x))"
proof -
  have "\<forall>y \<in> set xs. key y \<noteq> key x" using assms(1,2) by (auto simp: mirrors_def)
  with assms show ?thesis by (auto simp: mirrors_def)
qed

lemma set_update_key:
  assumes "distinct (map key xs)" "i < length xs" "key x = key (xs ! i)"
  shows "set (xs[i := x]) = insert x {y \<in> set xs. key y \<noteq> key x}"
proof -
  have "set (xs[i := x]) = insert x (set xs - {xs ! i})"
    using assms(1,2) by (intro set_update_distinct) (auto simp: distinct_map)
  moreover have "y = xs ! i" if "y \<in> set xs" "key y = key x" for y
    using that assms by (metis distinct_map inj_onD nth_mem)
  ultimately show ?thesis using assms(2,3) by auto
qed

lemma mirrors_update:
  assumes "mirrors key own sel xs m" "i < length xs" "key x = key (xs ! i)" "own x"
  shows "mirrors key own sel (xs[i := x]) (m(key x \<mapsto> x))"
proof -
  have d: "distinct (map key xs)" using assms(1) by (simp add: mirrors_def)
  then have "distinct (map key (xs[i := x]))"
    using assms(2,3) by (metis list_update_id map_update nth_map)
  with assms set_update_key [OF d assms(2,3)] show ?thesis by (auto simp: mirrors_def)
qed

lemma upsert_mirrors:
  assumes "upsert key own matches xs m r xs' m'" "mirrors key own sel xs m"
  shows "mirrors key own sel xs' m'"
  using assms mirrors_snoc [of key own sel xs m r] mirrors_update [of key own sel xs m _ r]
  by (auto simp: upsert_def)

lemma upsert_set:
  assumes "upsert key own matches xs m r xs' m'" "mirrors key own sel xs m"
  shows "set xs' = insert r {x \<in> set xs. key x \<noteq> key r}"
proof -
  have "{x \<in> set xs. key x \<noteq> key r} = set xs" if "m (key r) = None"
    using that assms(2) by (auto simp: mirrors_def)
  moreover have "distinct (map key xs)" using assms(2) by (simp add: mirrors_def)
  ultimately show ?thesis using assms(1) set_update_key [of key xs _ r] by (auto simp: upsert_def)
qed

lemma upsert_other:
  assumes "upsert key own matches xs m r xs' m'" "mirrors key own sel xs m" "x \<in> set xs" "\<not> matches x"
  shows "x \<in> set xs'"
proof -
  have "key x \<noteq> key r"
  proof
    assume eq: "key x = key r"
    with mirrors_view [OF assms(2,3)] have "m (key r) = Some x" by simp
    with assms(1) obtain i where i: "i < length xs" "matches (xs ! i)" "key r = key (xs ! i)"
      by (auto simp: upsert_def)
    with eq assms(2,3) have "x = xs ! i" by (auto simp: mirrors_def distinct_map inj_on_def)
    with i assms(4) show False by simp
  qed
  with assms(3) upsert_set [OF assms(1,2)] show ?thesis by auto
qed

text \<open>At most one element has a property; an upsert keeps it so.\<close>

definition sole :: "('a \<Rightarrow> bool) \<Rightarrow> 'a set \<Rightarrow> bool" where
  "sole P A \<longleftrightarrow> (\<forall>x \<in> A. \<forall>y \<in> A. P x \<and> P y \<longrightarrow> x = y)"

lemma sole_empty [simp]: "sole P {}"
  by (simp add: sole_def)

lemma sole_subset: "sole P A \<Longrightarrow> B \<subseteq> A \<Longrightarrow> sole P B"
  unfolding sole_def by blast

lemma upsert_sole:
  assumes up: "upsert key own matches xs m r xs' m'" "mirrors key own sel xs m" and xs: "sole P (set xs)"
    and P: "P = matches \<or> (\<forall>x. \<not> (P x \<and> matches x))"
  shows "sole P (set xs')"
proof -
  have "\<not> P r" if "\<forall>x. \<not> (P x \<and> matches x)" using that up(1) unfolding upsert_def by blast
  moreover have "key x = key r" if eq: "P = matches" and x: "x \<in> set xs" "P x" for x
  proof -
    from up(1) x have "\<exists>i < length xs. P (xs ! i) \<and> key r = key (xs ! i)" unfolding upsert_def eq by blast
    then obtain y where "y \<in> set xs" "P y" "key r = key y" using nth_mem by blast
    with xs x show ?thesis unfolding sole_def by metis
  qed
  ultimately have "sole P (insert r {x \<in> set xs. key x \<noteq> key r})"
    using xs P unfolding sole_def by blast
  then show ?thesis by (simp only: upsert_set [OF up])
qed

lemma restrictBy_upd:
  assumes "\<And>x. m k = Some x \<Longrightarrow> \<not> P x" "\<And>x. y = Some x \<Longrightarrow> \<not> P x"
  shows "restrictBy P (m(k := y)) = restrictBy P m"
  using assms by (auto simp: restrictBy_def fun_eq_iff split: option.splits)

lemma upsert_foreign:
  assumes "upsert key own matches xs m r xs' m'" "mirrors key own sel xs m"
  shows "restrictBy (\<lambda>x. \<not> own x) m' = restrictBy (\<lambda>x. \<not> own x) m"
proof -
  have "own x" if "m (key r) = Some x" for x
    using that assms by (auto simp: upsert_def mirrors_def)
  with assms(1) show ?thesis by (auto simp: upsert_def intro!: restrictBy_upd)
qed

text \<open>The view of one kind after the objects \<open>ys\<close> with a property were deleted.\<close>

definition without :: "('a \<Rightarrow> 'k) \<Rightarrow> 'a set \<Rightarrow> ('k \<rightharpoonup> 'a) \<Rightarrow> ('k \<rightharpoonup> 'a)" where
  "without key X m = (\<lambda>k. if k \<in> key ` X then None else m k)"

lemma without_empty [simp]: "without key {} m = m"
  by (simp add: without_def)

lemma without_insert: "without key (insert x X) m = (without key X m)(key x := None)"
  by (auto simp: without_def fun_eq_iff)

lemma without_foreign:
  assumes "mirrors key own sel xs m" "X \<subseteq> set xs"
  shows "restrictBy (\<lambda>x. \<not> own x) (without key X m) = restrictBy (\<lambda>x. \<not> own x) m"
proof
  fix k
  have "own x" if "m k = Some x" "k \<in> key ` X" for x
    using that assms by (auto simp: mirrors_def)
  then show "restrictBy (\<lambda>x. \<not> own x) (without key X m) k = restrictBy (\<lambda>x. \<not> own x) m k"
    by (auto simp: restrictBy_def without_def split: option.split)
qed

lemma without_Some:
  assumes "mirrors key own sel xs m" "X \<subseteq> set xs" "x \<in> set xs"
  shows "without key X m (key x) = (if x \<in> X then None else Some x)"
proof -
  have "key x \<in> key ` X \<longleftrightarrow> x \<in> X"
    using assms by (auto simp: mirrors_def distinct_map inj_on_def)
  with assms show ?thesis by (simp add: without_def mirrors_def)
qed

lemma without_own:
  assumes "mirrors key own sel xs m" "without key X m k = Some x" "own x" "sel x"
  shows "x \<in> set xs \<and> x \<notin> X \<and> key x = k"
  using assms by (auto simp: without_def mirrors_def split: if_splits)

section \<open>What a reconciliation leaves alone\<close>

text \<open>
  Objects that do not carry the tags of owner, cluster and service are as before, and the
  virtual servers among them are attached to the same load balancer services.
\<close>

definition others_kept :: "tag list \<Rightarrow> nsxt_view \<Rightarrow> nsxt_view \<Rightarrow> bool" where
  "others_kept T v v' \<longleftrightarrow>
     restrictBy (\<lambda>x. \<not> checkTags (vs_Tags x) T) (v_servers v') = restrictBy (\<lambda>x. \<not> checkTags (vs_Tags x) T) (v_servers v) \<and>
     restrictBy (\<lambda>x. \<not> checkTags (pool_Tags x) T) (v_pools v') = restrictBy (\<lambda>x. \<not> checkTags (pool_Tags x) T) (v_pools v) \<and>
     restrictBy (\<lambda>x. \<not> checkTags (mon_Tags x) T) (v_monitors v') = restrictBy (\<lambda>x. \<not> checkTags (mon_Tags x) T) (v_monitors v) \<and>
     (\<forall>k x. v_servers v k = Some x \<and> \<not> checkTags (vs_Tags x) T \<longrightarrow> attached v' k = attached v k)"

text \<open>Addresses that are allocated stay allocated.\<close>

definition addresses_kept :: "nsxt_view \<Rightarrow> nsxt_view \<Rightarrow> bool" where
  "addresses_kept v v' \<longleftrightarrow> (\<forall>p as. v_allocs v p = Some as \<longrightarrow> (\<exists>as'. v_allocs v' p = Some as' \<and> as \<subseteq> as'))"

lemma others_kept_refl [simp]: "others_kept T v v"
  by (simp add: others_kept_def)

lemma others_kept_trans:
  assumes "others_kept T v v'" "others_kept T v' v''"
  shows "others_kept T v v''"
proof -
  have "v_servers v' k = Some x" if "v_servers v k = Some x" "\<not> checkTags (vs_Tags x) T" for k x
    using that assms(1) fun_cong [of "restrictBy (\<lambda>x. \<not> checkTags (vs_Tags x) T) (v_servers v')" _ k]
    unfolding others_kept_def by (metis (mono_tags, lifting) restrictBy_Some)
  with assms show ?thesis unfolding others_kept_def by metis
qed

lemma addresses_kept_refl [simp]: "addresses_kept v v"
  by (simp add: addresses_kept_def)

lemma addresses_kept_trans: "addresses_kept v v' \<Longrightarrow> addresses_kept v' v'' \<Longrightarrow> addresses_kept v v''"
  unfolding addresses_kept_def by (meson order_trans)

lemma addresses_kept_same: "v_allocs v' = v_allocs v \<Longrightarrow> addresses_kept v v'"
  by (simp add: addresses_kept_def)

text \<open>Both together: what holds between the views before and after, also after an error.\<close>

definition safe :: "tag list \<Rightarrow> nsxt_view \<Rightarrow> nsxt_view \<Rightarrow> bool" where
  "safe tg v v' \<longleftrightarrow> others_kept tg v v' \<and> addresses_kept v v'"

lemma safe_refl [simp]: "safe tg v v"
  by (simp add: safe_def)

lemma safe_trans: "safe tg v v' \<Longrightarrow> safe tg v' v'' \<Longrightarrow> safe tg v v''"
  unfolding safe_def by (blast intro: others_kept_trans addresses_kept_trans)

lemma others_kept_allocs [simp]: "others_kept tg v (v'\<lparr>v_allocs := x\<rparr>) = others_kept tg v v'"
  by (simp add: others_kept_def attached_def)

lemma others_kept_server:
  assumes "others_kept tg v v'" "\<And>x. v_servers v' k = Some x \<Longrightarrow> checkTags (vs_Tags x) tg"
    "\<And>x. y = Some x \<Longrightarrow> checkTags (vs_Tags x) tg"
  shows "others_kept tg v (v'\<lparr>v_servers := (v_servers v')(k := y)\<rparr>)"
proof -
  have "restrictBy (\<lambda>x. \<not> checkTags (vs_Tags x) tg) ((v_servers v')(k := y)) =
      restrictBy (\<lambda>x. \<not> checkTags (vs_Tags x) tg) (v_servers v')"
    by (rule restrictBy_upd) (use assms(2,3) in auto)
  with assms(1) show ?thesis by (simp add: others_kept_def attached_def)
qed

lemma others_kept_attached:
  assumes "others_kept tg v v'" "v_servers v'' = v_servers v'" "v_pools v'' = v_pools v'" "v_monitors v'' = v_monitors v'"
    "\<And>k x. v_servers v k = Some x \<Longrightarrow> \<not> checkTags (vs_Tags x) tg \<Longrightarrow> attached v'' k = attached v' k"
  shows "others_kept tg v v''"
  using assms by (simp add: others_kept_def)

text \<open>The view after the address of the state was released.\<close>

definition released :: "state \<Rightarrow> nsxt_view \<Rightarrow> nsxt_view" where
  "released s v = (case lbClass s of None \<Rightarrow> v | Some c \<Rightarrow>
     case v_allocs v (ipPoolID c) of
       None \<Rightarrow> v
     | Some as \<Rightarrow> if ipAddress s = '''' then v else v\<lparr>v_allocs := (v_allocs v)(ipPoolID c \<mapsto> as - {ipAddress s})\<rparr>)"

text \<open>
  The allocations after \<open>allocateResources\<close>: a new address of the pool of the class, or
  nothing, because there was an address.
\<close>

definition allocation :: "loadBalancerClass \<Rightarrow> bool \<Rightarrow> string \<Rightarrow> nsxt_view \<Rightarrow> nsxt_view \<Rightarrow> bool" where
  "allocation c allocated ip v v' \<longleftrightarrow>
     (if allocated then \<exists>as. v_allocs v (ipPoolID c) = Some as \<and> ip \<notin> as \<and> ip \<noteq> '''' \<and>
        v_allocs v' = (v_allocs v)(ipPoolID c \<mapsto> insert ip as)
      else v_allocs v' = v_allocs v)"

lemma allocation_kept: "allocation c allocated ip v v' \<Longrightarrow> addresses_kept v v'"
  by (auto simp: allocation_def addresses_kept_def split: if_splits)

lemma released_allocation:
  assumes "allocation c True ip v v'" "lbClass s = Some c" "ipAddress s = ip"
  shows "v_allocs (released s v') = v_allocs v"
  using assms by (auto simp: allocation_def released_def)

lemma released_other [simp]:
  "v_servers (released s v) = v_servers v" "v_pools (released s v) = v_pools v"
  "v_monitors (released s v) = v_monitors v" "v_services (released s v) = v_services v"
  by (auto simp: released_def split: option.split)

lemma others_kept_released [simp]: "others_kept tg v (released s v') = others_kept tg v v'"
  by (simp add: others_kept_def attached_def)

text \<open>The view after a new server was attached.\<close>

definition serverAdded :: "LbVirtualServer \<Rightarrow> nsxt_view \<Rightarrow> nsxt_view \<Rightarrow> bool" where
  "serverAdded x v v' \<longleftrightarrow> v_servers v (vs_Id x) = None \<and> v_servers v' = (v_servers v)(vs_Id x \<mapsto> x) \<and>
     v_pools v' = v_pools v \<and> v_monitors v' = v_monitors v \<and> addresses_kept v v' \<and>
     (\<forall>k. k \<noteq> vs_Id x \<longrightarrow> attached v' k = attached v k) \<and> attached v' (vs_Id x) \<noteq> {}"

lemma serverAdded_add_to:
  assumes "v_services u (svc_Id svc) = Some svc" "attached u = attached v"
    "v_servers u = (v_servers v)(vs_Id x \<mapsto> x)" "v_pools u = v_pools v" "v_monitors u = v_monitors v"
    "addresses_kept v u" "v_servers v (vs_Id x) = None"
  shows "serverAdded x v (add_to u (vs_Id x) svc)"
proof -
  have "addresses_kept v (add_to u (vs_Id x) svc)" using assms(6) by (simp add: addresses_kept_def add_to_def)
  moreover have "v_servers (add_to u (vs_Id x) svc) = v_servers u" "v_pools (add_to u (vs_Id x) svc) = v_pools u"
    "v_monitors (add_to u (vs_Id x) svc) = v_monitors u" by (simp_all add: add_to_def)
  ultimately show ?thesis
    using assms attached_add_to [OF assms(1), of "vs_Id x"] by (simp add: serverAdded_def)
qed

text \<open>
  \<open>getVirtualServer\<close> as a step: the list and the servers of the backend change together, the
  other servers keep their attachments, and a new server is attached and has the address of
  the state.
\<close>

definition serverStep ::
  "tag list \<Rightarrow> Mapping \<Rightarrow> string \<Rightarrow> state \<Rightarrow> nsxt_view \<Rightarrow> LbVirtualServer \<Rightarrow> state \<Rightarrow> nsxt_view \<Rightarrow> bool" where
  "serverStep tg m pid s v x s' v' \<longleftrightarrow>
     upsert vs_Id (\<lambda>x. checkTags (vs_Tags x) tg) (MatchVirtualServer m) (servers s) (v_servers v) x (servers s') (v_servers v') \<and>
     MatchNodePort m x \<and> vs_PoolId x = pid \<and> addresses_kept v v' \<and>
     (\<forall>k. k \<noteq> vs_Id x \<longrightarrow> attached v' k = attached v k) \<and>
     (ipAddress s \<noteq> '''' \<longrightarrow> ipAddress s' = ipAddress s) \<and>
     (case v_servers v (vs_Id x) of
        None \<Rightarrow> vs_IpAddress x = ipAddress s' \<and> ipAddress s' \<noteq> '''' \<and> attached v' (vs_Id x) \<noteq> {}
      | Some y \<Rightarrow> vs_IpAddress x = vs_IpAddress y \<and> ipAddress s' = ipAddress s \<and> attached v' (vs_Id x) = attached v (vs_Id x))"

text \<open>The members of a pool are the internal addresses of the nodes, each once.\<close>

definition goodMembers :: "Node list \<Rightarrow> LbPool \<Rightarrow> bool" where
  "goodMembers ns p \<longleftrightarrow> pm_IpAddress ` set (pool_Members p) = nodeAddresses ns \<and> distinct (map pm_IpAddress (pool_Members p))"

abbreviation "distinctMembers p \<equiv> distinct (map pm_IpAddress (pool_Members p))"

section \<open>One port\<close>

text \<open>The lists of the state mirror the objects of the service.\<close>

definition synced :: "tag list \<Rightarrow> state \<Rightarrow> nsxt_view \<Rightarrow> bool" where
  "synced tg s v \<longleftrightarrow>
     mirrors vs_Id (\<lambda>x. checkTags (vs_Tags x) tg) (\<lambda>_. True) (servers s) (v_servers v) \<and>
     mirrors pool_Id (\<lambda>x. checkTags (pool_Tags x) tg) (\<lambda>_. True) (pools s) (v_pools v) \<and>
     mirrors mon_Id (\<lambda>x. checkTags (mon_Tags x) tg) (\<lambda>x. mon_ResourceType x = ''LbTcpMonitor'') (tcpMonitors s) (v_monitors v)"

text \<open>
  The effect of \<open>processPort\<close>: one monitor (for TCP), one pool that refers to it and has the
  nodes as members, one virtual server that refers to the pool.
\<close>

definition portStep :: "tag list \<Rightarrow> ServicePort \<Rightarrow> state \<Rightarrow> nsxt_view \<Rightarrow> state \<Rightarrow> nsxt_view \<Rightarrow> bool" where
  "portStep tg p s v s' v' \<longleftrightarrow> (let m = NewMapping p in
     s' = s\<lparr>tcpMonitors := tcpMonitors s', pools := pools s', servers := servers s', ipAddress := ipAddress s'\<rparr> \<and>
     (\<exists>mon pool srv.
        (if Protocol m = ProtocolTCP
         then \<exists>x. mon = [mon_Id x] \<and> mon_MonitorPort x = showInt (NodePort m) \<and>
           upsert mon_Id (\<lambda>x. checkTags (mon_Tags x) tg) (MatchTCPMonitor m) (tcpMonitors s) (v_monitors v) x
             (tcpMonitors s') (v_monitors v')
         else mon = [] \<and> tcpMonitors s' = tcpMonitors s \<and> v_monitors v' = v_monitors v) \<and>
        upsert pool_Id (\<lambda>x. checkTags (pool_Tags x) tg) (MatchPool m) (pools s) (v_pools v) pool (pools s') (v_pools v') \<and>
        pool_ActiveMonitorIds pool = mon \<and> ((\<forall>q \<in> set (pools s). distinctMembers q) \<longrightarrow> goodMembers (nodes s) pool) \<and>
        serverStep tg m (pool_Id pool) s v srv s' v'))"

lemma serverStep_cong:
  assumes "serverStep tg m pid s2 v2 x s' v'" "servers s2 = servers s" "ipAddress s2 = ipAddress s"
    "v_servers v2 = v_servers v" "v_services v2 = v_services v" "v_allocs v2 = v_allocs v"
  shows "serverStep tg m pid s v x s' v'"
  using assms attached_services [OF assms(5)] by (auto simp: serverStep_def addresses_kept_def split: option.splits)

lemma serverStep_safe:
  assumes "serverStep tg m pid s v x s' v'" "mirrors vs_Id (\<lambda>x. checkTags (vs_Tags x) tg) sel (servers s) (v_servers v)"
    "restrictBy (\<lambda>x. \<not> checkTags (pool_Tags x) tg) (v_pools v') = restrictBy (\<lambda>x. \<not> checkTags (pool_Tags x) tg) (v_pools v)"
    "restrictBy (\<lambda>x. \<not> checkTags (mon_Tags x) tg) (v_monitors v') = restrictBy (\<lambda>x. \<not> checkTags (mon_Tags x) tg) (v_monitors v)"
  shows "safe tg v v'"
proof -
  have up: "upsert vs_Id (\<lambda>x. checkTags (vs_Tags x) tg) (MatchVirtualServer m) (servers s) (v_servers v) x (servers s') (v_servers v')"
    and att: "\<And>k. k \<noteq> vs_Id x \<Longrightarrow> attached v' k = attached v k" and al: "addresses_kept v v'"
    using assms(1) by (auto simp: serverStep_def)
  have "k \<noteq> vs_Id x" if "v_servers v k = Some y" "\<not> checkTags (vs_Tags y) tg" for k y
    using that up assms(2) by (auto simp: upsert_def mirrors_def)
  with att al upsert_foreign [OF up assms(2)] assms(3,4) show ?thesis by (auto simp: safe_def others_kept_def)
qed

abbreviation "monitorPart tg m mon s v s' v' \<equiv>
  (if Protocol m = ProtocolTCP
   then \<exists>x. mon = [mon_Id x] \<and> mon_MonitorPort x = showInt (NodePort m) \<and>
     upsert mon_Id (\<lambda>x. checkTags (mon_Tags x) tg) (MatchTCPMonitor m) (tcpMonitors s) (v_monitors v) x
       (tcpMonitors s') (v_monitors v')
   else mon = [] \<and> tcpMonitors s' = tcpMonitors s \<and> v_monitors v' = v_monitors v)"

abbreviation "poolPart tg m mon pool s v s' v' \<equiv>
  upsert pool_Id (\<lambda>x. checkTags (pool_Tags x) tg) (MatchPool m) (pools s) (v_pools v) pool (pools s') (v_pools v') \<and>
  pool_ActiveMonitorIds pool = mon \<and> ((\<forall>q \<in> set (pools s). distinctMembers q) \<longrightarrow> goodMembers (nodes s) pool)"

lemma portStepE:
  assumes "portStep tg p s v s' v'"
  obtains mon pool srv where
    "s' = s\<lparr>tcpMonitors := tcpMonitors s', pools := pools s', servers := servers s', ipAddress := ipAddress s'\<rparr>"
    "monitorPart tg (NewMapping p) mon s v s' v'" "poolPart tg (NewMapping p) mon pool s v s' v'"
    "serverStep tg (NewMapping p) (pool_Id pool) s v srv s' v'"
  using assms unfolding portStep_def Let_def by (elim conjE exE) (rule that, assumption+, intro conjI, assumption+)

lemma portStepI:
  assumes "s' = s\<lparr>tcpMonitors := tcpMonitors s', pools := pools s', servers := servers s', ipAddress := ipAddress s'\<rparr>"
    "monitorPart tg (NewMapping p) mon s v s' v'" "poolPart tg (NewMapping p) mon pool s v s' v'"
    "serverStep tg (NewMapping p) (pool_Id pool) s v srv s' v'"
  shows "portStep tg p s v s' v'"
  unfolding portStep_def Let_def
  by (rule conjI [OF assms(1)], rule exI [of _ mon], rule exI [of _ pool], rule exI [of _ srv]) (use assms(2-4) in blast)

lemma monitorPart_mirrors:
  assumes "monitorPart tg m mon s v s' v'" "mirrors mon_Id (\<lambda>x. checkTags (mon_Tags x) tg) sel (tcpMonitors s) (v_monitors v)"
  shows "mirrors mon_Id (\<lambda>x. checkTags (mon_Tags x) tg) sel (tcpMonitors s') (v_monitors v')"
    and "restrictBy (\<lambda>x. \<not> checkTags (mon_Tags x) tg) (v_monitors v') = restrictBy (\<lambda>x. \<not> checkTags (mon_Tags x) tg) (v_monitors v)"
  using assms by (auto split: if_splits dest: upsert_mirrors upsert_foreign)

lemma safe_parts:
  assumes "monitorPart tg m mon s v s' v'"
    and "mirrors mon_Id (\<lambda>x. checkTags (mon_Tags x) tg) sel (tcpMonitors s) (v_monitors v)"
    and "restrictBy (\<lambda>x. \<not> checkTags (pool_Tags x) tg) (v_pools v') = restrictBy (\<lambda>x. \<not> checkTags (pool_Tags x) tg) (v_pools v)"
    and "v_servers v' = v_servers v" "v_services v' = v_services v" "v_allocs v' = v_allocs v"
  shows "safe tg v v'"
  using assms monitorPart_mirrors(2) [OF assms(1,2)] by (simp add: safe_def others_kept_def attached_def addresses_kept_same)

lemma portStep_safe:
  assumes "portStep tg p s v s' v'" "synced tg s v"
  shows "safe tg v v' \<and> synced tg s' v'"
  using assms(1)
proof (cases rule: portStepE)
  case (1 mon pool srv)
  note pool = 1(3) [THEN conjunct1]
  have srv: "upsert vs_Id (\<lambda>x. checkTags (vs_Tags x) tg) (MatchVirtualServer (NewMapping p)) (servers s) (v_servers v) srv
      (servers s') (v_servers v')" using 1(4) by (simp add: serverStep_def)
  from assms(2) have m: "mirrors vs_Id (\<lambda>x. checkTags (vs_Tags x) tg) (\<lambda>_. True) (servers s) (v_servers v)"
     "mirrors pool_Id (\<lambda>x. checkTags (pool_Tags x) tg) (\<lambda>_. True) (pools s) (v_pools v)"
     "mirrors mon_Id (\<lambda>x. checkTags (mon_Tags x) tg) (\<lambda>x. mon_ResourceType x = ''LbTcpMonitor'') (tcpMonitors s) (v_monitors v)"
    unfolding synced_def by blast+
  show ?thesis
    using serverStep_safe [OF 1(4) m(1) upsert_foreign [OF pool m(2)] monitorPart_mirrors(2) [OF 1(2) m(3)]]
      upsert_mirrors [OF srv m(1)] upsert_mirrors [OF pool m(2)] monitorPart_mirrors(1) [OF 1(2) m(3)]
    unfolding synced_def by blast
qed

text \<open>
  A port is served: a virtual server with its node port, whose pool has the tag of the port,
  the nodes as members (where the members are known to be distinct), and for TCP exactly one
  active monitor, which checks the node port.
\<close>

definition servedBy ::
  "bool \<Rightarrow> Node list \<Rightarrow> LbVirtualServer set \<Rightarrow> LbPool set \<Rightarrow> LbTcpMonitor set \<Rightarrow> ServicePort \<Rightarrow> bool" where
  "servedBy D ns SV PS MS p \<longleftrightarrow> (let m = NewMapping p in \<exists>srv \<in> SV. \<exists>pool \<in> PS.
     MatchVirtualServer m srv \<and> MatchNodePort m srv \<and> vs_PoolId srv = pool_Id pool \<and> MatchPool m pool \<and>
     (D \<longrightarrow> goodMembers ns pool) \<and>
     (if Protocol m = ProtocolTCP
      then \<exists>mon \<in> MS. MatchTCPMonitor m mon \<and> mon_MonitorPort mon = showInt (NodePort m) \<and>
             pool_ActiveMonitorIds pool = [mon_Id mon]
      else pool_ActiveMonitorIds pool = []))"

abbreviation "served D s \<equiv> servedBy D (nodes s) (set (servers s)) (set (pools s)) (set (tcpMonitors s))"

definition portKey :: "ServicePort \<Rightarrow> int \<times> string" where
  "portKey p = (sp_Port p, sp_Protocol p)"

lemma portKey_mapping: "portKey p = portKey q \<longleftrightarrow>
   Protocol (NewMapping p) = Protocol (NewMapping q) \<and> SourcePort (NewMapping p) = SourcePort (NewMapping q)"
  by (auto simp: portKey_def NewMapping_def)

text \<open>What the job is does not change while it is worked on.\<close>

definition sameJob :: "state \<Rightarrow> state \<Rightarrow> bool" where
  "sameJob s s' \<longleftrightarrow> clusterName s' = clusterName s \<and> objectName s' = objectName s \<and> service s' = service s \<and>
     nodes s' = nodes s \<and> lbClass s' = lbClass s"

lemma sameJob_refl [simp]: "sameJob s s"
  by (simp add: sameJob_def)

lemma sameJob_trans: "sameJob s s' \<Longrightarrow> sameJob s' s'' \<Longrightarrow> sameJob s s''"
  by (simp add: sameJob_def)

lemma sameJob_lists:
  "s' = s\<lparr>tcpMonitors := ms, pools := ps, servers := ss, ipAddress := ip\<rparr> \<Longrightarrow> sameJob s s'"
  by (simp add: sameJob_def)

lemma portStep_job: "portStep tg p s v s' v' \<Longrightarrow> sameJob s s'"
  by (erule portStepE) (erule sameJob_lists)

lemma portStep_nodes: "portStep tg p s v s' v' \<Longrightarrow> nodes s' = nodes s"
  by (drule portStep_job) (simp add: sameJob_def)

lemma portStep_served:
  assumes "portStep tg p s v s' v'" "synced tg s v" "D \<longrightarrow> (\<forall>q \<in> set (pools s). distinctMembers q)"
  shows "served D s' p"
  using assms(1)
proof (cases rule: portStepE)
  case (1 mon pool srv)
  have "srv \<in> set (servers s')" "MatchVirtualServer (NewMapping p) srv" "MatchNodePort (NewMapping p) srv" "vs_PoolId srv = pool_Id pool"
    using 1(4) by (auto simp: serverStep_def upsert_def set_update_memI)
  moreover have "pool \<in> set (pools s')" "MatchPool (NewMapping p) pool" "D \<longrightarrow> goodMembers (nodes s') pool" "pool_ActiveMonitorIds pool = mon"
    using 1(3) assms(3) portStep_nodes [OF assms(1)] by (auto simp: upsert_def set_update_memI)
  moreover have "if Protocol (NewMapping p) = ProtocolTCP then \<exists>x \<in> set (tcpMonitors s'). MatchTCPMonitor (NewMapping p) x \<and>
      mon_MonitorPort x = showInt (NodePort (NewMapping p)) \<and> mon = [mon_Id x] else mon = []"
    using 1(2) by (auto simp: upsert_def set_update_memI split: if_splits)
  ultimately show ?thesis unfolding servedBy_def Let_def by blast
qed

lemma portStep_served_other:
  assumes "portStep tg p s v s' v'" "synced tg s v" "portKey q \<noteq> portKey p" "served D s q"
  shows "served D s' q"
  using assms(1)
proof (cases rule: portStepE)
  case (1 mon pool srv)
  let ?q = "NewMapping q"
  from assms(4) obtain srv0 pool0 where q: "srv0 \<in> set (servers s)" "pool0 \<in> set (pools s)"
      "MatchVirtualServer ?q srv0" "MatchNodePort ?q srv0" "vs_PoolId srv0 = pool_Id pool0" "MatchPool ?q pool0"
      "D \<longrightarrow> goodMembers (nodes s) pool0"
      "if Protocol ?q = ProtocolTCP then \<exists>x \<in> set (tcpMonitors s). MatchTCPMonitor ?q x \<and>
         mon_MonitorPort x = showInt (NodePort ?q) \<and> pool_ActiveMonitorIds pool0 = [mon_Id x]
       else pool_ActiveMonitorIds pool0 = []"
    unfolding servedBy_def Let_def by blast
  have "srv0 \<in> set (servers s')"
    using assms(2,3) q(1,3) 1(4) MatchVirtualServer_eq [of ?q srv0 "NewMapping p"]
    by (auto simp: serverStep_def synced_def portKey_mapping intro: upsert_other)
  moreover have "pool0 \<in> set (pools s')"
    using assms(2,3) q(2,6) 1(3) MatchPool_eq [of ?q pool0 "NewMapping p"]
    by (auto simp: synced_def portKey_mapping intro: upsert_other)
  moreover have "x \<in> set (tcpMonitors s')" if "x \<in> set (tcpMonitors s)" "MatchTCPMonitor ?q x" for x
    using assms(2,3) that 1(2) MatchTCPMonitor_eq [of ?q x "NewMapping p"]
    by (auto simp: synced_def portKey_mapping split: if_splits intro: upsert_other)
  ultimately show ?thesis
    using q(3-8) portStep_nodes [OF assms(1)] unfolding servedBy_def Let_def by (auto split: if_splits)
qed

lemma portStep_distinct:
  assumes "portStep tg p s v s' v'" "synced tg s v" "\<forall>q \<in> set (pools s). distinctMembers q"
  shows "\<forall>q \<in> set (pools s'). distinctMembers q"
  using assms(1)
proof (cases rule: portStepE)
  case (1 mon pool srv)
  then have "set (pools s') = insert pool {x \<in> set (pools s). pool_Id x \<noteq> pool_Id pool}"
    using assms(2) by (auto simp: synced_def upsert_set)
  with 1(3) assms(3) show ?thesis by (auto simp: goodMembers_def)
qed

text \<open>At most one object of each kind for a port.\<close>

definition soleLists :: "state \<Rightarrow> ServicePort \<Rightarrow> bool" where
  "soleLists s q \<longleftrightarrow> sole (MatchVirtualServer (NewMapping q)) (set (servers s)) \<and>
     sole (MatchPool (NewMapping q)) (set (pools s)) \<and> sole (MatchTCPMonitor (NewMapping q)) (set (tcpMonitors s))"

lemma match_alternatives:
  "MatchVirtualServer m = MatchVirtualServer m' \<or> (\<forall>x. \<not> (MatchVirtualServer m x \<and> MatchVirtualServer m' x))"
  "MatchPool m = MatchPool m' \<or> (\<forall>x. \<not> (MatchPool m x \<and> MatchPool m' x))"
  "MatchTCPMonitor m = MatchTCPMonitor m' \<or> (\<forall>x. \<not> (MatchTCPMonitor m x \<and> MatchTCPMonitor m' x))"
proof -
  have "MatchVirtualServer m = MatchVirtualServer m' \<and> MatchPool m = MatchPool m' \<and> MatchTCPMonitor m = MatchTCPMonitor m'"
    if "Protocol m = Protocol m'" "SourcePort m = SourcePort m'"
    using that by (auto simp: MatchVirtualServer_def MatchPool_def MatchTCPMonitor_def portTag_def fun_eq_iff)
  then show
    "MatchVirtualServer m = MatchVirtualServer m' \<or> (\<forall>x. \<not> (MatchVirtualServer m x \<and> MatchVirtualServer m' x))"
    "MatchPool m = MatchPool m' \<or> (\<forall>x. \<not> (MatchPool m x \<and> MatchPool m' x))"
    "MatchTCPMonitor m = MatchTCPMonitor m' \<or> (\<forall>x. \<not> (MatchTCPMonitor m x \<and> MatchTCPMonitor m' x))"
    using MatchVirtualServer_eq MatchPool_eq MatchTCPMonitor_eq by metis+
qed

lemma portStep_sole:
  assumes "portStep tg p s v s' v'" "synced tg s v" "soleLists s q"
  shows "soleLists s' q"
  using assms(1)
proof (cases rule: portStepE)
  case (1 mon pool srv)
  from assms(2) have m: "mirrors vs_Id (\<lambda>x. checkTags (vs_Tags x) tg) (\<lambda>_. True) (servers s) (v_servers v)"
     "mirrors pool_Id (\<lambda>x. checkTags (pool_Tags x) tg) (\<lambda>_. True) (pools s) (v_pools v)"
     "mirrors mon_Id (\<lambda>x. checkTags (mon_Tags x) tg) (\<lambda>x. mon_ResourceType x = ''LbTcpMonitor'') (tcpMonitors s) (v_monitors v)"
    unfolding synced_def by blast+
  have "sole (MatchVirtualServer (NewMapping q)) (set (servers s'))"
    using 1(4) assms(3) upsert_sole [OF _ m(1) _ match_alternatives(1)] by (auto simp: serverStep_def soleLists_def)
  moreover have "sole (MatchPool (NewMapping q)) (set (pools s'))"
    using 1(3) assms(3) upsert_sole [OF _ m(2) _ match_alternatives(2)] by (auto simp: soleLists_def)
  moreover have "sole (MatchTCPMonitor (NewMapping q)) (set (tcpMonitors s'))"
    using 1(2) assms(3) upsert_sole [OF _ m(3) _ match_alternatives(3)] by (auto simp: soleLists_def split: if_splits)
  ultimately show ?thesis by (simp add: soleLists_def)
qed

text \<open>All virtual servers have the address of the state, and are attached to a load balancer service.\<close>

definition oneAddress :: "state \<Rightarrow> bool" where
  "oneAddress s \<longleftrightarrow> (\<forall>x \<in> set (servers s). vs_IpAddress x = ipAddress s \<and> ipAddress s \<noteq> '''')"

definition allAttached :: "state \<Rightarrow> nsxt_view \<Rightarrow> bool" where
  "allAttached s v \<longleftrightarrow> (\<forall>x \<in> set (servers s). attached v (vs_Id x) \<noteq> {})"

lemma portStep_address:
  assumes "portStep tg p s v s' v'" "synced tg s v"
  shows "oneAddress s \<Longrightarrow> oneAddress s'" "allAttached s v \<Longrightarrow> allAttached s' v'"
proof -
  from assms(1) obtain srv pid where srv: "serverStep tg (NewMapping p) pid s v srv s' v'" by (rule portStepE)
  have set: "set (servers s') = insert srv {x \<in> set (servers s). vs_Id x \<noteq> vs_Id srv}"
    using srv assms(2) by (auto simp: serverStep_def synced_def upsert_set)
  have old: "y \<in> set (servers s) \<and> vs_Id y = vs_Id srv" if "v_servers v (vs_Id srv) = Some y" for y
  proof -
    from srv that have "\<exists>i < length (servers s). vs_Id srv = vs_Id (servers s ! i)"
      by (auto simp: serverStep_def upsert_def)
    with that assms(2) show ?thesis by (auto simp: synced_def mirrors_def)
  qed
  show "oneAddress s'" if "oneAddress s"
    using that set old srv by (auto simp: oneAddress_def serverStep_def split: option.splits)
  show "allAttached s' v'" if "allAttached s v"
    using that set old srv by (auto simp: allAttached_def serverStep_def split: option.splits)
qed

end
