(* ===== verification/Reconcile_Steps.thy ===== *)
theory Reconcile_Steps
  imports Reconcile_View
begin

text \<open>
  The operations of \<open>state.go\<close> on monitors, pools, addresses and virtual servers as steps
  on the state and the view of the backend, up to the loop over the ports of the service.
\<close>

section \<open>The operations as steps\<close>

context nsxt_backend
begin

abbreviation atW :: "state \<Rightarrow> 's lbService \<Rightarrow> nsxt_view \<Rightarrow> 's world \<Rightarrow> bool" where
  "atW s l v \<equiv> \<lambda>(s', l', b). s' = s \<and> l' = l \<and> at v b"

lemma triple_callAccess_at:
  assumes "triple (at v) (f (access l)) (\<lambda>x b. Q x (s, l, b)) (\<lambda>e b. E e (s, l, b))"
  shows "triple (atW s l v) (callAccess f) Q E"
  unfolding callAccess_def
proof (rule triple_onSnd)
  fix s'
  show "triple (\<lambda>w. case (s', w) of (s', l', b) \<Rightarrow> s' = s \<and> l' = l \<and> at v b) (viaAccess f)
      (\<lambda>x w. Q x (s', w)) (\<lambda>e w. E e (s', w))"
    using triple_viaAccess_at [of v f l "\<lambda>x w. Q x (s, w)" "\<lambda>e w. E e (s, w)"] assms
    by (auto simp: triple_def)
qed

lemma triple_onSnd_at:
  assumes "triple (atL l v) f (\<lambda>x w. Q x (s, w)) (\<lambda>e w. E e (s, w))"
  shows "triple (atW s l v) (onSnd f) Q E"
proof (rule triple_onSnd)
  fix s'
  show "triple (\<lambda>w. case (s', w) of (s', l', b) \<Rightarrow> s' = s \<and> l' = l \<and> at v b) f (\<lambda>x w. Q x (s', w)) (\<lambda>e w. E e (s', w))"
    using assms by (auto simp: triple_def)
qed

lemma triple_getState: "triple (atW s l v) (g s) Q E \<Longrightarrow> triple (atW s l v) (bindIO getState g) Q E"
  unfolding getState_def by (rule triple_gets_bind) auto

lemma triple_putState: "(\<And>b. at v b \<Longrightarrow> Q () (f s, l, b)) \<Longrightarrow> triple (atW s l v) (putState f) Q E"
  unfolding putState_def by (rule triple_modify) auto

lemma triple_putState_bind:
  "triple (atW (f s) l v) g Q E \<Longrightarrow> triple (atW s l v) (bindIO (putState f) (\<lambda>_. g)) Q E"
  by (rule triple_bind [where R = "\<lambda>_. atW (f s) l v"], rule triple_putState) auto

lemma triple_classOf:
  "lbClass s = Some c \<Longrightarrow> triple (atW s l v) (g c) Q E \<Longrightarrow> triple (atW s l v) (bindIO classOf g) Q E"
  unfolding classOf_def bindIO_assoc by (rule triple_getState) simp

text \<open>A world with some view and state.\<close>

lemma triple_world:
  assumes "\<And>s l v. P s l v \<Longrightarrow> triple (atW s l v) f Q E"
  shows "triple (\<lambda>(s, l, b). \<exists>v. at v b \<and> P s l v) f Q E"
  using assms by (fastforce simp: triple_def)

lemma update_monitor_step:
  assumes a: "broker (access l) = B" and x: "v_monitors v (mon_Id x) = Some x"
  shows "triple (atW s l v) (updateTCPMonitor x m)
    (\<lambda>r. \<lambda>(s', l', b). s' = s \<and> l' = l \<and> at (v\<lparr>v_monitors := (v_monitors v)(mon_Id x \<mapsto> r)\<rparr>) b \<and>
       r = x\<lparr>mon_MonitorPort := showInt (NodePort m)\<rparr>) (\<lambda>_. atW s l v)"
proof -
  let ?r = "x\<lparr>mon_MonitorPort := showInt (NodePort m)\<rparr>"
  have upd: "triple (atW s l v) (callAccess (\<lambda>a. UpdateTCPMonitor a ?r))
      (\<lambda>_. atW s l (v\<lparr>v_monitors := (v_monitors v)(mon_Id x \<mapsto> ?r)\<rparr>)) (\<lambda>_. atW s l v)"
    by (rule triple_callAccess_at, rule triple_post [OF update_tcp_monitor [OF a]]) auto
  have "(v_monitors v)(mon_Id x \<mapsto> x) = v_monitors v" using x by auto
  then show ?thesis
    unfolding updateTCPMonitor_def Let_def
    by (intro triple_if triple_ret triple_bind [OF upd]) auto
qed

lemma create_monitor_step:
  assumes a: "broker (access l) = B"
  shows "triple (atW s l v) (createTCPMonitor m)
    (\<lambda>r. \<lambda>(s', l', b). s' = s\<lparr>tcpMonitors := tcpMonitors s @ [r]\<rparr> \<and> l' = l \<and> v_monitors v (mon_Id r) = None \<and>
       at (v\<lparr>v_monitors := (v_monitors v)(mon_Id r \<mapsto> r)\<rparr>) b \<and>
       (\<exists>k. r = (newTCPMonitorObject (access l) (clusterName s) (objectName s) m)
                 \<lparr>mon_Id := k, mon_ResourceType := monitor_type\<rparr>)) (\<lambda>_. atW s l v)"
    (is "triple _ _ ?Q ?E")
proof -
  have "triple (atW s l v) (callAccess (\<lambda>a. CreateTCPMonitor a (clusterName s) (objectName s) m))
      (\<lambda>r. \<lambda>(s', l', b). s' = s \<and> ?Q r (s\<lparr>tcpMonitors := tcpMonitors s @ [r]\<rparr>, l', b)) ?E"
    by (rule triple_callAccess_at, rule triple_post [OF create_tcp_monitor [OF a]]) auto
  then show ?thesis
    unfolding createTCPMonitor_def putState_def
    by (intro triple_getState) (rule triple_bind, assumption, rule tripleI, auto simp: io_defs)
qed

text \<open>The three kinds of objects of the service.\<close>

abbreviation "T s l \<equiv> ownTags (access l) (clusterName s) (objectName s)"
abbreviation "ownServer s l \<equiv> \<lambda>x. checkTags (vs_Tags x) (T s l)"
abbreviation "ownPool s l \<equiv> \<lambda>x. checkTags (pool_Tags x) (T s l)"
abbreviation "ownMonitor s l \<equiv> \<lambda>x. checkTags (mon_Tags x) (T s l)"
abbreviation "tcpTyped \<equiv> \<lambda>x. mon_ResourceType x = ''LbTcpMonitor''"

abbreviation "monitorStep s l m x ms v \<equiv>
  upsert mon_Id (ownMonitor s l) (MatchTCPMonitor m) (tcpMonitors s) (v_monitors v) x ms ((v_monitors v)(mon_Id x \<mapsto> x)) \<and>
  mon_MonitorPort x = showInt (NodePort m)"

lemma get_monitor:
  assumes a: "broker (access l) = B" "access_wf (access l)"
    and mirror: "mirrors mon_Id (ownMonitor s l) sel (tcpMonitors s) (v_monitors v)"
  shows "triple (atW s l v) (getTCPMonitor m)
    (\<lambda>r. \<lambda>(s', l', b). l' = l \<and> (if Protocol m = ProtocolTCP
       then \<exists>x. r = Some x \<and> s' = s\<lparr>tcpMonitors := tcpMonitors s'\<rparr> \<and> monitorStep s l m x (tcpMonitors s') v \<and>
              at (v\<lparr>v_monitors := (v_monitors v)(mon_Id x \<mapsto> x)\<rparr>) b
       else r = None \<and> s' = s \<and> at v b)) (\<lambda>_. atW s l v)"
    (is "triple _ _ ?Q ?E")
proof -
  let ?find = "findIndex (MatchTCPMonitor m) (tcpMonitors s)"
  let ?update = "\<lambda>i. bindIO (updateTCPMonitor (tcpMonitors s ! i) m) (\<lambda>x.
      bindIO (putState (\<lambda>s. s\<lparr>tcpMonitors := (tcpMonitors s)[i := x]\<rparr>)) (\<lambda>_. ret (Some x)))"
  let ?create = "bindIO (createTCPMonitor m) (\<lambda>x. ret (Some x))"
  have update: "triple (atW s l v) (?update i) ?Q ?E" if "?find = Some i" and tcp: "Protocol m = ProtocolTCP" for i
  proof -
    from findIndex_Some [OF that(1)] have i: "i < length (tcpMonitors s)" "MatchTCPMonitor m (tcpMonitors s ! i)" by auto
    then have x: "v_monitors v (mon_Id (tcpMonitors s ! i)) = Some (tcpMonitors s ! i) \<and> ownMonitor s l (tcpMonitors s ! i)"
      using mirrors_view [OF mirror] by simp
    show ?thesis
      by (rule triple_bind [OF update_monitor_step [OF a(1) conjunct1 [OF x]]], unfold putState_def, rule tripleI)
        (use i x tcp in \<open>auto simp: io_defs MatchTCPMonitor_def intro!: upsert_updateI [where i = i]\<close>)
  qed
  have create: "triple (atW s l v) ?create ?Q ?E" if tcp: "Protocol m = ProtocolTCP" and none: "?find = None"
    by (rule triple_bind [OF create_monitor_step [OF a(1)]], rule triple_ret)
      (use tcp none created_port_tags [OF a(2)] in
        \<open>auto simp: newTCPMonitorObject_def MatchTCPMonitor_def intro!: upsert_snocI\<close>)
  have "triple (atW s l v) (case ?find of Some i \<Rightarrow> ?update i | None \<Rightarrow> ?create) ?Q ?E" if "Protocol m = ProtocolTCP"
    using update create that by (intro triple_option) simp_all
  then show ?thesis
    unfolding getTCPMonitor_def by (intro triple_if triple_getState triple_ret) auto
qed

lemma update_pool_step:
  assumes a: "broker (access l) = B" and x: "v_pools v (pool_Id x) = Some x"
  shows "triple (atW s l v) (updatePool ord x m ids)
    (\<lambda>r. \<lambda>(s', l', b). s' = s \<and> l' = l \<and> at (v\<lparr>v_pools := (v_pools v)(pool_Id x \<mapsto> r)\<rparr>) b \<and>
       r = x\<lparr>pool_Members := pool_Members r, pool_ActiveMonitorIds := ids\<rparr> \<and>
       (distinctMembers x \<longrightarrow> goodMembers (nodes s) r)) (\<lambda>_. atW s l v)"
    (is "triple _ _ ?Q ?E")
proof -
  let ?new = "\<lambda>new. x\<lparr>pool_Members := new, pool_ActiveMonitorIds := ids\<rparr>"
  let ?calc = "\<lambda>new modified. \<exists>b. updatedPoolMembers ord b (clusterName s) (nodes s) (pool_Members x) = (new, modified)"
  let ?rest = "\<lambda>new modified. if modified \<or> \<not> stringsEquals ids (pool_ActiveMonitorIds x)
     then let pool = ?new new in bindIO (callAccess (\<lambda>a. UpdatePool a pool)) (\<lambda>_. ret pool) else ret x"
  have members: "triple (atW s l v) (updatedMembers ord (pool_Members x))
      (\<lambda>(new, modified) w. ?calc new modified \<and> atW s l v w) ?E"
    unfolding updatedMembers_def by (rule triple_gets) force
  have upd: "triple (atW s l v) (callAccess (\<lambda>a. UpdatePool a (?new new)))
      (\<lambda>_. atW s l (v\<lparr>v_pools := (v_pools v)(pool_Id x \<mapsto> ?new new)\<rparr>)) ?E" for new
    by (rule triple_callAccess_at, rule triple_post [OF update_lb_pool [OF a]]) auto
  have same: "(v_pools v)(pool_Id x \<mapsto> x) = v_pools v" using x by auto
  have rest: "triple (\<lambda>w. ?calc new modified \<and> atW s l v w) (?rest new modified) ?Q ?E" for new modified
  proof (rule triple_pure_pre)
    assume "?calc new modified"
    then obtain b where calc: "updatedPoolMembers ord b (clusterName s) (nodes s) (pool_Members x) = (new, modified)" ..
    have "distinctMembers x \<longrightarrow> goodMembers (nodes s) (?new new)" "distinctMembers x \<and> \<not> modified \<longrightarrow> goodMembers (nodes s) x"
      using updatedPoolMembers_spec [OF _ calc] by (simp add: goodMembers_def, unfold goodMembers_def, metis)
    then show "triple (atW s l v) (?rest new modified) ?Q ?E"
      unfolding Let_def by (intro triple_if triple_ret triple_bind [OF upd]) (auto simp: same)
  qed
  show ?thesis
    unfolding updatePool_def by (rule triple_bind [OF members]) (use rest in \<open>auto split: prod.splits\<close>)
qed

lemma create_pool_step:
  assumes a: "broker (access l) = B"
  shows "triple (atW s l v) (createPool ord m ids)
    (\<lambda>r. \<lambda>(s', l', b). s' = s\<lparr>pools := pools s @ [r]\<rparr> \<and> l' = l \<and> v_pools v (pool_Id r) = None \<and>
       at (v\<lparr>v_pools := (v_pools v)(pool_Id r \<mapsto> r)\<rparr>) b \<and> goodMembers (nodes s) r \<and>
       (\<exists>k. r = (newPoolObject (access l) (clusterName s) (objectName s) m (pool_Members r) ids)\<lparr>pool_Id := k\<rparr>))
    (\<lambda>_. atW s l v)"
    (is "triple _ _ ?Q ?E")
proof -
  let ?calc = "\<lambda>new modified. \<exists>b. updatedPoolMembers ord b (clusterName s) (nodes s) [] = (new, modified)"
  have members: "triple (atW s l v) (updatedMembers ord []) (\<lambda>(new, modified) w. ?calc new modified \<and> atW s l v w) ?E"
    unfolding updatedMembers_def by (rule triple_gets) force
  have create: "triple (atW s l v) (callAccess (\<lambda>a. CreatePool a (clusterName s) (objectName s) m new ids))
      (\<lambda>r. \<lambda>(s', l', b). s' = s \<and> ?Q r (s\<lparr>pools := pools s @ [r]\<rparr>, l', b)) ?E" if "?calc new modified" for new modified
  proof -
    from that obtain b where calc: "updatedPoolMembers ord b (clusterName s) (nodes s) [] = (new, modified)" ..
    from updatedPoolMembers_spec [OF _ calc]
    have "pm_IpAddress ` set new = nodeAddresses (nodes s)" "distinct (map pm_IpAddress new)" by simp_all
    then show ?thesis
      by (intro triple_callAccess_at, intro triple_post [OF create_lb_pool [OF a]])
        (auto simp: goodMembers_def newPoolObject_def)
  qed
  have "triple (\<lambda>w. ?calc new modified \<and> atW s l v w)
      (bindIO getState (\<lambda>s. bindIO (callAccess (\<lambda>a. CreatePool a (clusterName s) (objectName s) m new ids)) (\<lambda>pool.
       bindIO (putState (\<lambda>s. s\<lparr>pools := pools s @ [pool]\<rparr>)) (\<lambda>_. ret pool)))) ?Q ?E" for new modified
    unfolding putState_def
    by (intro triple_pure_pre triple_getState) (rule triple_bind, erule create, rule tripleI, auto simp: io_defs)
  then show ?thesis
    unfolding createPool_def by (intro triple_bind [OF members]) (auto split: prod.splits)
qed

abbreviation "poolStep s l m ids x ps v \<equiv>
  upsert pool_Id (ownPool s l) (MatchPool m) (pools s) (v_pools v) x ps ((v_pools v)(pool_Id x \<mapsto> x)) \<and>
  pool_ActiveMonitorIds x = ids \<and> ((\<forall>p \<in> set (pools s). distinctMembers p) \<longrightarrow> goodMembers (nodes s) x)"

lemma get_pool:
  assumes a: "broker (access l) = B" "access_wf (access l)"
    and mirror: "mirrors pool_Id (ownPool s l) sel (pools s) (v_pools v)"
  shows "triple (atW s l v) (getPool ord m mon)
    (\<lambda>x. \<lambda>(s', l', b). l' = l \<and> s' = s\<lparr>pools := pools s'\<rparr> \<and>
       poolStep s l m (case mon of None \<Rightarrow> [] | Some y \<Rightarrow> [mon_Id y]) x (pools s') v \<and>
       at (v\<lparr>v_pools := (v_pools v)(pool_Id x \<mapsto> x)\<rparr>) b) (\<lambda>_. atW s l v)"
    (is "triple _ _ ?Q ?E")
proof -
  let ?ids = "case mon of None \<Rightarrow> [] | Some y \<Rightarrow> [mon_Id y]"
  let ?find = "findIndex (MatchPool m) (pools s)"
  let ?update = "\<lambda>i. bindIO (updatePool ord (pools s ! i) m ?ids) (\<lambda>x.
      bindIO (putState (\<lambda>s. s\<lparr>pools := (pools s)[i := x]\<rparr>)) (\<lambda>_. ret x))"
  have update: "triple (atW s l v) (?update i) ?Q ?E" if "?find = Some i" for i
  proof -
    from findIndex_Some [OF that] have i: "i < length (pools s)" "MatchPool m (pools s ! i)" by auto
    then have x: "v_pools v (pool_Id (pools s ! i)) = Some (pools s ! i) \<and> ownPool s l (pools s ! i)"
      using mirrors_view [OF mirror] by simp
    have "?Q r (s\<lparr>pools := (pools s)[i := r]\<rparr>, l, b)"
      if "r = (pools s ! i)\<lparr>pool_Members := pool_Members r, pool_ActiveMonitorIds := ?ids\<rparr>"
        "at (v\<lparr>v_pools := (v_pools v)(pool_Id (pools s ! i) \<mapsto> r)\<rparr>) b"
        "distinctMembers (pools s ! i) \<longrightarrow> goodMembers (nodes s) r" for r b
    proof -
      have r: "pool_Id r = pool_Id (pools s ! i)" "pool_Tags r = pool_Tags (pools s ! i)" "pool_ActiveMonitorIds r = ?ids"
        by (subst that(1), simp)+
      with i x that(2,3) show ?thesis
        by (auto simp: MatchPool_def intro!: upsert_updateI [where i = i])
    qed
    then show ?thesis
      by (intro triple_bind [OF update_pool_step [OF a(1) conjunct1 [OF x]]] tripleI, unfold putState_def)
        (auto simp: io_defs)
  qed
  have create: "triple (atW s l v) (createPool ord m ?ids) ?Q ?E" if none: "?find = None"
  proof (rule triple_post [OF create_pool_step [OF a(1)]])
    fix r :: LbPool and w :: "'s world"
    obtain s' l' b where w: "w = (s', l', b)" by (cases w) auto
    assume "case w of (s', l', b) \<Rightarrow> s' = s\<lparr>pools := pools s @ [r]\<rparr> \<and> l' = l \<and> v_pools v (pool_Id r) = None \<and>
       at (v\<lparr>v_pools := (v_pools v)(pool_Id r \<mapsto> r)\<rparr>) b \<and> goodMembers (nodes s) r \<and>
       (\<exists>k. r = (newPoolObject (access l) (clusterName s) (objectName s) m (pool_Members r) ?ids)\<lparr>pool_Id := k\<rparr>)"
    then obtain k where r: "s' = s\<lparr>pools := pools s @ [r]\<rparr>" "l' = l" "v_pools v (pool_Id r) = None"
        "at (v\<lparr>v_pools := (v_pools v)(pool_Id r \<mapsto> r)\<rparr>) b" "goodMembers (nodes s) r"
      and new: "r = (newPoolObject (access l) (clusterName s) (objectName s) m (pool_Members r) ?ids)\<lparr>pool_Id := k\<rparr>"
      by (auto simp: w)
    have "ownPool s l r \<and> MatchPool m r \<and> pool_ActiveMonitorIds r = ?ids"
      by (subst (1 2 3) new) (simp add: newPoolObject_def MatchPool_def created_port_tags [OF a(2)])
    with r none show "?Q r w" by (auto simp: w intro!: upsert_snocI)
  qed auto
  show ?thesis
    unfolding getPool_def Let_def using update create by (intro triple_getState triple_option) auto
qed

text \<open>Addresses.\<close>

lemma allocate_step:
  assumes a: "broker (access l) = B" and c: "lbClass s = Some c"
  shows "triple (atW s l v) allocateResources
    (\<lambda>allocated. \<lambda>(s', l', b). l' = l \<and> s' = s\<lparr>ipAddress := ipAddress s'\<rparr> \<and> ipAddress s' \<noteq> '''' \<and>
       (ipAddress s \<noteq> '''' \<longrightarrow> ipAddress s' = ipAddress s) \<and>
       (\<exists>al. allocation c allocated (ipAddress s') v (v\<lparr>v_allocs := al\<rparr>) \<and> at (v\<lparr>v_allocs := al\<rparr>) b)) (\<lambda>_. atW s l v)"
    (is "triple _ _ ?Q ?E")
proof -
  have alloc: "triple (atW s l v) (callAccess (\<lambda>a. AllocateExternalIPAddress a (ipPoolID c)))
      (\<lambda>ip. \<lambda>(s', l', b). s' = s \<and> l' = l \<and> (\<exists>as. v_allocs v (ipPoolID c) = Some as \<and> ip \<notin> as \<and> ip \<noteq> '''' \<and>
         at (v\<lparr>v_allocs := (v_allocs v)(ipPoolID c \<mapsto> insert ip as)\<rparr>) b)) ?E"
    by (rule triple_callAccess_at, rule triple_post [OF allocate_ip [OF a]]) auto
  have "triple (atW s l v) (bindIO (callAccess (\<lambda>a. AllocateExternalIPAddress a (ipPoolID c))) (\<lambda>address.
       bindIO (putState (\<lambda>s. s\<lparr>ipAddress := address\<rparr>)) (\<lambda>_. ret True))) ?Q ?E" if "ipAddress s = ''''"
    by (rule triple_bind [OF alloc], unfold putState_def, rule tripleI)
      (use that in \<open>fastforce simp: io_defs allocation_def\<close>)
  moreover have "triple (atW s l v) (ret False) ?Q ?E" if "ipAddress s \<noteq> ''''"
    using that by (intro triple_ret) (auto simp: allocation_def intro!: exI [of _ "v_allocs v"])
  ultimately show ?thesis
    unfolding allocateResources_def by (intro triple_getState triple_if triple_classOf [OF c]) auto
qed

lemma release_step:
  assumes a: "broker (access l) = B" and c: "ipAddress s \<noteq> '''' \<longrightarrow> lbClass s \<noteq> None"
  shows "triple (atW s l v) releaseResources (\<lambda>_. atW s l (released s v)) (\<lambda>_. atW s l v)"
proof (cases "ipAddress s = ''''")
  case True
  then have "released s v = v" by (auto simp: released_def split: option.split)
  with True show ?thesis
    unfolding releaseResources_def by (intro triple_getState triple_if triple_ret) auto
next
  case False
  with c obtain c where c: "lbClass s = Some c" by auto
  have ask: "triple (atW s l v) (callAccess (\<lambda>a. IsAllocatedExternalIPAddress a (ipPoolID c) (ipAddress s)))
      (\<lambda>r w. (r \<longleftrightarrow> (\<exists>as. v_allocs v (ipPoolID c) = Some as \<and> ipAddress s \<in> as)) \<and> atW s l v w) (\<lambda>_. atW s l v)"
    by (rule triple_callAccess_at, rule triple_post [OF is_allocated_ip [OF a]]) auto
  have release: "triple (atW s l v) (callAccess (\<lambda>a. ReleaseExternalIPAddress a (ipPoolID c) (ipAddress s)))
      (\<lambda>_. atW s l (released s v)) (\<lambda>_. atW s l v)"
    by (rule triple_callAccess_at, rule triple_post [OF release_ip [OF a]])
      (use False c in \<open>auto simp: released_def\<close>)
  have "released s v = v" if "\<not> (\<exists>as. v_allocs v (ipPoolID c) = Some as \<and> ipAddress s \<in> as)"
    using that c by (auto simp: released_def fun_upd_idem split: option.split)
  then have act: "triple (\<lambda>w. (r \<longleftrightarrow> (\<exists>as. v_allocs v (ipPoolID c) = Some as \<and> ipAddress s \<in> as)) \<and> atW s l v w)
      (if r then callAccess (\<lambda>a. ReleaseExternalIPAddress a (ipPoolID c) (ipAddress s)) else ret ())
      (\<lambda>_. atW s l (released s v)) (\<lambda>_. atW s l v)" for r
    by (intro triple_pure_pre triple_if release triple_ret) auto
  from False show ?thesis
    unfolding releaseResources_def
    by (intro triple_getState triple_if [where P = "atW s l v"] triple_classOf [OF c] triple_bind [OF ask act]) simp
qed

text \<open>After a failure, an address that was allocated for the new server is released again, or stays allocated.\<close>

lemma rollback_step:
  assumes a: "broker (access l) = B" and c: "lbClass s = Some c"
    and al: "allocation c allocated (ipAddress s) v v'" and kept: "others_kept tg v v'"
  shows "triple (atW s l v') (if allocated then loggedReleaseResources else ret ())
    (\<lambda>_. \<lambda>(s', l', b). s' = s \<and> l' = l \<and> (\<exists>v''. at v'' b \<and> safe tg v v'')) E"
    (is "triple _ _ ?Q _")
proof -
  have same: "safe tg v v'" using al kept by (simp add: safe_def allocation_kept)
  have rel: "safe tg v (released s v')" if allocated
    using that released_allocation [of c "ipAddress s" v v' s] al c kept by (simp add: safe_def addresses_kept_same)
  have "triple (atW s l v') loggedReleaseResources ?Q E" if allocated
    unfolding loggedReleaseResources_def
    by (rule triple_bind [where R = "\<lambda>_. ?Q ()"], rule triple_try, rule triple_post [OF release_step [OF a]])
      (use c same rel that in \<open>auto intro!: triple_ret\<close>)
  with same show ?thesis by (intro triple_if triple_ret) auto
qed

lemma throw_after:
  assumes "triple P f (\<lambda>_. R) (\<lambda>_. R)"
  shows "triple P (bindIO f (\<lambda>_. throw err)) Q (\<lambda>_. R)"
  by (rule triple_bind [OF assms]) (rule triple_throw)

abbreviation "rolledBack s l tg v \<equiv> \<lambda>(s', l', b). s' = s \<and> l' = l \<and> (\<exists>v'. at v' b \<and> safe tg v v')"

lemma undo_step:
  assumes a: "broker (access l) = B" and c: "lbClass s = Some c"
    and al: "allocation c allocated (ipAddress s) v v'" and kept: "others_kept tg v v'"
    and x: "v_servers v' k = Some x" "checkTags (vs_Tags x) tg"
  shows "triple (atW s l v') (bindIO (tryIO (callAccess (\<lambda>a. DeleteVirtualServer a k))) (\<lambda>_.
      bindIO (if allocated then loggedReleaseResources else ret ()) (\<lambda>_. throw err))) Q (\<lambda>_. rolledBack s l tg v)"
proof -
  let ?v = "v'\<lparr>v_servers := (v_servers v')(k := None)\<rparr>"
  have "others_kept tg v ?v" using kept x by (intro others_kept_server) auto
  moreover have "allocation c allocated (ipAddress s) v ?v" using al by (simp add: allocation_def)
  ultimately have undo: "triple (atW s l u) (bindIO (if allocated then loggedReleaseResources else ret ()) (\<lambda>_. throw err))
      Q (\<lambda>_. rolledBack s l tg v)" if "u = v' \<or> u = ?v" for u
    using that al kept by (intro throw_after rollback_step [OF a c]) auto
  have del: "triple (atW s l v') (tryIO (callAccess (\<lambda>a. DeleteVirtualServer a k)))
      (\<lambda>_ w. atW s l v' w \<or> atW s l ?v w) (\<lambda>_. rolledBack s l tg v)"
    by (rule triple_try, rule triple_callAccess_at, rule triple_post [OF delete_virtual_server [OF a]]) auto
  show ?thesis
    by (rule triple_bind [OF del]) (use undo in \<open>fastforce simp: triple_def\<close>)
qed

abbreviation "errW s l v \<equiv> \<lambda>(s', l', b). access l' = access l \<and> lbClass s' = lbClass s \<and> service s' = service s \<and>
  (\<exists>v'. at v' b \<and> safe (T s l) v v')"

lemma add_attached:
  assumes a: "broker (access l) = B" and kept: "others_kept tg v v2" "addresses_kept v v2"
    and v2: "v_servers v2 = (v_servers v)(vs_Id x \<mapsto> x)" "v_pools v2 = v_pools v" "v_monitors v2 = v_monitors v"
      "attached v2 = attached v" and x: "v_servers v (vs_Id x) = None"
  shows "triple (atW s l v2) (onSnd (addVirtualServerToLoadBalancerService cl (vs_Id x)))
     (\<lambda>_. \<lambda>(s', l', b). s' = s \<and> access l' = access l \<and> (\<exists>v'. at v' b \<and> serverAdded x v v'))
     (\<lambda>_. \<lambda>(s', l', b). s' = s \<and> access l' = access l \<and>
        (\<exists>v3. at v3 b \<and> others_kept tg v v3 \<and> v_servers v3 = v_servers v2 \<and> v_allocs v3 = v_allocs v2))"
    (is "triple _ _ ?Q ?E")
proof (rule triple_onSnd_at, rule triple_post [OF add_server [OF a]])
  have new: "attached (with_service v2 svc) = attached v" "addresses_kept v (with_service v2 svc)"
    if "v_services v2 (svc_Id svc) = None" "svc_VirtualServerIds svc = []" for svc
    using attached_with_service [OF that] v2(4) kept(2) by (simp_all add: with_service_def addresses_kept_def)
  fix u :: unit and w :: "'s lbService \<times> 's"
  assume "(\<exists>svc. v_services v2 (svc_Id svc) = Some svc \<and> atL l (add_to v2 (vs_Id x) svc) w) \<or>
     (\<exists>svc. managed l \<and> v_services v2 (svc_Id svc) = None \<and> svc_VirtualServerIds svc = [] \<and>
        atL (l\<lparr>lbServiceID := svc_Id svc\<rparr>) (add_to (with_service v2 svc) (vs_Id x) svc) w)"
  then show "?Q u (s, w)"
  proof (elim disjE exE conjE)
    fix svc assume "v_services v2 (svc_Id svc) = Some svc" "atL l (add_to v2 (vs_Id x) svc) w"
    with serverAdded_add_to [of v2 svc v x] v2 kept(2) x show ?thesis by auto
  next
    fix svc assume svc: "v_services v2 (svc_Id svc) = None" "svc_VirtualServerIds svc = []"
      "atL (l\<lparr>lbServiceID := svc_Id svc\<rparr>) (add_to (with_service v2 svc) (vs_Id x) svc) w"
    from serverAdded_add_to [of "with_service v2 svc" svc v x] new [OF svc(1,2)] v2 x
    have "serverAdded x v (add_to (with_service v2 svc) (vs_Id x) svc)" by (simp add: with_service_def)
    with svc(3) show ?thesis by auto
  qed
next
  fix e and w :: "'s lbService \<times> 's"
  assume "atL l v2 w \<or> (\<exists>svc. managed l \<and> v_services v2 (svc_Id svc) = None \<and> svc_VirtualServerIds svc = [] \<and>
        atL (l\<lparr>lbServiceID := svc_Id svc\<rparr>) (with_service v2 svc) w)"
  then show "?E e (s, w)"
  proof (elim disjE exE conjE)
    fix svc assume svc: "v_services v2 (svc_Id svc) = None" "svc_VirtualServerIds svc = []"
      "atL (l\<lparr>lbServiceID := svc_Id svc\<rparr>) (with_service v2 svc) w"
    have "others_kept tg v (with_service v2 svc)"
      using kept(1) attached_with_service [OF svc(1,2)]
      by (elim others_kept_attached) (simp_all add: with_service_def)
    with svc(3) show ?thesis by (force simp: with_service_def)
  qed (use kept(1) in auto)
qed

lemma attach_step:
  assumes a: "broker (access l) = B" and c: "lbClass s = Some c"
    and al: "allocation c allocated (ipAddress s) v v2" and kept: "others_kept tg v v2"
    and v2: "v_servers v2 = (v_servers v)(vs_Id x \<mapsto> x)" "v_pools v2 = v_pools v" "v_monitors v2 = v_monitors v"
      "attached v2 = attached v" and x: "v_servers v (vs_Id x) = None" "checkTags (vs_Tags x) tg"
  shows "triple (atW s l v2)
     (bindIO (tryIO (onSnd (addVirtualServerToLoadBalancerService cl (vs_Id x)))) (\<lambda>added.
         case added of
           Inl err \<Rightarrow>
             bindIO (tryIO (callAccess (\<lambda>a. DeleteVirtualServer a (vs_Id x)))) (\<lambda>_.
             bindIO (if allocated then loggedReleaseResources else ret ()) (\<lambda>_. throw err))
         | Inr _ \<Rightarrow> ret x))
     (\<lambda>r. \<lambda>(s', l', b). r = x \<and> s' = s \<and> access l' = access l \<and> (\<exists>v'. at v' b \<and> serverAdded x v v'))
     (\<lambda>_. \<lambda>(s', l', b). s' = s \<and> access l' = access l \<and> (\<exists>v'. at v' b \<and> safe tg v v'))"
    (is "triple _ _ ?Q ?E")
proof -
  let ?bad = "\<lambda>(s', l' :: 's lbService, b). s' = s \<and> access l' = access l \<and>
      (\<exists>v3. at v3 b \<and> others_kept tg v v3 \<and> v_servers v3 = v_servers v2 \<and> v_allocs v3 = v_allocs v2)"
  let ?undo = "\<lambda>err. bindIO (tryIO (callAccess (\<lambda>a. DeleteVirtualServer a (vs_Id x)))) (\<lambda>_.
             bindIO (if allocated then loggedReleaseResources else ret ()) (\<lambda>_. throw err))"
  have add: "triple (atW s l v2) (tryIO (onSnd (addVirtualServerToLoadBalancerService cl (vs_Id x))))
      (\<lambda>r w. case r of Inr _ \<Rightarrow> ?Q x w | Inl _ \<Rightarrow> ?bad w) ?E"
    by (rule triple_try, rule triple_post [OF add_attached [OF a kept allocation_kept [OF al] v2 x(1)]]) auto
  have undo: "triple ?bad (?undo err) ?Q ?E" for err
  proof (rule tripleI)
    fix w assume "?bad w"
    then obtain l' b v3 where w: "w = (s, l', b)" "access l' = access l" "at v3 b" "others_kept tg v v3"
      "v_servers v3 = v_servers v2" "v_allocs v3 = v_allocs v2" by auto
    from al w(6) have "allocation c allocated (ipAddress s) v v3" by (simp add: allocation_def)
    from undo_step [OF _ c this w(4), of l' "vs_Id x" x err ?Q] a x(2) w(2,5) v2(1)
    have "triple (atW s l' v3) (?undo err) ?Q (\<lambda>_. rolledBack s l' tg v)" by simp
    from tripleD [OF this, of w] w show "post ?Q ?E (?undo err w)" by (auto elim!: post_mono)
  qed
  show ?thesis
    by (rule triple_bind [OF add]) (use undo in \<open>auto split: sum.split intro!: triple_ret\<close>)
qed

abbreviation "classTagsOk c \<equiv> Scope ` set (class_Tags c) \<inter> {ScopeOwner, ScopeCluster, ScopeService} = {}"

text \<open>
  The new virtual server: it belongs to the service, serves the mapping with the pool, and
  has the address of the state, which was allocated if there was none.
\<close>

abbreviation "serverOk s l m pid x ip \<equiv>
  ownServer s l x \<and> MatchVirtualServer m x \<and> MatchNodePort m x \<and> vs_PoolId x = pid \<and> vs_IpAddress x = ip"

abbreviation "serverCreated s l m pid v \<equiv> \<lambda>x. \<lambda>(s', l', b). access l' = access l \<and>
  s' = s\<lparr>servers := servers s @ [x], ipAddress := ipAddress s'\<rparr> \<and> ipAddress s' \<noteq> '''' \<and>
  (ipAddress s \<noteq> '''' \<longrightarrow> ipAddress s' = ipAddress s) \<and> serverOk s l m pid x (ipAddress s') \<and>
  (\<exists>v'. at v' b \<and> serverAdded x v v')"

abbreviation "afterCreate s allocated created \<equiv> case created of
    Inl err \<Rightarrow> bindIO (if allocated then loggedReleaseResources else ret ()) (\<lambda>_. throw err)
  | Inr x \<Rightarrow> bindIO (putState (\<lambda>s. s\<lparr>servers := servers s @ [x]\<rparr>)) (\<lambda>_.
      bindIO (tryIO (onSnd (addVirtualServerToLoadBalancerService (clusterName s) (vs_Id x)))) (\<lambda>added.
      case added of
        Inl err \<Rightarrow> bindIO (tryIO (callAccess (\<lambda>a. DeleteVirtualServer a (vs_Id x)))) (\<lambda>_.
          bindIO (if allocated then loggedReleaseResources else ret ()) (\<lambda>_. throw err))
      | Inr _ \<Rightarrow> ret x))"

lemma create_attach_step:
  assumes a: "broker (access l) = B" "access_wf (access l)" and c: "lbClass s = Some c" "classTagsOk c"
    and s1: "s1 = s\<lparr>ipAddress := ip\<rparr>" "ip \<noteq> ''''" "ipAddress s \<noteq> '''' \<longrightarrow> ip = ipAddress s"
    and v1: "v1 = v\<lparr>v_allocs := al\<rparr>" "allocation c allocated ip v v1"
  shows "triple (atW s1 l v1) (bindIO (tryIO (callAccess (\<lambda>a. CreateVirtualServer a (clusterName s1) (objectName s1)
      (class_Tags c) (ipAddress s1) m pid))) (afterCreate s1 allocated)) (serverCreated s l m pid v) (\<lambda>_. errW s l v)"
    (is "triple _ _ ?Q ?E")
proof -
  let ?v2 = "\<lambda>x. v1\<lparr>v_servers := (v_servers v1)(vs_Id x \<mapsto> x)\<rparr>"
  let ?new = "\<lambda>x. v_servers v (vs_Id x) = None \<and> serverOk s l m pid x ip"
  have kept: "others_kept (T s l) v v1" by (simp add: v1(1))
  have create: "triple (atW s1 l v1) (tryIO (callAccess (\<lambda>a. CreateVirtualServer a (clusterName s1) (objectName s1)
      (class_Tags c) (ipAddress s1) m pid)))
      (\<lambda>r w. case r of Inr x \<Rightarrow> ?new x \<and> atW s1 l (?v2 x) w | Inl _ \<Rightarrow> atW s1 l v1 w) ?E"
    by (rule triple_try, rule triple_callAccess_at, rule triple_post [OF create_virtual_server [OF a(1)]])
      (auto simp: v1(1) s1(1) created_tags [OF a(2) c(2)] newVirtualServerObject_def MatchVirtualServer_def
        MatchNodePort_def formatPort_def)
  have attach: "triple (atW s1 l (?v2 x)) (afterCreate s1 allocated (Inr x)) ?Q ?E" if x: "?new x" for x
    unfolding sum.case
  proof (rule triple_putState_bind, rule triple_post [OF attach_step])
    show "others_kept (T s l) v (?v2 x)" using x by (intro others_kept_server kept) (auto simp: v1(1))
    show "attached (?v2 x) = attached v" by (simp add: v1(1) attached_def fun_eq_iff)
    show "allocation c allocated (ipAddress (s1\<lparr>servers := servers s1 @ [x]\<rparr>)) v (?v2 x)"
      using v1(2) by (simp add: s1(1) allocation_def)
  qed (use x a c s1 in \<open>auto simp: v1(1) s1(1)\<close>)
  have fail: "triple (atW s1 l v1) (afterCreate s1 allocated (Inl err)) ?Q ?E" for err
    unfolding sum.case
    by (rule triple_post [OF throw_after [OF rollback_step [OF a(1) _ _ kept]]])
      (use c v1(2) in \<open>auto simp: s1(1)\<close>)
  have "triple (\<lambda>w. case r of Inr x \<Rightarrow> ?new x \<and> atW s1 l (?v2 x) w | Inl _ \<Rightarrow> atW s1 l v1 w)
      (afterCreate s1 allocated r) ?Q ?E" for r
    using fail attach by (cases r) (simp_all add: triple_pure_pre)
  then show ?thesis by (rule triple_bind [OF create])
qed

lemma create_server_step:
  assumes a: "broker (access l) = B" "access_wf (access l)" and c: "lbClass s = Some c" "classTagsOk c"
  shows "triple (atW s l v) (createVirtualServer m pid) (serverCreated s l m pid v) (\<lambda>_. errW s l v)"
    (is "triple _ _ ?Q ?E")
proof -
  let ?rest = "\<lambda>allocated. bindIO getState (\<lambda>s. bindIO classOf (\<lambda>c. bindIO (tryIO (callAccess (\<lambda>a.
      CreateVirtualServer a (clusterName s) (objectName s) (class_Tags c) (ipAddress s) m pid))) (afterCreate s allocated)))"
  have rest: "triple (\<lambda>(s', l', b). l' = l \<and> s' = s\<lparr>ipAddress := ipAddress s'\<rparr> \<and> ipAddress s' \<noteq> '''' \<and>
       (ipAddress s \<noteq> '''' \<longrightarrow> ipAddress s' = ipAddress s) \<and>
       (\<exists>al. allocation c allocated (ipAddress s') v (v\<lparr>v_allocs := al\<rparr>) \<and> at (v\<lparr>v_allocs := al\<rparr>) b))
      (?rest allocated) ?Q ?E" for allocated
  proof (rule tripleI, clarify)
    fix s1 b al assume h: "s1 = s\<lparr>ipAddress := ipAddress s1\<rparr>" "ipAddress s1 \<noteq> ''''"
      "ipAddress s \<noteq> '''' \<longrightarrow> ipAddress s1 = ipAddress s"
      "allocation c allocated (ipAddress s1) v (v\<lparr>v_allocs := al\<rparr>)" "at (v\<lparr>v_allocs := al\<rparr>) b"
    have "lbClass s1 = Some c" by (subst h(1)) (simp add: c)
    then have "triple (atW s1 l (v\<lparr>v_allocs := al\<rparr>)) (?rest allocated) ?Q ?E"
      using create_attach_step [OF a c h(1-3) refl h(4), of m pid] by (intro triple_getState triple_classOf) simp_all
    then show "post ?Q ?E (?rest allocated (s1, l, b))" by (rule tripleD) (simp add: h(5))
  qed
  show ?thesis
    unfolding createVirtualServer_def by (rule triple_bind [OF triple_post [OF allocate_step [OF a(1) c(1)]] rest]) auto
qed

lemma update_server_step:
  assumes a: "broker (access l) = B" and x: "v_servers v (vs_Id x) = Some x"
  shows "triple (atW s l v) (updateVirtualServer x m pid)
    (\<lambda>r. \<lambda>(s', l', b). s' = s \<and> l' = l \<and> at (v\<lparr>v_servers := (v_servers v)(vs_Id x \<mapsto> r)\<rparr>) b \<and>
       r = x\<lparr>vs_DefaultPoolMemberPort := formatPort (NodePort m), vs_PoolId := pid\<rparr>) (\<lambda>_. atW s l v)"
proof -
  let ?r = "x\<lparr>vs_DefaultPoolMemberPort := formatPort (NodePort m), vs_PoolId := pid\<rparr>"
  have upd: "triple (atW s l v) (callAccess (\<lambda>a. UpdateVirtualServer a ?r))
      (\<lambda>_. atW s l (v\<lparr>v_servers := (v_servers v)(vs_Id x \<mapsto> ?r)\<rparr>)) (\<lambda>_. atW s l v)"
    by (rule triple_callAccess_at, rule triple_post [OF update_virtual_server [OF a]]) auto
  have "(v_servers v)(vs_Id x \<mapsto> x) = v_servers v" using x by auto
  then show ?thesis
    unfolding updateVirtualServer_def Let_def
    by (intro triple_if triple_ret triple_bind [OF upd]) (auto simp: MatchNodePort_def)
qed

lemma get_server:
  assumes a: "broker (access l) = B" "access_wf (access l)" and c: "lbClass s = Some c" "classTagsOk c"
    and mirror: "mirrors vs_Id (ownServer s l) sel (servers s) (v_servers v)"
  shows "triple (atW s l v) (getVirtualServer m pid)
    (\<lambda>x. \<lambda>(s', l', b). access l' = access l \<and> s' = s\<lparr>servers := servers s', ipAddress := ipAddress s'\<rparr> \<and>
       (\<exists>v'. at v' b \<and> v_pools v' = v_pools v \<and> v_monitors v' = v_monitors v \<and>
          serverStep (T s l) m pid s v x s' v')) (\<lambda>_. errW s l v)"
    (is "triple _ _ ?Q ?E")
proof -
  let ?find = "findIndex (MatchVirtualServer m) (servers s)"
  let ?update = "\<lambda>i. bindIO (updateVirtualServer (servers s ! i) m pid) (\<lambda>x.
      bindIO (putState (\<lambda>s. s\<lparr>servers := (servers s)[i := x]\<rparr>)) (\<lambda>_. ret x))"
  have update: "triple (atW s l v) (?update i) ?Q ?E" if "?find = Some i" for i
  proof -
    let ?x = "servers s ! i"
    let ?r = "?x\<lparr>vs_DefaultPoolMemberPort := formatPort (NodePort m), vs_PoolId := pid\<rparr>"
    let ?v = "v\<lparr>v_servers := (v_servers v)(vs_Id ?x \<mapsto> ?r)\<rparr>"
    from findIndex_Some [OF that] have i: "i < length (servers s)" "MatchVirtualServer m ?x" by auto
    then have x: "v_servers v (vs_Id ?x) = Some ?x \<and> ownServer s l ?x"
      using mirrors_view [OF mirror] by simp
    have "upsert vs_Id (ownServer s l) (MatchVirtualServer m) (servers s) (v_servers v) ?r ((servers s)[i := ?r]) (v_servers ?v)"
      using i x by (intro upsert_updateI [where i = i]) (auto simp: MatchVirtualServer_def)
    then have "serverStep (T s l) m pid s v ?r (s\<lparr>servers := (servers s)[i := ?r]\<rparr>) ?v"
      using x by (auto simp: serverStep_def MatchNodePort_def attached_def intro: addresses_kept_same)
    then show ?thesis
      by (intro triple_bind [OF triple_post [OF update_server_step [OF a(1) conjunct1 [OF x]]]] tripleI, unfold putState_def)
        (auto simp: io_defs)
  qed
  have create: "triple (atW s l v) (createVirtualServer m pid) ?Q ?E" if none: "?find = None"
  proof (rule triple_post [OF create_server_step [OF a c]])
    fix x :: LbVirtualServer and w :: "'s world"
    obtain s' l' b where w: "w = (s', l', b)" by (cases w) auto
    assume "serverCreated s l m pid v x w"
    then obtain v' where h: "access l' = access l" "s' = s\<lparr>servers := servers s @ [x], ipAddress := ipAddress s'\<rparr>"
        "ipAddress s' \<noteq> ''''" "ipAddress s \<noteq> '''' \<longrightarrow> ipAddress s' = ipAddress s"
        "serverOk s l m pid x (ipAddress s')" "at v' b" "serverAdded x v v'" by (auto simp: w)
    have servers: "servers s' = servers s @ [x]" by (subst h(2)) simp
    then have "upsert vs_Id (ownServer s l) (MatchVirtualServer m) (servers s) (v_servers v) x (servers s') (v_servers v')"
      using h(5,7) none by (intro upsert_snocI) (auto simp: serverAdded_def)
    with h(3-5,7) have "serverStep (T s l) m pid s v x s' v'" by (auto simp: serverStep_def serverAdded_def)
    moreover have "v_pools v' = v_pools v" "v_monitors v' = v_monitors v" using h(7) by (simp_all add: serverAdded_def)
    ultimately show "?Q x w" using h(1,2,6) servers by (auto simp: w)
  qed auto
  show ?thesis
    unfolding getVirtualServer_def using update create by (intro triple_getState triple_option) auto
qed

text \<open>A port, as the composition of the three steps.\<close>

end

abbreviation "monitorIds r \<equiv> (case r of None \<Rightarrow> [] | Some y \<Rightarrow> [mon_Id y])"

definition afterMonitor :: "tag list \<Rightarrow> Mapping \<Rightarrow> state \<Rightarrow> nsxt_view \<Rightarrow> LbTcpMonitor option \<Rightarrow> state \<Rightarrow> nsxt_view \<Rightarrow> bool" where
  "afterMonitor tg m s v r s1 v1 \<longleftrightarrow> s1 = s\<lparr>tcpMonitors := tcpMonitors s1\<rparr> \<and> v1 = v\<lparr>v_monitors := v_monitors v1\<rparr> \<and>
     monitorPart tg m (monitorIds r) s v s1 v1"

definition afterPool ::
  "tag list \<Rightarrow> Mapping \<Rightarrow> state \<Rightarrow> nsxt_view \<Rightarrow> LbTcpMonitor option \<Rightarrow> LbPool \<Rightarrow> state \<Rightarrow> nsxt_view \<Rightarrow> bool" where
  "afterPool tg m s v r x s2 v2 \<longleftrightarrow> s2 = s\<lparr>tcpMonitors := tcpMonitors s2, pools := pools s2\<rparr> \<and>
     v2 = v\<lparr>v_monitors := v_monitors v2, v_pools := v_pools v2\<rparr> \<and>
     monitorPart tg m (monitorIds r) s v s2 v2 \<and> poolPart tg m (monitorIds r) x s v s2 v2"

lemma afterMonitor_fields:
  assumes "afterMonitor tg m s v r s1 v1"
  shows "sameJob s s1" "servers s1 = servers s" "pools s1 = pools s" "ipAddress s1 = ipAddress s"
    "v_servers v1 = v_servers v" "v_services v1 = v_services v" "v_allocs v1 = v_allocs v" "v_pools v1 = v_pools v"
proof -
  have "s1 = s\<lparr>tcpMonitors := tcpMonitors s1\<rparr>" "v1 = v\<lparr>v_monitors := v_monitors v1\<rparr>"
    using assms by (auto simp: afterMonitor_def)
  then obtain ms mm where "s1 = s\<lparr>tcpMonitors := ms\<rparr>" "v1 = v\<lparr>v_monitors := mm\<rparr>" by blast
  then show "sameJob s s1" "servers s1 = servers s" "pools s1 = pools s" "ipAddress s1 = ipAddress s"
    "v_servers v1 = v_servers v" "v_services v1 = v_services v" "v_allocs v1 = v_allocs v" "v_pools v1 = v_pools v"
    by (simp_all add: sameJob_def)
qed

lemma afterPool_fields:
  assumes "afterPool tg m s v r x s2 v2"
  shows "sameJob s s2" "servers s2 = servers s" "ipAddress s2 = ipAddress s"
    "v_servers v2 = v_servers v" "v_services v2 = v_services v" "v_allocs v2 = v_allocs v"
proof -
  have "s2 = s\<lparr>tcpMonitors := tcpMonitors s2, pools := pools s2\<rparr>" "v2 = v\<lparr>v_monitors := v_monitors v2, v_pools := v_pools v2\<rparr>"
    using assms by (auto simp: afterPool_def)
  then obtain ms ps mm pm where "s2 = s\<lparr>tcpMonitors := ms, pools := ps\<rparr>" "v2 = v\<lparr>v_monitors := mm, v_pools := pm\<rparr>" by blast
  then show "sameJob s s2" "servers s2 = servers s" "ipAddress s2 = ipAddress s"
    "v_servers v2 = v_servers v" "v_services v2 = v_services v" "v_allocs v2 = v_allocs v"
    by (simp_all add: sameJob_def)
qed

context nsxt_backend
begin

lemma process_monitor:
  assumes a: "broker (access l) = B" "access_wf (access l)" and sync: "synced (T s l) s v"
  shows "triple (atW s l v) (getTCPMonitor m)
    (\<lambda>r. \<lambda>(s', l', b). \<exists>v'. at v' b \<and> l' = l \<and> afterMonitor (T s l) m s v r s' v') (\<lambda>_. errW s l v)"
proof -
  have mirror: "mirrors mon_Id (ownMonitor s l) tcpTyped (tcpMonitors s) (v_monitors v)"
    using sync by (simp add: synced_def)
  have none: "afterMonitor (T s l) m s v None s v" if "Protocol m \<noteq> ProtocolTCP"
    using that by (simp add: afterMonitor_def)
  have some: "afterMonitor (T s l) m s v (Some x) s' (v\<lparr>v_monitors := (v_monitors v)(mon_Id x \<mapsto> x)\<rparr>)"
    if "Protocol m = ProtocolTCP" "s' = s\<lparr>tcpMonitors := tcpMonitors s'\<rparr>" "monitorStep s l m x (tcpMonitors s') v" for x s'
    using that by (auto simp: afterMonitor_def)
  show ?thesis
    by (rule triple_post [OF get_monitor [OF a mirror]]) (auto split: if_splits intro: none some)
qed

lemma process_pool:
  assumes a: "broker (access l) = B" "access_wf (access l)" and sync: "synced (T s l) s v"
    and h: "afterMonitor (T s l) m s v r s1 v1"
  shows "triple (atW s1 l v1) (getPool ord m r)
    (\<lambda>x. \<lambda>(s', l', b). \<exists>v'. at v' b \<and> l' = l \<and> afterPool (T s l) m s v r x s' v') (\<lambda>_. errW s l v)"
proof -
  note f = afterMonitor_fields [OF h]
  have job: "clusterName s1 = clusterName s" "objectName s1 = objectName s" "nodes s1 = nodes s" "lbClass s1 = lbClass s"
    "service s1 = service s" using f(1) by (auto simp: sameJob_def)
  from h have part: "monitorPart (T s l) m (monitorIds r) s v s1 v1" by (simp add: afterMonitor_def)
  have "safe (T s l) v v1" by (rule safe_parts [OF part]) (use sync f in \<open>auto simp: synced_def\<close>)
  moreover have mirror: "mirrors pool_Id (ownPool s1 l) (\<lambda>_. True) (pools s1) (v_pools v1)"
    using sync by (simp add: synced_def f job)
  moreover have "afterPool (T s l) m s v r x s' (v1\<lparr>v_pools := (v_pools v1)(pool_Id x \<mapsto> x)\<rparr>)"
    if "s' = s1\<lparr>pools := pools s'\<rparr>" "poolStep s1 l m (monitorIds r) x (pools s') v1" for x s'
  proof -
    from that(1) have "tcpMonitors s' = tcpMonitors s1" by (metis state.select_convs(7) state.surjective state.update_convs(6))
    moreover have "s' = s\<lparr>tcpMonitors := tcpMonitors s', pools := pools s'\<rparr>"
      using that(1) h calculation unfolding afterMonitor_def by (metis state.surjective state.update_convs(6,7))
    moreover have "v1 = v\<lparr>v_monitors := v_monitors v1\<rparr>" using h by (simp add: afterMonitor_def)
    ultimately show ?thesis using part that(2) unfolding afterPool_def by (simp add: f job)
  qed
  ultimately show ?thesis
    by (intro triple_post [OF get_pool [OF a mirror]]) (auto simp: job)
qed

lemma process_server:
  assumes a: "broker (access l) = B" "access_wf (access l)" and c: "lbClass s = Some c" "classTagsOk c"
    and sync: "synced (T s l) s v" and h: "afterPool (T s l) (NewMapping p) s v r x s2 v2"
  shows "triple (atW s2 l v2) (getVirtualServer (NewMapping p) (pool_Id x))
    (\<lambda>_. \<lambda>(s', l', b). \<exists>v'. at v' b \<and> access l' = access l \<and> portStep (T s l) p s v s' v') (\<lambda>_. errW s l v)"
proof -
  note f = afterPool_fields [OF h]
  have job: "clusterName s2 = clusterName s" "objectName s2 = objectName s" "nodes s2 = nodes s" "lbClass s2 = lbClass s"
    "service s2 = service s" using f(1) by (auto simp: sameJob_def)
  from h have part: "monitorPart (T s l) (NewMapping p) (monitorIds r) s v s2 v2"
    and pool: "poolPart (T s l) (NewMapping p) (monitorIds r) x s v s2 v2" by (simp_all add: afterPool_def)
  have safe: "safe (T s l) v v2"
    by (rule safe_parts [OF part _ upsert_foreign [OF conjunct1 [OF pool]]])
      (use sync f in \<open>auto simp: synced_def\<close>)
  have mirror: "mirrors vs_Id (ownServer s2 l) (\<lambda>_. True) (servers s2) (v_servers v2)"
    using sync by (simp add: synced_def f job)
  have step: "portStep (T s l) p s v s' v'"
    if s': "s' = s2\<lparr>servers := servers s', ipAddress := ipAddress s'\<rparr>" and v': "v_pools v' = v_pools v2" "v_monitors v' = v_monitors v2"
      and srv: "serverStep (T s l) (NewMapping p) (pool_Id x) s2 v2 y s' v'" for y s' v'
  proof -
    from s' have lists: "tcpMonitors s' = tcpMonitors s2" "pools s' = pools s2"
      by (metis state.select_convs(6,7) state.surjective state.update_convs(5,8))+
    have "s' = s\<lparr>tcpMonitors := tcpMonitors s', pools := pools s', servers := servers s', ipAddress := ipAddress s'\<rparr>"
      using s' h lists unfolding afterPool_def by (metis state.surjective state.update_convs(5-8))
    moreover have "serverStep (T s l) (NewMapping p) (pool_Id x) s v y s' v'"
      by (rule serverStep_cong [OF srv f(2-6)])
    moreover have "monitorPart (T s l) (NewMapping p) (monitorIds r) s v s' v'" using part unfolding lists v' .
    moreover have "poolPart (T s l) (NewMapping p) (monitorIds r) x s v s' v'" using pool unfolding lists v' .
    ultimately show ?thesis by (intro portStepI)
  qed
  show ?thesis
    by (rule triple_post [OF get_server [OF a _ c(2) mirror]])
      (use c(1) safe step in \<open>auto simp: job intro: safe_trans\<close>)
qed

lemma process_port:
  assumes a: "broker (access l) = B" "access_wf (access l)" and c: "lbClass s = Some c" "classTagsOk c"
    and sync: "synced (T s l) s v"
  shows "triple (atW s l v) (processPort ord p)
    (\<lambda>_. \<lambda>(s', l', b). \<exists>v'. at v' b \<and> access l' = access l \<and> portStep (T s l) p s v s' v') (\<lambda>_. errW s l v)"
  unfolding processPort_def Let_def
proof (rule triple_bind [OF process_monitor [OF a sync]], rule triple_world, elim conjE)
  fix r s1 l1 v1 assume "l1 = l" and m: "afterMonitor (T s l) (NewMapping p) s v r s1 v1"
  have "triple (atW s1 l v1) (bindIO (getPool ord (NewMapping p) r) (\<lambda>pool. bindIO (getVirtualServer (NewMapping p) (pool_Id pool)) (\<lambda>_. ret ())))
      (\<lambda>_. \<lambda>(s', l', b). \<exists>v'. at v' b \<and> access l' = access l \<and> portStep (T s l) p s v s' v') (\<lambda>_. errW s l v)"
  proof (rule triple_bind [OF process_pool [OF a sync m]], rule triple_world, elim conjE)
    fix x s2 l2 v2 assume l2: "l2 = l" and p: "afterPool (T s l) (NewMapping p) s v r x s2 v2"
    show "triple (atW s2 l2 v2) (bindIO (getVirtualServer (NewMapping p) (pool_Id x)) (\<lambda>_. ret ()))
      (\<lambda>_. \<lambda>(s', l', b). \<exists>v'. at v' b \<and> access l' = access l \<and> portStep (T s l) p s v s' v') (\<lambda>_. errW s l v)"
      unfolding l2 by (rule triple_bind [OF process_server [OF a c sync p]]) (rule triple_ret)
  qed
  then show "triple (atW s1 l1 v1) (bindIO (getPool ord (NewMapping p) r) (\<lambda>pool. bindIO (getVirtualServer (NewMapping p) (pool_Id pool)) (\<lambda>_. ret ())))
      (\<lambda>_. \<lambda>(s', l', b). \<exists>v'. at v' b \<and> access l' = access l \<and> portStep (T s l) p s v s' v') (\<lambda>_. errW s l v)"
    unfolding \<open>l1 = l\<close> .
qed

end

text \<open>The loop over the ports.\<close>

definition portsDone :: "tag list \<Rightarrow> ServicePort list \<Rightarrow> state \<Rightarrow> nsxt_view \<Rightarrow> state \<Rightarrow> nsxt_view \<Rightarrow> bool" where
  "portsDone tg ps s0 v0 s v \<longleftrightarrow> sameJob s0 s \<and> synced tg s v \<and> safe tg v0 v \<and>
     ((\<forall>q \<in> set (pools s0). distinctMembers q) \<longrightarrow> (\<forall>q \<in> set (pools s). distinctMembers q)) \<and>
     (oneAddress s0 \<longrightarrow> oneAddress s) \<and> (allAttached s0 v0 \<longrightarrow> allAttached s v) \<and> (\<forall>q. soleLists s0 q \<longrightarrow> soleLists s q) \<and>
     (ps = [] \<or> ipAddress s0 \<noteq> '''' \<longrightarrow> ipAddress s = ipAddress s0) \<and>
     (distinct (map portKey ps) \<longrightarrow> (\<forall>p \<in> set ps. served (\<forall>q \<in> set (pools s0). distinctMembers q) s p))"

lemma portsDone_snoc:
  assumes "portsDone tg ps s0 v0 s v" "portStep tg p s v s' v'"
  shows "portsDone tg (ps @ [p]) s0 v0 s' v'"
proof -
  let ?D = "\<forall>q \<in> set (pools s0). distinctMembers q"
  from assms(1) have before: "sameJob s0 s" "synced tg s v" "safe tg v0 v" "?D \<longrightarrow> (\<forall>q \<in> set (pools s). distinctMembers q)"
     "oneAddress s0 \<longrightarrow> oneAddress s" "allAttached s0 v0 \<longrightarrow> allAttached s v"
     "ps = [] \<or> ipAddress s0 \<noteq> '''' \<longrightarrow> ipAddress s = ipAddress s0"
     "distinct (map portKey ps) \<longrightarrow> (\<forall>p \<in> set ps. served ?D s p)" "\<forall>q. soleLists s0 q \<longrightarrow> soleLists s q"
    unfolding portsDone_def by blast+
  note step = assms(2) and sync = before(2)
  have "ipAddress s \<noteq> '''' \<longrightarrow> ipAddress s' = ipAddress s"
    using step by (auto elim!: portStepE simp: serverStep_def)
  with before(7) have "ps @ [p] = [] \<or> ipAddress s0 \<noteq> '''' \<longrightarrow> ipAddress s' = ipAddress s0" by simp
  moreover have "served ?D s' q" if "distinct (map portKey (ps @ [p]))" "q \<in> set (ps @ [p])" for q
  proof (cases "q \<in> set ps")
    case True
    with that have "portKey q \<noteq> portKey p" by (fastforce simp: image_iff)
    with portStep_served_other [OF step sync] True that before(8) show ?thesis by simp
  next
    case False
    with that have "q = p" by simp
    with portStep_served [OF step sync before(4)] show ?thesis by simp
  qed
  moreover have "?D \<longrightarrow> (\<forall>q \<in> set (pools s'). distinctMembers q)" using before(4) portStep_distinct [OF step sync] by blast
  ultimately show ?thesis
    using sameJob_trans [OF before(1) portStep_job [OF step]] portStep_safe [OF step sync] safe_trans [OF before(3)]
      before(5,6,9) portStep_address [OF step sync] portStep_sole [OF step sync]
    unfolding portsDone_def by blast
qed

context nsxt_backend
begin

lemma process_ports:
  assumes a: "broker (access l) = B" "access_wf (access l)" and c: "lbClass s = Some c" "classTagsOk c"
    and sync: "synced (T s l) s v"
  shows "triple (atW s l v) (forIO (processPort ord) ps)
    (\<lambda>_. \<lambda>(s', l', b). \<exists>v'. at v' b \<and> access l' = access l \<and> portsDone (T s l) ps s v s' v') (\<lambda>_. errW s l v)"
proof -
  let ?I = "\<lambda>ys. \<lambda>(s', l', b). \<exists>v'. at v' b \<and> access l' = access l \<and> portsDone (T s l) ys s v s' v'"
  have step: "triple (?I ys) (processPort ord y) (\<lambda>_. ?I (ys @ [y])) (\<lambda>_. errW s l v)" for ys y
  proof (rule triple_world, elim conjE)
    fix s1 v1 and l1 :: "'s lbService" assume l1: "access l1 = access l" and d: "portsDone (T s l) ys s v s1 v1"
    then have job: "T s1 l1 = T s l" "lbClass s1 = Some c" "service s1 = service s" and "synced (T s1 l1) s1 v1" "safe (T s l) v v1"
      using c(1) by (auto simp: portsDone_def sameJob_def)
    with a c(2) l1 show "triple (atW s1 l1 v1) (processPort ord y) (\<lambda>_. ?I (ys @ [y])) (\<lambda>_. errW s l v)"
      by (intro triple_post [OF process_port [where c = c]])
        (auto simp: c(1) intro: portsDone_snoc [OF d] safe_trans)
  qed
  have "triple (?I []) (forIO (processPort ord) ps) (\<lambda>_. ?I ps) (\<lambda>_. errW s l v)" by (rule triple_for [OF step])
  then show ?thesis by (rule triple_pre) (use sync in \<open>auto simp: portsDone_def\<close>)
qed

end

end
