(* ===== verification/Reconcile.thy ===== *)
theory Reconcile
  imports Reconcile_Steps
begin

text \<open>
  The cleanup loops, and what \<open>Process\<close> establishes as a whole.
\<close>

text \<open>Cleanup.\<close>

definition orphanServer :: "ServicePort list \<Rightarrow> LbVirtualServer \<Rightarrow> bool" where
  "orphanServer ps x \<longleftrightarrow> \<not> (\<exists>p \<in> set ps. MatchVirtualServer (NewMapping p) x)"

definition orphanPool :: "ServicePort list \<Rightarrow> string set \<Rightarrow> LbPool \<Rightarrow> bool" where
  "orphanPool ps ids x \<longleftrightarrow> \<not> (\<exists>p \<in> set ps. MatchPool (NewMapping p) x \<and> pool_Id x \<in> ids)"

definition orphanMonitor :: "ServicePort list \<Rightarrow> string set \<Rightarrow> LbTcpMonitor \<Rightarrow> bool" where
  "orphanMonitor ps ids x \<longleftrightarrow> \<not> (\<exists>p \<in> set ps. MatchTCPMonitor (NewMapping p) x \<and> mon_Id x \<in> ids)"

text \<open>The view after the virtual servers \<open>X\<close> were detached and deleted.\<close>

definition serversGone :: "LbVirtualServer set \<Rightarrow> nsxt_view \<Rightarrow> nsxt_view \<Rightarrow> bool" where
  "serversGone X v v' \<longleftrightarrow> v_servers v' = without vs_Id X (v_servers v) \<and> v_pools v' = v_pools v \<and>
     v_monitors v' = v_monitors v \<and> v_allocs v' = v_allocs v \<and> (\<forall>k. k \<notin> vs_Id ` X \<longrightarrow> attached v' k = attached v k)"

lemma serversGone_safe:
  assumes "serversGone X v v'" "mirrors vs_Id (\<lambda>x. checkTags (vs_Tags x) tg) sel xs (v_servers v)" "X \<subseteq> set xs"
  shows "safe tg v v'"
proof -
  have "k \<notin> vs_Id ` X" if "v_servers v k = Some x" "\<not> checkTags (vs_Tags x) tg" for k x
    using that assms(2,3) by (auto simp: mirrors_def)
  with assms(1) without_foreign [OF assms(2,3)] show ?thesis
    by (auto simp: serversGone_def safe_def others_kept_def addresses_kept_same)
qed

lemma removed_from_fields [simp]:
  "v_servers (removed_from l v k svc) = v_servers v" "v_pools (removed_from l v k svc) = v_pools v"
  "v_monitors (removed_from l v k svc) = v_monitors v" "v_allocs (removed_from l v k svc) = v_allocs v"
  by (simp_all add: removed_from_def with_service_def Let_def)

context nsxt_backend
begin

lemma delete_server_step:
  assumes a: "broker (access l) = B" and x: "v_servers v (vs_Id x) = Some x" "checkTags (vs_Tags x) tg"
  shows "triple (atW s l v) (deleteVirtualServer x)
    (\<lambda>_. \<lambda>(s', l', b). s' = s \<and> l' = l \<and> (\<exists>v'. at v' b \<and> serversGone {x} v v'))
    (\<lambda>_. \<lambda>(s', l', b). s' = s \<and> l' = l \<and> (\<exists>v'. at v' b \<and> safe tg v v'))"
    (is "triple _ _ ?Q ?E")
proof -
  let ?detached = "\<lambda>v'. v_servers v' = v_servers v \<and> v_pools v' = v_pools v \<and> v_monitors v' = v_monitors v \<and>
      v_allocs v' = v_allocs v \<and> (\<forall>k. k \<noteq> vs_Id x \<longrightarrow> attached v' k = attached v k)"
  have "k \<noteq> vs_Id x" if "v_servers v k = Some y" "\<not> checkTags (vs_Tags y) tg" for k y using that x by auto
  then have safe: "safe tg v v'" if "?detached v'" for v'
    using that unfolding safe_def others_kept_def by (simp add: addresses_kept_same)
  have remove: "triple (atW s l v) (onSnd (removeVirtualServerFromLoadBalancerService (clusterName s) (vs_Id x)))
      (\<lambda>_. \<lambda>(s', l', b). \<exists>v'. at v' b \<and> s' = s \<and> l' = l \<and> ?detached v') ?E"
    by (rule triple_onSnd_at, rule triple_post [OF remove_server [OF a]])
      (auto simp: attached_removed_from intro: safe_refl)
  have "triple (\<lambda>(s', l', b). \<exists>v'. at v' b \<and> s' = s \<and> l' = l \<and> ?detached v')
      (callAccess (\<lambda>a. DeleteVirtualServer a (vs_Id x))) ?Q ?E"
  proof (rule triple_world, elim conjE)
    fix s' v' and l' :: "'s lbService" assume "s' = s" "l' = l" and d: "v_servers v' = v_servers v" "v_pools v' = v_pools v"
      "v_monitors v' = v_monitors v" "v_allocs v' = v_allocs v" "\<forall>k. k \<noteq> vs_Id x \<longrightarrow> attached v' k = attached v k"
    then have "safe tg v v'" "serversGone {x} v (v'\<lparr>v_servers := (v_servers v')(vs_Id x := None)\<rparr>)"
      using safe by (auto simp: serversGone_def without_insert attached_def)
    then show "triple (atW s' l' v') (callAccess (\<lambda>a. DeleteVirtualServer a (vs_Id x))) ?Q ?E"
      unfolding \<open>s' = s\<close> \<open>l' = l\<close>
      by (intro triple_callAccess_at, intro triple_post [OF delete_virtual_server [OF a]]) auto
  qed
  then show ?thesis
    unfolding deleteVirtualServer_def by (intro triple_getState triple_bind [OF remove])
qed

end

lemma serversGone_insert:
  assumes "serversGone X v v'" "serversGone {x} v' v''"
  shows "serversGone (insert x X) v v''"
  using assms by (auto simp: serversGone_def without_def fun_eq_iff)

context nsxt_backend
begin

lemma delete_orphan_servers:
  assumes a: "broker (access l) = B"
    and mirror: "mirrors vs_Id (\<lambda>x. checkTags (vs_Tags x) tg) sel (servers s) (v_servers v)"
  shows "triple (atW s l v) deleteOrphanVirtualServers
    (\<lambda>ids. \<lambda>(s', l', b). \<exists>v'. at v' b \<and> s' = s \<and> l' = l \<and>
       serversGone {x \<in> set (servers s). orphanServer (s_Ports (service s)) x} v v' \<and>
       ids = vs_PoolId ` {x \<in> set (servers s). \<not> orphanServer (s_Ports (service s)) x})
    (\<lambda>_. \<lambda>(s', l', b). s' = s \<and> l' = l \<and> (\<exists>v'. at v' b \<and> safe tg v v'))"
    (is "triple _ _ ?Q ?E")
proof -
  let ?orphan = "orphanServer (s_Ports (service s))"
  let ?I = "\<lambda>ys ids. \<lambda>(s', l', b). \<exists>v'. at v' b \<and> s' = s \<and> l' = l \<and>
       serversGone {x \<in> set ys. ?orphan x} v v' \<and> ids = vs_PoolId ` {x \<in> set ys. \<not> ?orphan x}"
  let ?f = "\<lambda>ids server. if list_ex (\<lambda>p. MatchVirtualServer (NewMapping p) server) (s_Ports (service s))
       then ret (insert (vs_PoolId server) ids) else bindIO (deleteVirtualServer server) (\<lambda>_. ret ids)"
  have orphan: "list_ex (\<lambda>p. MatchVirtualServer (NewMapping p) x) (s_Ports (service s)) \<longleftrightarrow> \<not> ?orphan x" for x
    by (simp add: orphanServer_def list_ex_iff)
  have step: "triple (?I ys ids) (?f ids y) (?I (ys @ [y])) ?E" if xs: "servers s = ys @ y # zs" for ys y zs ids
  proof (rule triple_world, elim conjE)
    fix s' v' and l' :: "'s lbService" assume s': "s' = s" "l' = l" and gone: "serversGone {x \<in> set ys. ?orphan x} v v'"
      and ids: "ids = vs_PoolId ` {x \<in> set ys. \<not> ?orphan x}"
    have "y \<notin> set ys" using mirror xs by (auto simp: mirrors_def)
    then have y: "v_servers v' (vs_Id y) = Some y" "checkTags (vs_Tags y) tg"
      using gone without_Some [OF mirror, of "{x \<in> set ys. ?orphan x}" y] mirrors_view [OF mirror, of y] xs
      by (auto simp: serversGone_def)
    have safe: "safe tg v v'" by (rule serversGone_safe [OF gone mirror]) (auto simp: xs)
    have "serversGone {x \<in> set (ys @ [y]). ?orphan x} v v''" if "?orphan y" "serversGone {y} v' v''" for v''
    proof -
      have "{x \<in> set (ys @ [y]). ?orphan x} = insert y {x \<in> set ys. ?orphan x}" using that(1) by auto
      with serversGone_insert [OF gone that(2)] show ?thesis by simp
    qed
    moreover have "{x \<in> set (ys @ [y]). \<not> ?orphan x} = {x \<in> set ys. \<not> ?orphan x}" if "?orphan y" using that by auto
    ultimately have del: "triple (atW s l v') (bindIO (deleteVirtualServer y) (\<lambda>_. ret ids)) (?I (ys @ [y])) ?E" if "?orphan y"
      using that ids safe
      by (intro triple_bind [OF triple_post [OF delete_server_step [OF a y]]] triple_ret) (auto intro: safe_trans)
    have "{x \<in> set (ys @ [y]). ?orphan x} = {x \<in> set ys. ?orphan x}"
      "{x \<in> set (ys @ [y]). \<not> ?orphan x} = insert y {x \<in> set ys. \<not> ?orphan x}" if "\<not> ?orphan y" using that by auto
    then have "triple (atW s l v') (ret (insert (vs_PoolId y) ids)) (?I (ys @ [y])) ?E" if "\<not> ?orphan y"
      using that gone ids by (intro triple_ret) auto
    with del show "triple (atW s' l' v') (?f ids y) (?I (ys @ [y])) ?E"
      unfolding s' orphan by (intro triple_if) auto
  qed
  have "triple (?I [] {}) (foldIO ?f {} (servers s)) (?I (servers s)) ?E" by (rule triple_fold [OF step])
  then have "triple (atW s l v) (foldIO ?f {} (servers s)) (?I (servers s)) ?E"
    by (rule triple_pre) (auto simp: serversGone_def)
  then show ?thesis
    unfolding deleteOrphanVirtualServers_def by (rule triple_getState)
qed

text \<open>The loops over pools and monitors: delete what does not pass a test.\<close>

lemma delete_loop:
  assumes del: "\<And>m x. triple (atW s l (upd m)) (del x) (\<lambda>_. atW s l (upd (m(key x := None)))) (\<lambda>_. atW s l (upd m))"
  shows "triple (atW s l (upd m)) (foldIO (\<lambda>acc x. if ok x then ret (add acc x) else bindIO (del x) (\<lambda>_. ret acc)) acc0 xs)
    (\<lambda>acc w. acc = fold (\<lambda>x acc. if ok x then add acc x else acc) xs acc0 \<and>
       atW s l (upd (without key {x \<in> set xs. \<not> ok x} m)) w)
    (\<lambda>_ w. \<exists>X \<subseteq> {x \<in> set xs. \<not> ok x}. atW s l (upd (without key X m)) w)"
    (is "triple _ (foldIO ?f acc0 xs) _ ?E")
proof -
  let ?I = "\<lambda>ys acc w. acc = fold (\<lambda>x acc. if ok x then add acc x else acc) ys acc0 \<and>
       atW s l (upd (without key {x \<in> set ys. \<not> ok x} m)) w"
  have "triple (?I ys acc) (?f acc y) (?I (ys @ [y])) ?E" if xs: "xs = ys @ y # zs" for ys y zs acc
  proof (rule triple_pure_pre, rule triple_if)
    assume "ok y"
    moreover from this have "{x \<in> set (ys @ [y]). \<not> ok x} = {x \<in> set ys. \<not> ok x}" by auto
    moreover assume "acc = fold (\<lambda>x acc. if ok x then add acc x else acc) ys acc0"
    ultimately show "triple (atW s l (upd (without key {x \<in> set ys. \<not> ok x} m))) (ret (add acc y)) (?I (ys @ [y])) ?E"
      by (intro triple_ret) simp
  next
    assume "\<not> ok y"
    moreover from this have "{x \<in> set (ys @ [y]). \<not> ok x} = insert y {x \<in> set ys. \<not> ok x}" by auto
    moreover have "{x \<in> set ys. \<not> ok x} \<subseteq> {x \<in> set xs. \<not> ok x}" using xs by auto
    moreover assume "acc = fold (\<lambda>x acc. if ok x then add acc x else acc) ys acc0"
    ultimately show "triple (atW s l (upd (without key {x \<in> set ys. \<not> ok x} m))) (bindIO (del y) (\<lambda>_. ret acc)) (?I (ys @ [y])) ?E"
      by (intro triple_bind [OF triple_post [OF del]] triple_ret) (auto simp: without_insert)
  qed
  then have "triple (?I [] acc0) (foldIO ?f acc0 xs) (?I xs) ?E" by (rule triple_fold)
  then show ?thesis by simp
qed

end

lemma fold_union:
  "fold (\<lambda>x acc. if ok x then acc \<union> f x else acc) xs A = A \<union> (\<Union>x \<in> {x \<in> set xs. ok x}. f x)"
  by (induction xs arbitrary: A) auto

context nsxt_backend
begin

lemma delete_orphan_pools:
  assumes a: "broker (access l) = B"
    and mirror: "mirrors pool_Id (\<lambda>x. checkTags (pool_Tags x) tg) sel (pools s) (v_pools v)"
  shows "triple (atW s l v) (deleteOrphanPools ids)
    (\<lambda>mids. \<lambda>(s', l', b). \<exists>v'. at v' b \<and> s' = s \<and> l' = l \<and>
       v' = v\<lparr>v_pools := without pool_Id {x \<in> set (pools s). orphanPool (s_Ports (service s)) ids x} (v_pools v)\<rparr> \<and>
       mids = (\<Union>x \<in> {x \<in> set (pools s). \<not> orphanPool (s_Ports (service s)) ids x}. set (pool_ActiveMonitorIds x)))
    (\<lambda>_. \<lambda>(s', l', b). s' = s \<and> l' = l \<and> (\<exists>v'. at v' b \<and> safe tg v v'))"
    (is "triple _ _ ?Q ?E")
proof -
  let ?ok = "\<lambda>pool. list_ex (\<lambda>p. MatchPool (NewMapping p) pool \<and> pool_Id pool \<in> ids) (s_Ports (service s))"
  have ok: "?ok x \<longleftrightarrow> \<not> orphanPool (s_Ports (service s)) ids x" for x by (auto simp: orphanPool_def list_ex_iff)
  have del: "triple (atW s l (v\<lparr>v_pools := m\<rparr>)) (deletePool x)
      (\<lambda>_. atW s l (v\<lparr>v_pools := m(pool_Id x := None)\<rparr>)) (\<lambda>_. atW s l (v\<lparr>v_pools := m\<rparr>))" for m x
    unfolding deletePool_def
    by (rule triple_callAccess_at, rule triple_post [OF delete_lb_pool [OF a]]) auto
  have safe: "safe tg v (v\<lparr>v_pools := without pool_Id X (v_pools v)\<rparr>)" if "X \<subseteq> set (pools s)" for X
    using without_foreign [OF mirror that] by (simp add: safe_def others_kept_def attached_def addresses_kept_same)
  have "triple (atW s l v) (foldIO (\<lambda>acc x. if ?ok x then ret (acc \<union> set (pool_ActiveMonitorIds x))
      else bindIO (deletePool x) (\<lambda>_. ret acc)) {} (pools s)) ?Q ?E"
  proof (rule triple_conseq [OF delete_loop [where upd = "\<lambda>m. v\<lparr>v_pools := m\<rparr>" and m = "v_pools v", OF del]])
    fix e w assume "\<exists>X \<subseteq> {x \<in> set (pools s). \<not> ?ok x}. atW s l (v\<lparr>v_pools := without pool_Id X (v_pools v)\<rparr>) w"
    then show "?E e w" using safe by (cases w) blast
  qed (auto simp: fold_union ok)
  then show ?thesis unfolding deleteOrphanPools_def by (rule triple_getState)
qed

lemma delete_orphan_monitors:
  assumes a: "broker (access l) = B"
    and mirror: "mirrors mon_Id (\<lambda>x. checkTags (mon_Tags x) tg) sel (tcpMonitors s) (v_monitors v)"
  shows "triple (atW s l v) (deleteOrphanTCPMonitors ids)
    (\<lambda>_. \<lambda>(s', l', b). \<exists>v'. at v' b \<and> s' = s \<and> l' = l \<and>
       v' = v\<lparr>v_monitors := without mon_Id {x \<in> set (tcpMonitors s). orphanMonitor (s_Ports (service s)) ids x} (v_monitors v)\<rparr>)
    (\<lambda>_. \<lambda>(s', l', b). s' = s \<and> l' = l \<and> (\<exists>v'. at v' b \<and> safe tg v v'))"
    (is "triple _ _ ?Q ?E")
proof -
  let ?ok = "\<lambda>mon. list_ex (\<lambda>p. MatchTCPMonitor (NewMapping p) mon \<and> mon_Id mon \<in> ids) (s_Ports (service s))"
  have ok: "?ok x \<longleftrightarrow> \<not> orphanMonitor (s_Ports (service s)) ids x" for x by (auto simp: orphanMonitor_def list_ex_iff)
  have del: "triple (atW s l (v\<lparr>v_monitors := m\<rparr>)) (deleteTCPMonitor x)
      (\<lambda>_. atW s l (v\<lparr>v_monitors := m(mon_Id x := None)\<rparr>)) (\<lambda>_. atW s l (v\<lparr>v_monitors := m\<rparr>))" for m x
    unfolding deleteTCPMonitor_def
    by (rule triple_callAccess_at, rule triple_post [OF delete_tcp_monitor [OF a]]) auto
  have safe: "safe tg v (v\<lparr>v_monitors := without mon_Id X (v_monitors v)\<rparr>)" if "X \<subseteq> set (tcpMonitors s)" for X
    using without_foreign [OF mirror that] by (simp add: safe_def others_kept_def attached_def addresses_kept_same)
  have "triple (atW s l v) (foldIO (\<lambda>acc x. if ?ok x then ret ((\<lambda>_ _. ()) acc x)
      else bindIO (deleteTCPMonitor x) (\<lambda>_. ret acc)) () (tcpMonitors s)) ?Q ?E"
  proof (rule triple_conseq [OF delete_loop [where upd = "\<lambda>m. v\<lparr>v_monitors := m\<rparr>" and m = "v_monitors v", OF del]])
    fix e w assume "\<exists>X \<subseteq> {x \<in> set (tcpMonitors s). \<not> ?ok x}. atW s l (v\<lparr>v_monitors := without mon_Id X (v_monitors v)\<rparr>) w"
    then show "?E e w" using safe by (cases w) blast
  qed (auto simp: ok)
  then show ?thesis
    unfolding deleteOrphanTCPMonitors_def forIO_def bindIO_unit by (rule triple_getState)
qed

end

section \<open>The result of a reconciliation\<close>

definition ownSet :: "('a \<Rightarrow> bool) \<Rightarrow> ('k \<rightharpoonup> 'a) \<Rightarrow> 'a set" where
  "ownSet own m = {x. \<exists>k. m k = Some x \<and> own x}"

abbreviation "ownServers tg v \<equiv> ownSet (\<lambda>x. checkTags (vs_Tags x) tg) (v_servers v)"
abbreviation "ownPools tg v \<equiv> ownSet (\<lambda>x. checkTags (pool_Tags x) tg) (v_pools v)"
abbreviation "ownMonitors tg v \<equiv> ownSet (\<lambda>x. checkTags (mon_Tags x) tg) (v_monitors v)"

lemma ownSet_mirrors: "mirrors key own (\<lambda>_. True) xs m \<Longrightarrow> ownSet own m = set xs"
  by (auto simp: ownSet_def mirrors_def)

text \<open>
  Every virtual server of the service is for one of its ports, every pool is for one of its
  ports and used by one of its virtual servers, and every TCP monitor is for one of its ports
  and used by one of its pools.
\<close>

definition noOrphans :: "tag list \<Rightarrow> ServicePort list \<Rightarrow> nsxt_view \<Rightarrow> bool" where
  "noOrphans tg ps v \<longleftrightarrow>
     (\<forall>x \<in> ownServers tg v. \<exists>p \<in> set ps. MatchVirtualServer (NewMapping p) x) \<and>
     (\<forall>x \<in> ownPools tg v. (\<exists>p \<in> set ps. MatchPool (NewMapping p) x) \<and>
        (\<exists>y \<in> ownServers tg v. vs_PoolId y = pool_Id x)) \<and>
     (\<forall>x \<in> ownMonitors tg v. mon_ResourceType x = ''LbTcpMonitor'' \<longrightarrow>
        (\<exists>p \<in> set ps. MatchTCPMonitor (NewMapping p) x) \<and>
        (\<exists>y \<in> ownPools tg v. mon_Id x \<in> set (pool_ActiveMonitorIds y)))"

text \<open>The view after the three cleanup loops.\<close>

definition cleaned :: "state \<Rightarrow> nsxt_view \<Rightarrow> nsxt_view \<Rightarrow> bool" where
  "cleaned s v v' \<longleftrightarrow> (let ps = s_Ports (service s);
       os = {x \<in> set (servers s). orphanServer ps x};
       ids = vs_PoolId ` {x \<in> set (servers s). \<not> orphanServer ps x};
       op = {x \<in> set (pools s). orphanPool ps ids x};
       mids = (\<Union>x \<in> {x \<in> set (pools s). \<not> orphanPool ps ids x}. set (pool_ActiveMonitorIds x));
       om = {x \<in> set (tcpMonitors s). orphanMonitor ps mids x}
     in v_servers v' = without vs_Id os (v_servers v) \<and> v_pools v' = without pool_Id op (v_pools v) \<and>
        v_monitors v' = without mon_Id om (v_monitors v) \<and> v_allocs v' = v_allocs v \<and>
        (\<forall>k. k \<notin> vs_Id ` os \<longrightarrow> attached v' k = attached v k))"

lemma ownSet_without:
  assumes "mirrors key own (\<lambda>_. True) xs m" "X \<subseteq> set xs"
  shows "ownSet own (without key X m) = set xs - X"
proof
  show "ownSet own (without key X m) \<subseteq> set xs - X"
    using without_own [OF assms(1), of X] by (auto simp: ownSet_def)
  show "set xs - X \<subseteq> ownSet own (without key X m)"
    using without_Some [OF assms] mirrors_view [OF assms(1)] by (auto simp: ownSet_def) (metis DiffE)
qed

lemma cleaned_sets:
  assumes "cleaned s v v'" "synced tg s v" "ps = s_Ports (service s)"
    and "ids = vs_PoolId ` {x \<in> set (servers s). \<not> orphanServer ps x}"
    and "mids = (\<Union>x \<in> {x \<in> set (pools s). \<not> orphanPool ps ids x}. set (pool_ActiveMonitorIds x))"
  shows "ownServers tg v' = {x \<in> set (servers s). \<not> orphanServer ps x}"
    "ownPools tg v' = {x \<in> set (pools s). \<not> orphanPool ps ids x}"
    "{x \<in> set (tcpMonitors s). \<not> orphanMonitor ps mids x} \<subseteq> ownMonitors tg v'"
    "{x \<in> ownMonitors tg v'. mon_ResourceType x = ''LbTcpMonitor''} \<subseteq> {x \<in> set (tcpMonitors s). \<not> orphanMonitor ps mids x}"
proof -
  from assms(2) have m: "mirrors vs_Id (\<lambda>x. checkTags (vs_Tags x) tg) (\<lambda>_. True) (servers s) (v_servers v)"
     "mirrors pool_Id (\<lambda>x. checkTags (pool_Tags x) tg) (\<lambda>_. True) (pools s) (v_pools v)"
     "mirrors mon_Id (\<lambda>x. checkTags (mon_Tags x) tg) (\<lambda>x. mon_ResourceType x = ''LbTcpMonitor'') (tcpMonitors s) (v_monitors v)"
    unfolding synced_def by blast+
  from assms(1) have v': "v_servers v' = without vs_Id {x \<in> set (servers s). orphanServer ps x} (v_servers v)"
    "v_pools v' = without pool_Id {x \<in> set (pools s). orphanPool ps ids x} (v_pools v)"
    "v_monitors v' = without mon_Id {x \<in> set (tcpMonitors s). orphanMonitor ps mids x} (v_monitors v)"
    unfolding cleaned_def Let_def assms(3-5) by blast+
  show "ownServers tg v' = {x \<in> set (servers s). \<not> orphanServer ps x}"
    unfolding v' by (subst ownSet_without [OF m(1)]) auto
  show "ownPools tg v' = {x \<in> set (pools s). \<not> orphanPool ps ids x}"
    unfolding v' by (subst ownSet_without [OF m(2)]) auto
  show "{x \<in> set (tcpMonitors s). \<not> orphanMonitor ps mids x} \<subseteq> ownMonitors tg v'"
  proof
    fix x assume "x \<in> {x \<in> set (tcpMonitors s). \<not> orphanMonitor ps mids x}"
    with without_Some [OF m(3), of "{x \<in> set (tcpMonitors s). orphanMonitor ps mids x}" x] mirrors_view [OF m(3), of x]
    show "x \<in> ownMonitors tg v'" by (auto simp: v' ownSet_def)
  qed
  show "{x \<in> ownMonitors tg v'. mon_ResourceType x = ''LbTcpMonitor''} \<subseteq> {x \<in> set (tcpMonitors s). \<not> orphanMonitor ps mids x}"
    using without_own [OF m(3)] unfolding v' by (fastforce simp: ownSet_def)
qed

lemma cleaned_noOrphans:
  assumes "cleaned s v v'" "synced tg s v"
  shows "noOrphans tg (s_Ports (service s)) v'"
proof -
  note sets = cleaned_sets [OF assms refl refl refl]
  have "\<exists>p \<in> set (s_Ports (service s)). MatchVirtualServer (NewMapping p) x" if "x \<in> ownServers tg v'" for x
    using that by (auto simp: sets(1) orphanServer_def)
  moreover have "(\<exists>p \<in> set (s_Ports (service s)). MatchPool (NewMapping p) x) \<and> (\<exists>y \<in> ownServers tg v'. vs_PoolId y = pool_Id x)"
    if "x \<in> ownPools tg v'" for x
    using that unfolding sets(1,2) orphanPool_def by force
  moreover have "(\<exists>p \<in> set (s_Ports (service s)). MatchTCPMonitor (NewMapping p) x) \<and>
      (\<exists>y \<in> ownPools tg v'. mon_Id x \<in> set (pool_ActiveMonitorIds y))"
    if "x \<in> ownMonitors tg v'" "mon_ResourceType x = ''LbTcpMonitor''" for x
    using that sets(4) unfolding sets(2) orphanMonitor_def by blast
  ultimately show ?thesis by (simp add: noOrphans_def)
qed

lemma cleaned_served:
  assumes "cleaned s v v'" "synced tg s v" "served D s p" "p \<in> set (s_Ports (service s))"
  shows "servedBy D (nodes s) (ownServers tg v') (ownPools tg v') (ownMonitors tg v') p"
proof -
  note sets = cleaned_sets [OF assms(1,2) refl refl refl]
  let ?m = "NewMapping p"
  let ?ps = "s_Ports (service s)"
  let ?ids = "vs_PoolId ` {x \<in> set (servers s). \<not> orphanServer ?ps x}"
  from assms(3) obtain srv pool where q: "srv \<in> set (servers s)" "pool \<in> set (pools s)"
      "MatchVirtualServer ?m srv" "MatchNodePort ?m srv" "vs_PoolId srv = pool_Id pool" "MatchPool ?m pool"
      "D \<longrightarrow> goodMembers (nodes s) pool"
      "if Protocol ?m = ProtocolTCP then \<exists>x \<in> set (tcpMonitors s). MatchTCPMonitor ?m x \<and>
         mon_MonitorPort x = showInt (NodePort ?m) \<and> pool_ActiveMonitorIds pool = [mon_Id x]
       else pool_ActiveMonitorIds pool = []"
    unfolding servedBy_def Let_def by blast
  have srv: "\<not> orphanServer ?ps srv" using q(3) assms(4) by (auto simp: orphanServer_def)
  then have "pool_Id pool \<in> ?ids" using q(1) by (intro image_eqI [of _ _ srv]) (simp_all add: q(5))
  then have pool: "\<not> orphanPool ?ps ?ids pool" using q(6) assms(4) by (auto simp: orphanPool_def)
  have mon: "x \<in> ownMonitors tg v'" if "x \<in> set (tcpMonitors s)" "MatchTCPMonitor ?m x" "pool_ActiveMonitorIds pool = [mon_Id x]" for x
  proof (rule subsetD [OF sets(3)])
    show "x \<in> {x \<in> set (tcpMonitors s). \<not> orphanMonitor ?ps
        (\<Union>x \<in> {x \<in> set (pools s). \<not> orphanPool ?ps ?ids x}. set (pool_ActiveMonitorIds x)) x}"
      using that assms(4) pool q(2) by (force simp: orphanMonitor_def)
  qed
  have "srv \<in> ownServers tg v'" "pool \<in> ownPools tg v'" using q(1,2) srv pool by (simp_all add: sets(1,2))
  with q(3-8) mon show ?thesis unfolding servedBy_def Let_def by (auto split: if_splits)
qed

lemma cleaned_safe:
  assumes "cleaned s v v'" "synced tg s v"
  shows "safe tg v v'"
proof -
  let ?ps = "s_Ports (service s)"
  let ?os = "{x \<in> set (servers s). orphanServer ?ps x}"
  let ?ids = "vs_PoolId ` {x \<in> set (servers s). \<not> orphanServer ?ps x}"
  let ?op = "{x \<in> set (pools s). orphanPool ?ps ?ids x}"
  let ?mids = "\<Union>x \<in> {x \<in> set (pools s). \<not> orphanPool ?ps ?ids x}. set (pool_ActiveMonitorIds x)"
  let ?om = "{x \<in> set (tcpMonitors s). orphanMonitor ?ps ?mids x}"
  have m: "mirrors vs_Id (\<lambda>x. checkTags (vs_Tags x) tg) (\<lambda>_. True) (servers s) (v_servers v)"
     "mirrors pool_Id (\<lambda>x. checkTags (pool_Tags x) tg) (\<lambda>_. True) (pools s) (v_pools v)"
     "mirrors mon_Id (\<lambda>x. checkTags (mon_Tags x) tg) (\<lambda>x. mon_ResourceType x = ''LbTcpMonitor'') (tcpMonitors s) (v_monitors v)"
    using assms(2) unfolding synced_def by blast+
  have "k \<notin> vs_Id ` ?os" if "v_servers v k = Some x" "\<not> checkTags (vs_Tags x) tg" for k x
    using that mirrors_view [OF m(1)] by auto
  moreover have v': "v_servers v' = without vs_Id ?os (v_servers v)" "v_pools v' = without pool_Id ?op (v_pools v)"
      "v_monitors v' = without mon_Id ?om (v_monitors v)" "v_allocs v' = v_allocs v"
      "\<forall>k. k \<notin> vs_Id ` ?os \<longrightarrow> attached v' k = attached v k"
    using assms(1) unfolding cleaned_def Let_def by - (elim conjE, assumption)+
  ultimately have "\<forall>k x. v_servers v k = Some x \<and> \<not> checkTags (vs_Tags x) tg \<longrightarrow> attached v' k = attached v k" by blast
  then show ?thesis
    using without_foreign [OF m(1), of ?os] without_foreign [OF m(2), of ?op] without_foreign [OF m(3), of ?om]
    unfolding safe_def others_kept_def v'(1-3) by (simp add: addresses_kept_same v'(4))
qed

lemma cleaned_attached:
  assumes "cleaned s v v'" "synced tg s v" "allAttached s v" "x \<in> ownServers tg v'"
  shows "attached v' (vs_Id x) \<noteq> {}"
proof -
  let ?os = "{x \<in> set (servers s). orphanServer (s_Ports (service s)) x}"
  have x: "x \<in> set (servers s)" "x \<notin> ?os" using assms(4) cleaned_sets(1) [OF assms(1,2) refl refl refl] by auto
  moreover have "inj_on vs_Id (set (servers s))" using assms(2) by (simp add: synced_def mirrors_def distinct_map)
  ultimately have "vs_Id x \<notin> vs_Id ` ?os" by (auto dest: inj_onD)
  with assms(1) have "attached v' (vs_Id x) = attached v (vs_Id x)" unfolding cleaned_def Let_def by blast
  with assms(3) x(1) show ?thesis by (simp add: allAttached_def)
qed

text \<open>
  What \<open>Process\<close> establishes: nothing foreign touched, no orphans left, every port served, one
  address for all virtual servers and an attachment for each, provided they had that before.
\<close>

definition soleOwn :: "tag list \<Rightarrow> nsxt_view \<Rightarrow> ServicePort \<Rightarrow> bool" where
  "soleOwn tg v q \<longleftrightarrow> sole (MatchVirtualServer (NewMapping q)) (ownServers tg v) \<and> sole (MatchPool (NewMapping q)) (ownPools tg v) \<and>
     sole (MatchTCPMonitor (NewMapping q)) {x \<in> ownMonitors tg v. mon_ResourceType x = ''LbTcpMonitor''}"

definition processed :: "tag list \<Rightarrow> loadBalancerClass \<Rightarrow> state \<Rightarrow> nsxt_view \<Rightarrow> state \<Rightarrow> nsxt_view \<Rightarrow> bool" where
  "processed tg c s0 v0 s v \<longleftrightarrow> (let ps = s_Ports (service s0) in
     service s = service s0 \<and> safe tg v0 v \<and> noOrphans tg ps v \<and>
     (\<exists>xs. mirrors vs_Id (\<lambda>x. checkTags (vs_Tags x) tg) (\<lambda>_. True) xs (v_servers v0) \<and>
        lbClass s = lbClass (adoptClass c (s0\<lparr>servers := xs\<rparr>)) \<and>
        (ps = [] \<or> ipAddress (adoptClass c (s0\<lparr>servers := xs\<rparr>)) \<noteq> '''' \<longrightarrow>
           ipAddress s = ipAddress (adoptClass c (s0\<lparr>servers := xs\<rparr>)))) \<and>
     (distinct (map portKey ps) \<longrightarrow> (\<forall>p \<in> set ps. servedBy (\<forall>q \<in> ownPools tg v0. distinctMembers q) (nodes s0)
        (ownServers tg v) (ownPools tg v) (ownMonitors tg v) p)) \<and>
     ((\<exists>ip. ip \<noteq> '''' \<and> (\<forall>x \<in> ownServers tg v0. vs_IpAddress x = ip)) \<longrightarrow>
        (\<forall>x \<in> ownServers tg v. vs_IpAddress x = ipAddress s \<and> ipAddress s \<noteq> '''')) \<and>
     ((\<forall>x \<in> ownServers tg v0. attached v0 (vs_Id x) \<noteq> {}) \<longrightarrow> (\<forall>x \<in> ownServers tg v. attached v (vs_Id x) \<noteq> {})) \<and>
     (\<forall>q. soleOwn tg v0 q \<longrightarrow> soleOwn tg v q))"

lemma adoptClass_fields [simp]:
  "servers (adoptClass c s) = servers s" "pools (adoptClass c s) = pools s" "tcpMonitors (adoptClass c s) = tcpMonitors s"
  "service (adoptClass c s) = service s" "nodes (adoptClass c s) = nodes s"
  "clusterName (adoptClass c s) = clusterName s" "objectName (adoptClass c s) = objectName s"
  by (simp_all add: adoptClass_def Let_def split: list.split)

lemma adoptClass_class:
  assumes "Scope ` set (class_Tags c) \<inter> {ScopeOwner, ScopeCluster, ScopeService} = {}"
  shows "\<exists>c'. lbClass (adoptClass c s) = Some c' \<and> Scope ` set (class_Tags c') \<inter> {ScopeOwner, ScopeCluster, ScopeService} = {}"
proof (cases "servers s")
  case Nil
  with assms show ?thesis by (simp add: adoptClass_def)
next
  case (Cons x xs)
  have "\<exists>c'. lbClass (adoptClass c s) = Some c' \<and>
      c' = (if className c \<noteq> getTag (vs_Tags x) ScopeLBClass \<or> ipPoolID c \<noteq> getTag (vs_Tags x) ScopeIPPoolID
            then newLBClass (getTag (vs_Tags x) ScopeLBClass) (getTag (vs_Tags x) ScopeIPPoolID) '''' else c)"
    using Cons by (simp add: adoptClass_def Let_def)
  with assms class_tags_scopes show ?thesis by (metis (no_types))
qed

lemma adoptClass_lists: "ipAddress (adoptClass c (s\<lparr>servers := xs, pools := ys, tcpMonitors := zs\<rparr>)) = ipAddress (adoptClass c (s\<lparr>servers := xs\<rparr>))"
  "lbClass (adoptClass c (s\<lparr>servers := xs, pools := ys, tcpMonitors := zs\<rparr>)) = lbClass (adoptClass c (s\<lparr>servers := xs\<rparr>))"
  by (simp_all add: adoptClass_def Let_def split: list.split)

lemma adoptClass_oneAddress:
  "\<forall>x \<in> set (servers s). vs_IpAddress x = ip \<Longrightarrow> ip \<noteq> '''' \<Longrightarrow> oneAddress (adoptClass c s)"
  by (auto simp: oneAddress_def adoptClass_def Let_def split: list.splits)

lemma soleOwn_lists:
  assumes "synced tg s v" "\<forall>x \<in> set (tcpMonitors s). mon_ResourceType x = ''LbTcpMonitor''" "soleOwn tg v q"
  shows "soleLists s q"
proof -
  have m: "mirrors vs_Id (\<lambda>x. checkTags (vs_Tags x) tg) (\<lambda>_. True) (servers s) (v_servers v)"
     "mirrors pool_Id (\<lambda>x. checkTags (pool_Tags x) tg) (\<lambda>_. True) (pools s) (v_pools v)"
     "mirrors mon_Id (\<lambda>x. checkTags (mon_Tags x) tg) (\<lambda>x. mon_ResourceType x = ''LbTcpMonitor'') (tcpMonitors s) (v_monitors v)"
    using assms(1) unfolding synced_def by blast+
  have "set (tcpMonitors s) \<subseteq> {x \<in> ownMonitors tg v. mon_ResourceType x = ''LbTcpMonitor''}"
    using assms(2) mirrors_view [OF m(3)] by (auto simp: ownSet_def)
  with assms(3) sole_subset show ?thesis
    unfolding soleOwn_def soleLists_def ownSet_mirrors [OF m(1)] ownSet_mirrors [OF m(2)] by blast
qed

lemma cleaned_sole:
  assumes "cleaned s v v'" "synced tg s v" "soleLists s q"
  shows "soleOwn tg v' q"
proof -
  note sets = cleaned_sets [OF assms(1,2) refl refl refl]
  have "{x \<in> ownMonitors tg v'. mon_ResourceType x = ''LbTcpMonitor''} \<subseteq> set (tcpMonitors s)" using sets(4) by blast
  with assms(3) show ?thesis unfolding soleOwn_def soleLists_def sets(1,2) by (auto elim: sole_subset)
qed

lemma processed_intro:
  assumes s1: "s1 = s0\<lparr>servers := servers s1, pools := pools s1, tcpMonitors := tcpMonitors s1\<rparr>" "synced tg s1 v0"
      "\<forall>x \<in> set (tcpMonitors s1). mon_ResourceType x = ''LbTcpMonitor''"
    and ports: "portsDone tg (s_Ports (service s0)) (adoptClass c s1) v0 s v"
    and clean: "cleaned s v v'"
  shows "processed tg c s0 v0 s v'"
proof -
  let ?a = "adoptClass c s1"
  let ?ps = "s_Ports (service s0)"
  let ?D = "\<forall>q \<in> set (pools ?a). distinctMembers q"
  from ports have p: "sameJob ?a s" "synced tg s v" "safe tg v0 v" "oneAddress ?a \<longrightarrow> oneAddress s"
     "allAttached ?a v0 \<longrightarrow> allAttached s v" "?ps = [] \<or> ipAddress ?a \<noteq> '''' \<longrightarrow> ipAddress s = ipAddress ?a"
     "distinct (map portKey ?ps) \<longrightarrow> (\<forall>p \<in> set ?ps. served ?D s p)" "\<forall>q. soleLists ?a q \<longrightarrow> soleLists s q"
    unfolding portsDone_def by blast+
  have job: "service s = service s0" "nodes s = nodes s0" "lbClass s = lbClass ?a"
    using p(1) by (simp_all add: sameJob_def) (subst s1(1), simp)+
  have m: "mirrors vs_Id (\<lambda>x. checkTags (vs_Tags x) tg) (\<lambda>_. True) (servers s1) (v_servers v0)"
     "mirrors pool_Id (\<lambda>x. checkTags (pool_Tags x) tg) (\<lambda>_. True) (pools s1) (v_pools v0)"
    using s1(2) unfolding synced_def by blast+
  have adopt: "lbClass ?a = lbClass (adoptClass c (s0\<lparr>servers := servers s1\<rparr>))"
    "ipAddress ?a = ipAddress (adoptClass c (s0\<lparr>servers := servers s1\<rparr>))"
    by (subst s1(1), simp only: adoptClass_lists)+
  have "\<forall>x \<in> ownServers tg v'. vs_IpAddress x = ipAddress s \<and> ipAddress s \<noteq> ''''"
    if "ip \<noteq> ''''" "\<forall>x \<in> ownServers tg v0. vs_IpAddress x = ip" for ip
    using that adoptClass_oneAddress [of s1 ip c] p(4) cleaned_sets(1) [OF clean p(2) refl refl refl]
    by (auto simp: ownSet_mirrors [OF m(1)] oneAddress_def)
  moreover have "\<forall>x \<in> ownServers tg v'. attached v' (vs_Id x) \<noteq> {}" if "\<forall>x \<in> ownServers tg v0. attached v0 (vs_Id x) \<noteq> {}"
    using that p(5) cleaned_attached [OF clean p(2)] by (auto simp: ownSet_mirrors [OF m(1)] allAttached_def)
  moreover have "servedBy (\<forall>q \<in> ownPools tg v0. distinctMembers q) (nodes s0) (ownServers tg v') (ownPools tg v') (ownMonitors tg v') q"
    if "distinct (map portKey ?ps)" "q \<in> set ?ps" for q
    using that p(7) cleaned_served [OF clean p(2)] by (auto simp: job ownSet_mirrors [OF m(2)])
  moreover have "soleOwn tg v' q" if "soleOwn tg v0 q" for q
    using that p(8) soleOwn_lists [OF s1(2,3)] cleaned_sole [OF clean p(2)] by (auto simp: soleLists_def)
  ultimately show ?thesis
    using safe_trans [OF p(3) cleaned_safe [OF clean p(2)]] cleaned_noOrphans [OF clean p(2)] m(1) p(6)
    unfolding processed_def Let_def job adopt by blast
qed

context nsxt_backend
begin

text \<open>The lookup at the start.\<close>

lemma find_objects:
  assumes a: "broker (access l) = B"
  shows "triple (atW s l v) findObjects
    (\<lambda>_. \<lambda>(s', l', b). at v b \<and> l' = l \<and> s' = s\<lparr>servers := servers s', pools := pools s', tcpMonitors := tcpMonitors s'\<rparr> \<and>
       synced (T s l) s' v \<and> (\<forall>x \<in> set (tcpMonitors s'). tcpTyped x))
    (\<lambda>_. \<lambda>(s', l', b). at v b \<and> l' = l \<and> s' = s\<lparr>servers := servers s', pools := pools s', tcpMonitors := tcpMonitors s'\<rparr>)"
    (is "triple _ _ ?Q ?E")
proof -
  let ?M = "\<lambda>xs. mirrors vs_Id (ownServer s l) (\<lambda>_. True) xs (v_servers v)"
  let ?P = "\<lambda>xs. mirrors pool_Id (ownPool s l) (\<lambda>_. True) xs (v_pools v)"
  let ?T = "\<lambda>xs. mirrors mon_Id (ownMonitor s l) tcpTyped xs (v_monitors v) \<and> (\<forall>x \<in> set xs. tcpTyped x)"
  have servers: "triple (atW u l v) (callAccess (\<lambda>a. FindVirtualServers a (clusterName s) (objectName s)))
      (\<lambda>xs w. ?M xs \<and> atW u l v w) (\<lambda>_. atW u l v)" for u
    by (rule triple_callAccess_at, rule triple_post [OF find_virtual_servers [OF a]]) (auto intro!: mirrors_lists)
  have pools: "triple (atW u l v) (callAccess (\<lambda>a. FindPools a (clusterName s) (objectName s)))
      (\<lambda>xs w. ?P xs \<and> atW u l v w) (\<lambda>_. atW u l v)" for u
    by (rule triple_callAccess_at, rule triple_post [OF find_lb_pools [OF a]]) (auto intro!: mirrors_lists)
  have monitors: "triple (atW u l v) (callAccess (\<lambda>a. FindTCPMonitors a (clusterName s) (objectName s)))
      (\<lambda>xs w. ?T xs \<and> atW u l v w) (\<lambda>_. atW u l v)" for u
    by (rule triple_callAccess_at, rule triple_post [OF find_tcp_monitors [OF a]])
      (auto intro!: mirrors_lists simp: conj_commute lists_def restrictBy_Some)
  have 3: "triple (atW (s\<lparr>servers := xs, pools := ys\<rparr>) l v)
      (bindIO (callAccess (\<lambda>a. FindTCPMonitors a (clusterName s) (objectName s))) (\<lambda>found. putState (\<lambda>s. s\<lparr>tcpMonitors := found\<rparr>))) ?Q ?E"
    if "?M xs" "?P ys" for xs ys
  proof (rule triple_bindE [OF monitors])
    fix zs show "triple (\<lambda>w. ?T zs \<and> atW (s\<lparr>servers := xs, pools := ys\<rparr>) l v w)
        (putState (\<lambda>s. s\<lparr>tcpMonitors := zs\<rparr>)) ?Q ?E"
      by (rule triple_pure_pre, rule triple_putState) (use that in \<open>auto simp: synced_def\<close>)
  qed auto
  have 2: "triple (atW (s\<lparr>servers := xs\<rparr>) l v)
      (bindIO (callAccess (\<lambda>a. FindPools a (clusterName s) (objectName s))) (\<lambda>found. bindIO (putState (\<lambda>s. s\<lparr>pools := found\<rparr>)) (\<lambda>_.
       bindIO (callAccess (\<lambda>a. FindTCPMonitors a (clusterName s) (objectName s))) (\<lambda>found. putState (\<lambda>s. s\<lparr>tcpMonitors := found\<rparr>))))) ?Q ?E"
    if "?M xs" for xs
  proof (rule triple_bindE [OF pools])
    fix ys show "triple (\<lambda>w. ?P ys \<and> atW (s\<lparr>servers := xs\<rparr>) l v w) (bindIO (putState (\<lambda>s. s\<lparr>pools := ys\<rparr>)) (\<lambda>_.
       bindIO (callAccess (\<lambda>a. FindTCPMonitors a (clusterName s) (objectName s))) (\<lambda>found. putState (\<lambda>s. s\<lparr>tcpMonitors := found\<rparr>)))) ?Q ?E"
      by (rule triple_pure_pre, rule triple_putState_bind) (use 3 [OF that] in simp)
  qed auto
  have "triple (\<lambda>w. ?M xs \<and> atW s l v w) (bindIO (putState (\<lambda>s. s\<lparr>servers := xs\<rparr>)) (\<lambda>_.
      bindIO (callAccess (\<lambda>a. FindPools a (clusterName s) (objectName s))) (\<lambda>found. bindIO (putState (\<lambda>s. s\<lparr>pools := found\<rparr>)) (\<lambda>_.
       bindIO (callAccess (\<lambda>a. FindTCPMonitors a (clusterName s) (objectName s))) (\<lambda>found. putState (\<lambda>s. s\<lparr>tcpMonitors := found\<rparr>)))))) ?Q ?E" for xs
    by (rule triple_pure_pre, rule triple_putState_bind) (rule 2)
  then show ?thesis
    unfolding findObjects_def by (intro triple_getState triple_bindE [OF servers]) auto
qed

lemma cleanup:
  assumes a: "broker (access l) = B" and sync: "synced tg s v"
  shows "triple (atW s l v) (bindIO deleteOrphanVirtualServers (\<lambda>ids. bindIO (deleteOrphanPools ids) deleteOrphanTCPMonitors))
    (\<lambda>_. \<lambda>(s', l', b). \<exists>v'. at v' b \<and> s' = s \<and> l' = l \<and> cleaned s v v')
    (\<lambda>_. \<lambda>(s', l', b). s' = s \<and> l' = l \<and> (\<exists>v'. at v' b \<and> safe tg v v'))"
    (is "triple _ _ ?Q ?E")
proof -
  from sync have m: "mirrors vs_Id (\<lambda>x. checkTags (vs_Tags x) tg) (\<lambda>_. True) (servers s) (v_servers v)"
     "mirrors pool_Id (\<lambda>x. checkTags (pool_Tags x) tg) (\<lambda>_. True) (pools s) (v_pools v)"
     "mirrors mon_Id (\<lambda>x. checkTags (mon_Tags x) tg) tcpTyped (tcpMonitors s) (v_monitors v)"
    unfolding synced_def by blast+
  have "triple (\<lambda>(s', l', b). \<exists>v'. at v' b \<and> s' = s \<and> l' = l \<and>
       serversGone {x \<in> set (servers s). orphanServer (s_Ports (service s)) x} v v' \<and>
       ids = vs_PoolId ` {x \<in> set (servers s). \<not> orphanServer (s_Ports (service s)) x})
      (bindIO (deleteOrphanPools ids) deleteOrphanTCPMonitors) ?Q ?E" for ids
  proof (rule triple_world, elim conjE)
    fix s' v1 and l' :: "'s lbService" assume s': "s' = s" "l' = l"
      and gone: "serversGone {x \<in> set (servers s). orphanServer (s_Ports (service s)) x} v v1"
      and ids: "ids = vs_PoolId ` {x \<in> set (servers s). \<not> orphanServer (s_Ports (service s)) x}"
    have eq: "v_pools v1 = v_pools v" "v_monitors v1 = v_monitors v" using gone by (auto simp: serversGone_def)
    have safe: "safe tg v v1" by (rule serversGone_safe [OF gone m(1)]) auto
    have safe2: "safe tg v (v1\<lparr>v_pools := without pool_Id {x \<in> set (pools s). orphanPool (s_Ports (service s)) ids x} (v_pools v1)\<rparr>)"
      using safe without_foreign [OF m(2), of "{x \<in> set (pools s). orphanPool (s_Ports (service s)) ids x}"]
      by (auto simp: safe_def others_kept_def attached_def addresses_kept_def eq)
    show "triple (atW s' l' v1) (bindIO (deleteOrphanPools ids) deleteOrphanTCPMonitors) ?Q ?E"
      unfolding s'
    proof (rule triple_bindE [OF delete_orphan_pools [OF a m(2) [folded eq(1)]]], rule triple_world, elim conjE)
      fix mids s'' v2 and l'' :: "'s lbService" assume s'': "s'' = s" "l'' = l"
        and v2: "v2 = v1\<lparr>v_pools := without pool_Id {x \<in> set (pools s). orphanPool (s_Ports (service s)) ids x} (v_pools v1)\<rparr>"
        and mids: "mids = (\<Union>x \<in> {x \<in> set (pools s). \<not> orphanPool (s_Ports (service s)) ids x}. set (pool_ActiveMonitorIds x))"
      have "v_monitors v2 = v_monitors v" by (simp add: v2 eq)
      then have mon: "mirrors mon_Id (\<lambda>x. checkTags (mon_Tags x) tg) tcpTyped (tcpMonitors s) (v_monitors v2)" using m(3) by simp
      have "cleaned s v (v2\<lparr>v_monitors := without mon_Id {x \<in> set (tcpMonitors s). orphanMonitor (s_Ports (service s)) mids x} (v_monitors v2)\<rparr>)"
        using gone unfolding cleaned_def Let_def ids [symmetric] mids [symmetric] by (simp add: v2 serversGone_def attached_def)
      then show "triple (atW s'' l'' v2) (deleteOrphanTCPMonitors mids) ?Q ?E"
        unfolding s'' by (intro triple_post [OF delete_orphan_monitors [OF a mon]]) (use safe2 [folded v2] in \<open>auto intro: safe_trans\<close>)
    qed (use safe in \<open>auto intro: safe_trans\<close>)
  qed
  then show ?thesis by (rule triple_bind [OF delete_orphan_servers [OF a m(1)]])
qed

abbreviation "failed s l v \<equiv> \<lambda>(s', l', b). \<exists>v'. at v' b \<and> access l' = access l \<and> service s' = service s \<and>
  (ipAddress s' \<noteq> '''' \<longrightarrow> lbClass s' \<noteq> None) \<and> safe (T s l) v v'"

lemma process:
  assumes a: "broker (access l) = B" "access_wf (access l)" and c: "classTagsOk c" and s: "ipAddress s = ''''"
  shows "triple (atW s l v) (Process ord c)
    (\<lambda>_. \<lambda>(s', l', b). \<exists>v'. at v' b \<and> access l' = access l \<and> lbClass s' \<noteq> None \<and> processed (T s l) c s v s' v')
    (\<lambda>_. failed s l v)"
    (is "triple _ _ ?Q ?E")
  unfolding Process_def
proof (rule triple_bindE [OF find_objects [OF a(1)]])
  let ?rest = "bindIO (putState (adoptClass c)) (\<lambda>_. bindIO getState (\<lambda>s. bindIO (forIO (processPort ord) (s_Ports (service s))) (\<lambda>_.
     bindIO deleteOrphanVirtualServers (\<lambda>ids. bindIO (deleteOrphanPools ids) deleteOrphanTCPMonitors))))"
  have "triple (atW s1 l v) ?rest ?Q ?E"
    if s1: "s1 = s\<lparr>servers := servers s1, pools := pools s1, tcpMonitors := tcpMonitors s1\<rparr>" "synced (T s l) s1 v"
      "\<forall>x \<in> set (tcpMonitors s1). tcpTyped x" for s1
  proof -
    let ?a = "adoptClass c s1"
    have job: "T ?a l = T s l" "service ?a = service s" by (simp_all, (subst s1(1), simp)+)
    obtain c' where c': "lbClass ?a = Some c'" "classTagsOk c'" using adoptClass_class [OF c, of s1] by blast
    have sync: "synced (T ?a l) ?a v" using s1(2) unfolding job(1) by (simp add: synced_def)
    have clean: "triple (atW s2 l2 v2) (bindIO deleteOrphanVirtualServers (\<lambda>ids. bindIO (deleteOrphanPools ids) deleteOrphanTCPMonitors)) ?Q ?E"
      if l2: "access l2 = access l" and p: "portsDone (T ?a l) (s_Ports (service ?a)) ?a v s2 v2" for s2 v2 and l2 :: "'s lbService"
    proof (rule triple_post [OF cleanup])
      have more: "service s2 = service s" "lbClass s2 = Some c'" "safe (T s l) v v2"
        using p c' unfolding job portsDone_def sameJob_def by auto
      show "broker (access l2) = B" using a l2 by simp
      show "synced (T s l) s2 v2" using p unfolding job portsDone_def by blast
      show "?Q u w" if "case w of (s', l', b) \<Rightarrow> \<exists>v'. at v' b \<and> s' = s2 \<and> l' = l2 \<and> cleaned s2 v2 v'" for u w
        using that more(2) l2 processed_intro [OF s1 p [unfolded job]] by auto
      show "?E e w" if "case w of (s', l', b) \<Rightarrow> s' = s2 \<and> l' = l2 \<and> (\<exists>v'. at v' b \<and> safe (T s l) v2 v')" for e w
        using that more l2 by (auto intro: safe_trans)
    qed
    show ?thesis
    proof (rule triple_putState_bind, rule triple_getState, rule triple_bindE [OF process_ports [OF a c' sync]])
      show "triple (\<lambda>(s', l', b). \<exists>v'. at v' b \<and> access l' = access l \<and> portsDone (T ?a l) (s_Ports (service ?a)) ?a v s' v')
        (bindIO deleteOrphanVirtualServers (\<lambda>ids. bindIO (deleteOrphanPools ids) deleteOrphanTCPMonitors)) ?Q ?E"
        by (rule triple_world) (use clean in blast)
    qed (use c' job in auto)
  qed
  then show "triple (\<lambda>(s', l', b). at v b \<and> l' = l \<and> s' = s\<lparr>servers := servers s', pools := pools s', tcpMonitors := tcpMonitors s'\<rparr> \<and>
       synced (T s l) s' v \<and> (\<forall>x \<in> set (tcpMonitors s'). tcpTyped x)) ?rest ?Q ?E"
    by (fastforce simp: triple_def)
  fix e and w :: "'s world"
  assume "case w of (s', l', b) \<Rightarrow> at v b \<and> l' = l \<and> s' = s\<lparr>servers := servers s', pools := pools s', tcpMonitors := tcpMonitors s'\<rparr>"
  then obtain s' b where w: "w = (s', l, b)" "at v b" "s' = s\<lparr>servers := servers s', pools := pools s', tcpMonitors := tcpMonitors s'\<rparr>"
    by (cases w) auto
  have "service s' = service s" "ipAddress s' = ''''" using s by (subst w(3), simp)+
  with w(1,2) show "?E e w" by auto
qed

end

end
