(* ===== verification/Key_Lock.thy ===== *)
theory Key_Lock
  imports Prelude
begin

text \<open>
  The lock per service (\<open>lock.go\<close>): a map from keys to mutexes, guarded by a mutex of its
  own. First the two operations as a goroutine that runs alone sees them; then the
  operations statement by statement, for any number of goroutines that interleave.
\<close>

section \<open>The operations of one goroutine\<close>

text \<open>The mutex of a key, as whether it is held; \<open>None\<close> while the map has no entry.\<close>

type_synonym keyLock = "string \<Rightarrow> bool option"

definition newKeyLock :: keyLock where
  "newKeyLock = (\<lambda>_. None)"

text \<open>
  \<open>Lock\<close> on a held mutex never returns when no other goroutine runs, which the Go runtime
  reports as a deadlock.
\<close>

definition keyLock_Lock :: "string \<Rightarrow> (keyLock, unit) io" where
  "keyLock_Lock key = (\<lambda>k.
     case k key of
       Some True \<Rightarrow> (Panic ''all goroutines are asleep - deadlock!'', k)
     | _ \<Rightarrow> (Ok (), k(key \<mapsto> True)))"

definition keyLock_Unlock :: "string \<Rightarrow> (keyLock, unit) io" where
  "keyLock_Unlock key = (\<lambda>k.
     case k key of
       None \<Rightarrow> (Panic (''unlock of unknown keyLock '' @ key), k)
     | Some False \<Rightarrow> (Panic ''sync: unlock of unlocked mutex'', k)
     | Some True \<Rightarrow> (Ok (), k(key \<mapsto> False)))"

text \<open>\<open>defer unlock()\<close>: it runs after the body, whichever way the body ends.\<close>

definition deferred :: "('s, unit) io \<Rightarrow> ('s, 'a) io \<Rightarrow> ('s, 'a) io" where
  "deferred g f = (\<lambda>s. case f s of (r, s') \<Rightarrow>
     (case g s' of (Panic m, s'') \<Rightarrow> (Panic m, s'') | (_, s'') \<Rightarrow> (r, s'')))"

lemma triple_deferred:
  assumes "triple P f Q' E'" "\<And>v. triple (Q' v) g (\<lambda>_. Q v) (\<lambda>_. Q v)" "\<And>e. triple (E' e) g (\<lambda>_. E e) (\<lambda>_. E e)"
  shows "triple P (deferred g f) Q E"
proof (rule tripleI)
  fix s assume "P s"
  with assms(1) show "post Q E (deferred g f s)"
  proof (cases rule: triple_elim)
    case (Ok v s')
    then show ?thesis using tripleD [OF assms(2), of v s'] by (auto simp: deferred_def elim!: post_cases)
  next
    case (Err e s')
    then show ?thesis using tripleD [OF assms(3), of e s'] by (auto simp: deferred_def elim!: post_cases)
  qed
qed

text \<open>
  What a client of a lock per key relies on: a key that is not taken can be locked, a taken key
  can be unlocked, and other keys stay as they are. A body between lock and deferred unlock needs
  no more than that.
\<close>

locale key_mutex =
  fixes lock unlock :: "'k \<Rightarrow> ('l, unit) io" and taken :: "'l \<Rightarrow> 'k \<Rightarrow> bool" and hold release :: "'k \<Rightarrow> 'l \<Rightarrow> 'l"
  assumes lock_free: "\<not> taken s k \<Longrightarrow> lock k s = (Ok (), hold k s)"
    and unlock_taken: "taken s k \<Longrightarrow> unlock k s = (Ok (), release k s)"
    and taken_hold: "taken (hold k s) j \<longleftrightarrow> j = k \<or> taken s j"
    and taken_release: "taken (release k s) j \<longleftrightarrow> j \<noteq> k \<and> taken s j"
begin

lemma guarded:
  assumes free: "\<And>s. P s \<Longrightarrow> \<not> taken s k"
    and f: "triple (\<lambda>x. \<exists>s. P s \<and> x = hold k s) f (\<lambda>v x. taken x k \<and> Q v (release k x)) (\<lambda>e x. taken x k \<and> E e (release k x))"
  shows "triple P (bindIO (lock k) (\<lambda>_. deferred (unlock k) f)) Q E"
proof -
  have lock: "triple P (lock k) (\<lambda>_ x. \<exists>s. P s \<and> x = hold k s) E" by (rule tripleI) (auto simp: lock_free free)
  have unlock: "triple (\<lambda>x. taken x k \<and> R (release k x)) (unlock k) (\<lambda>_. R) (\<lambda>_. R)" for R
    by (rule tripleI) (auto simp: unlock_taken)
  show ?thesis by (rule triple_bind [OF lock], rule triple_deferred [OF f]) (rule unlock)+
qed

lemma guarded_balanced:
  assumes "\<not> taken s k" "triple (\<lambda>x. x = hold k s) f (\<lambda>_ x. taken x = taken (hold k s)) (\<lambda>_ x. taken x = taken (hold k s))"
  shows "triple (\<lambda>x. x = s) (bindIO (lock k) (\<lambda>_. deferred (unlock k) f)) (\<lambda>_ x. taken x = taken s) (\<lambda>_ x. taken x = taken s)"
proof (rule guarded)
  have released: "taken x k \<and> taken (release k x) = taken s" if "taken x = taken (hold k s)" for x
    using assms(1) that by (auto simp: taken_hold taken_release fun_eq_iff)
  show "triple (\<lambda>x. \<exists>s'. s' = s \<and> x = hold k s') f (\<lambda>_ x. taken x k \<and> taken (release k x) = taken s) (\<lambda>_ x. taken x k \<and> taken (release k x) = taken s)"
    by (rule triple_conseq [OF assms(2)]) (use released in auto)
qed (use assms(1) in simp)

end

interpretation kl: key_mutex keyLock_Lock keyLock_Unlock "\<lambda>l k. l k = Some True" "\<lambda>k l. l(k \<mapsto> True)" "\<lambda>k l. l(k \<mapsto> False)"
  by unfold_locales (auto simp: keyLock_Lock_def keyLock_Unlock_def split: option.split bool.split)

section \<open>Interleaved goroutines\<close>

text \<open>
  Where a goroutine is: outside, in \<open>Lock\<close> before it has the guard, holding the guard,
  waiting for the mutex of its key, inside, in \<open>Unlock\<close> before and after it has the
  guard, or dead after a panic.
\<close>

datatype pc = Idle | WantGuard string | InGuard string | WantKey string | Inside string
  | UnlockWant string | UnlockGuard string | Crashed

text \<open>
  The guard with its holder, the mutexes that exist with their holders, and the program
  counters of the goroutines.
\<close>

record 't locks =
  guard :: "'t option"
  keys :: "string \<Rightarrow> 't option option"
  pcs :: "'t \<Rightarrow> pc"

definition lock_init :: "'t locks" where
  "lock_init = \<lparr>guard = None, keys = (\<lambda>_. None), pcs = (\<lambda>_. Idle)\<rparr>"

inductive lock_step :: "'t locks \<Rightarrow> 't locks \<Rightarrow> bool" where
  call_lock: "pcs s t = Idle \<Longrightarrow> lock_step s (s\<lparr>pcs := (pcs s)(t := WantGuard k)\<rparr>)"
| take_guard: "pcs s t = WantGuard k \<Longrightarrow> guard s = None \<Longrightarrow>
    lock_step s (s\<lparr>guard := Some t, pcs := (pcs s)(t := InGuard k)\<rparr>)"
| find_mutex: "pcs s t = InGuard k \<Longrightarrow>
    lock_step s (s\<lparr>guard := None,
      keys := (case keys s k of None \<Rightarrow> (keys s)(k \<mapsto> None) | Some _ \<Rightarrow> keys s),
      pcs := (pcs s)(t := WantKey k)\<rparr>)"
| take_key: "pcs s t = WantKey k \<Longrightarrow> keys s k = Some None \<Longrightarrow>
    lock_step s (s\<lparr>keys := (keys s)(k \<mapsto> Some t), pcs := (pcs s)(t := Inside k)\<rparr>)"
| call_unlock: "pcs s t = Inside k \<Longrightarrow> lock_step s (s\<lparr>pcs := (pcs s)(t := UnlockWant k)\<rparr>)"
| take_guard_unlock: "pcs s t = UnlockWant k \<Longrightarrow> guard s = None \<Longrightarrow>
    lock_step s (s\<lparr>guard := Some t, pcs := (pcs s)(t := UnlockGuard k)\<rparr>)"
| release: "pcs s t = UnlockGuard k \<Longrightarrow> keys s k = Some (Some u) \<Longrightarrow>
    lock_step s (s\<lparr>guard := None, keys := (keys s)(k \<mapsto> None), pcs := (pcs s)(t := Idle)\<rparr>)"
| unknown_key: "pcs s t = UnlockGuard k \<Longrightarrow> keys s k = None \<Longrightarrow>
    lock_step s (s\<lparr>guard := None, pcs := (pcs s)(t := Crashed)\<rparr>)"
| not_locked: "pcs s t = UnlockGuard k \<Longrightarrow> keys s k = Some None \<Longrightarrow>
    lock_step s (s\<lparr>guard := None, pcs := (pcs s)(t := Crashed)\<rparr>)"

inductive lock_reachable :: "'t locks \<Rightarrow> bool" where
  init: "lock_reachable lock_init"
| step: "lock_reachable s \<Longrightarrow> lock_step s s' \<Longrightarrow> lock_reachable s'"

inductive_cases lock_stepE: "lock_step s s'"

definition holdsKey :: "pc \<Rightarrow> string \<Rightarrow> bool" where
  "holdsKey p k \<longleftrightarrow> p = Inside k \<or> p = UnlockWant k \<or> p = UnlockGuard k"

definition holdsGuard :: "pc \<Rightarrow> bool" where
  "holdsGuard p \<longleftrightarrow> (\<exists>k. p = InGuard k \<or> p = UnlockGuard k)"

text \<open>
  The guard and the mutexes are held by exactly the goroutines whose counters say so, the
  mutex of a key somebody waits for exists, and nobody has crashed.
\<close>

definition lock_inv :: "'t locks \<Rightarrow> bool" where
  "lock_inv s \<longleftrightarrow>
     (\<forall>t. holdsGuard (pcs s t) \<longleftrightarrow> guard s = Some t) \<and>
     (\<forall>t k. holdsKey (pcs s t) k \<longleftrightarrow> keys s k = Some (Some t)) \<and>
     (\<forall>t k. pcs s t = WantKey k \<longrightarrow> keys s k \<noteq> None) \<and>
     (\<forall>t. pcs s t \<noteq> Crashed)"

lemmas lock_inv_defs = lock_inv_def holdsKey_def holdsGuard_def

lemma lock_inv_init: "lock_inv lock_init"
  by (simp add: lock_inv_defs lock_init_def)

lemma holds_simps [simp]:
  "\<not> holdsKey Idle k" "\<not> holdsKey (WantGuard j) k" "\<not> holdsKey (InGuard j) k" "\<not> holdsKey (WantKey j) k"
  "holdsKey (Inside j) k \<longleftrightarrow> j = k" "holdsKey (UnlockWant j) k \<longleftrightarrow> j = k" "holdsKey (UnlockGuard j) k \<longleftrightarrow> j = k"
  "\<not> holdsGuard Idle" "\<not> holdsGuard (WantGuard j)" "holdsGuard (InGuard j)" "\<not> holdsGuard (WantKey j)"
  "\<not> holdsGuard (Inside j)" "\<not> holdsGuard (UnlockWant j)" "holdsGuard (UnlockGuard j)"
  by (auto simp: holdsKey_def holdsGuard_def)

lemma lock_invD:
  assumes "lock_inv s"
  shows "holdsGuard (pcs s t) \<longleftrightarrow> guard s = Some t" "holdsKey (pcs s t) k \<longleftrightarrow> keys s k = Some (Some t)"
    "pcs s t = WantKey k \<Longrightarrow> keys s k \<noteq> None" "pcs s t \<noteq> Crashed"
  using assms by (simp_all add: lock_inv_def)

lemma lock_inv_step: "lock_step s s' \<Longrightarrow> lock_inv s \<Longrightarrow> lock_inv s'"
proof (induction rule: lock_step.induct)
  case (call_lock s t k)
  with lock_invD [OF call_lock(2)] lock_invD(1,2) [OF call_lock(2), of t] show ?case by (auto simp: lock_inv_def)
next
  case (take_guard s t k)
  with lock_invD [OF take_guard(3)] lock_invD(1,2) [OF take_guard(3), of t] show ?case by (auto simp: lock_inv_def)
next
  case (find_mutex s t k)
  let ?keys = "case keys s k of None \<Rightarrow> (keys s)(k \<mapsto> None) | Some _ \<Rightarrow> keys s"
  have held: "?keys k' = Some (Some u) \<longleftrightarrow> keys s k' = Some (Some u)" for k' u by (auto split: option.split)
  have known: "?keys k' \<noteq> None" if "keys s k' \<noteq> None \<or> k' = k" for k' using that by (auto split: option.split)
  from find_mutex lock_invD [OF find_mutex(2)] lock_invD(1,2) [OF find_mutex(2), of t] known
  show ?case by (auto simp: lock_inv_def held)
next
  case (take_key s t k)
  with lock_invD [OF take_key(3)] lock_invD(1,2) [OF take_key(3), of t] show ?case by (auto simp: lock_inv_def)
next
  case (call_unlock s t k)
  with lock_invD [OF call_unlock(2)] lock_invD(1,2) [OF call_unlock(2), of t] show ?case by (auto simp: lock_inv_def)
next
  case (take_guard_unlock s t k)
  with lock_invD [OF take_guard_unlock(3)] lock_invD(1,2) [OF take_guard_unlock(3), of t] show ?case by (auto simp: lock_inv_def)
next
  case (release s t k u)
  then have key: "keys s k' = Some (Some t) \<longleftrightarrow> k' = k" for k' using lock_invD(2) [OF release(3), of t k'] by auto
  have "u = t" using release(2) key [of k] by simp
  with release(2) have held: "keys s k = Some (Some w) \<longleftrightarrow> w = t" for w by auto
  with release(1) key lock_invD [OF release(3)] lock_invD(1) [OF release(3), of t] show ?case by (auto simp: lock_inv_def)
next
  case (unknown_key s t k)
  with lock_invD(2) [OF unknown_key(3), of t k] show ?case by simp
next
  case (not_locked s t k)
  with lock_invD(2) [OF not_locked(3), of t k] show ?case by simp
qed

lemma lock_reachable_inv: "lock_reachable s \<Longrightarrow> lock_inv s"
  by (induction rule: lock_reachable.induct) (auto intro: lock_inv_init lock_inv_step)

text \<open>Progress of the goroutine that holds the guard, and of one that holds a key.\<close>

lemma guard_progress:
  assumes "lock_inv s" "guard s = Some u"
  shows "\<exists>s'. lock_step s s' \<and> pcs s u \<noteq> Idle \<and> pcs s' u \<noteq> pcs s u"
proof -
  from assms have "holdsGuard (pcs s u)" by (simp add: lock_inv_def)
  then consider (lock) k where "pcs s u = InGuard k" | (unlock) k where "pcs s u = UnlockGuard k"
    by (auto simp: holdsGuard_def)
  then show ?thesis
  proof cases
    case (lock k)
    with lock_step.find_mutex [OF lock] show ?thesis by (intro exI conjI) auto
  next
    case (unlock k)
    then have "holdsKey (pcs s u) k" by (simp add: holdsKey_def)
    with assms(1) have "keys s k = Some (Some u)" by (simp add: lock_inv_def)
    from lock_step.release [OF unlock this] unlock show ?thesis by (intro exI conjI) auto
  qed
qed

lemma want_guard_progress:
  assumes "lock_inv s" "pcs s t = WantGuard k \<or> pcs s t = UnlockWant k"
  shows "\<exists>s' u. lock_step s s' \<and> pcs s u \<noteq> Idle \<and> pcs s' u \<noteq> pcs s u"
proof (cases "guard s")
  case None
  from assms(2) show ?thesis
  proof
    assume "pcs s t = WantGuard k"
    from lock_step.take_guard [OF this None] this show ?thesis by (intro exI [of _ t] exI conjI) auto
  next
    assume "pcs s t = UnlockWant k"
    from lock_step.take_guard_unlock [OF this None] this show ?thesis by (intro exI [of _ t] exI conjI) auto
  qed
next
  case (Some u)
  with guard_progress [OF assms(1)] show ?thesis by blast
qed

section \<open>Properties\<close>

text \<open>
  C16. Mutual exclusion: in every state that any number of goroutines can reach by any
  interleaving of the statements of \<open>Lock\<close> and \<open>Unlock\<close>, at most one goroutine is between
  \<open>Lock(key)\<close> and \<open>Unlock(key)\<close>, for every key; and no goroutine ever panics, neither for an
  unknown key nor for a mutex that is not locked.
\<close>

theorem keyLock_mutual_exclusion:
  assumes "lock_reachable s"
  shows "(\<forall>t u k. holdsKey (pcs s t) k \<and> holdsKey (pcs s u) k \<longrightarrow> t = u) \<and> (\<forall>t. pcs s t \<noteq> Crashed)"
  using lock_reachable_inv [OF assms] unfolding lock_inv_def by (metis option.inject)

definition example_locked :: "nat locks" where
  "example_locked = \<lparr>guard = None, keys = (\<lambda>_. None)(''ns/web'' \<mapsto> Some 0), pcs = (\<lambda>_. Idle)(0 := Inside ''ns/web'')\<rparr>"

lemma example_locked_reachable: "lock_reachable example_locked"
proof -
  let ?k = "''ns/web''"
  let ?s1 = "\<lparr>guard = None, keys = (\<lambda>_. None), pcs = (\<lambda>_. Idle)(0 := WantGuard ?k)\<rparr> :: nat locks"
  let ?s2 = "\<lparr>guard = Some 0, keys = (\<lambda>_. None), pcs = (\<lambda>_. Idle)(0 := InGuard ?k)\<rparr> :: nat locks"
  let ?s3 = "\<lparr>guard = None, keys = (\<lambda>_. None)(?k \<mapsto> None), pcs = (\<lambda>_. Idle)(0 := WantKey ?k)\<rparr> :: nat locks"
  have "lock_step lock_init ?s1" using lock_step.call_lock [of lock_init "0 :: nat" ?k] by (simp add: lock_init_def)
  moreover have "lock_step ?s1 ?s2" using lock_step.take_guard [of ?s1 0 ?k] by simp
  moreover have "lock_step ?s2 ?s3" using lock_step.find_mutex [of ?s2 0 ?k] by simp
  moreover have "lock_step ?s3 example_locked" using lock_step.take_key [of ?s3 0 ?k] by (simp add: example_locked_def)
  ultimately show ?thesis using lock_reachable.init lock_reachable.step by metis
qed

theorem keyLock_mutual_exclusion_witness:
  "holdsKey (pcs example_locked 0) ''ns/web'' \<and> \<not> holdsKey (pcs example_locked 1) ''ns/web''"
proof -
  have "holdsKey (pcs example_locked 0) ''ns/web''" by (simp add: example_locked_def holdsKey_def)
  with keyLock_mutual_exclusion [OF example_locked_reachable] show ?thesis by (metis zero_neq_one)
qed



end
