(* ===== verification/LB_Provider.thy ===== *)
theory LB_Provider
  imports Reconcile Key_Lock
begin

text \<open>
  The cloud provider operations (\<open>lbprovider.go\<close>): ensure, update, delete and get a load
  balancer, and the construction of the provider from a configuration. What they do is
  proved for every backend with the contract of \<open>nsxt_backend\<close>; the backend of the
  simulation mode is one.
\<close>

section \<open>The provider\<close>

definition LoadBalancerClassAnnotation :: string where
  "LoadBalancerClassAnnotation = ''loadbalancer.vmware.io/class''"

record 's lbProvider =
  lbService :: "'s lbService"
  classes :: loadBalancerClasses
  keyLock :: keyLock

text \<open>
  Computations on the lock and computations on a fresh state object, which shares the load
  balancer service object of the provider.
\<close>

definition onKeyLock :: "(keyLock, 'a) io \<Rightarrow> ('s lbProvider \<times> 's, 'a) io" where
  "onKeyLock f = (\<lambda>(p, b). case f (keyLock p) of (r, k) \<Rightarrow> (r, (p\<lparr>keyLock := k\<rparr>, b)))"

definition withState :: "state \<Rightarrow> ('s world, 'a) io \<Rightarrow> ('s lbProvider \<times> 's, 'a) io" where
  "withState st f = (\<lambda>(p, b). case f (st, lbService p, b) of (r, (_, l, b')) \<Rightarrow> (r, (p\<lparr>lbService := l\<rparr>, b')))"

definition locked :: "string \<Rightarrow> ('s lbProvider \<times> 's, 'a) io \<Rightarrow> ('s lbProvider \<times> 's, 'a) io" where
  "locked key f = bindIO (onKeyLock (keyLock_Lock key)) (\<lambda>_. deferred (onKeyLock (keyLock_Unlock key)) f)"

text \<open>The provider with its lock keeps the contract of a lock per key.\<close>

interpretation pl: key_mutex "\<lambda>k. onKeyLock (keyLock_Lock k)" "\<lambda>k. onKeyLock (keyLock_Unlock k)" "\<lambda>(p, b) k. keyLock p k = Some True"
    "\<lambda>k (p, b). (p\<lparr>keyLock := (keyLock p)(k \<mapsto> True)\<rparr>, b)" "\<lambda>k (p, b). (p\<lparr>keyLock := (keyLock p)(k \<mapsto> False)\<rparr>, b)"
  by unfold_locales (auto simp: onKeyLock_def kl.lock_free kl.unlock_taken split: if_splits)

definition classFromService :: "loadBalancerClasses \<Rightarrow> Service \<Rightarrow> error + loadBalancerClass" where
  "classFromService cs svc =
     (let name = (case map_of (s_Annotations svc) LoadBalancerClassAnnotation of
                    None \<Rightarrow> '''' | Some n \<Rightarrow> TrimSpace n);
          name = (if name = '''' then DefaultLoadBalancerClass else name)
      in case GetClass cs name of
           None \<Rightarrow> Inl (Errorf ''invalid load balancer class %s'' [name])
         | Some c \<Rightarrow> Inr c)"

definition GetLoadBalancer ::
  "string \<Rightarrow> Service \<Rightarrow> ('s lbProvider \<times> 's, LoadBalancerStatus option \<times> bool) io" where
  "GetLoadBalancer cluster svc =
     bindIO (getsIO (\<lambda>(p, _). access (lbService p))) (\<lambda>a.
     bindIO (onSnd (FindVirtualServers a cluster (objectNameFromService svc))) (\<lambda>found.
     ret (case found of [] \<Rightarrow> (None, False) | x # _ \<Rightarrow> (Some (newLoadBalancerStatus (vs_IpAddress x)), True))))"

definition GetLoadBalancerName :: "string \<Rightarrow> Service \<Rightarrow> string" where
  "GetLoadBalancerName cluster svc = cluster @ '':'' @ s_Namespace svc @ '':'' @ s_Name svc"

text \<open>The status and the error are returned together, as in the source.\<close>

definition EnsureLoadBalancer ::
  "('s, string) order \<Rightarrow> string \<Rightarrow> Service \<Rightarrow> Node list \<Rightarrow>
   ('s lbProvider \<times> 's, LoadBalancerStatus option \<times> error option) io" where
  "EnsureLoadBalancer ord cluster svc ns =
     locked (nn_String (objectNameFromService svc))
       (bindIO (getsIO (\<lambda>(p, _). classFromService (classes p) svc)) (\<lambda>found.
        case found of
          Inl e \<Rightarrow> ret (None, Some e)
        | Inr c \<Rightarrow>
            withState (newState cluster svc ns)
              (bindIO (tryIO (Process ord c)) (\<lambda>r.
               bindIO (tryIO Finish) (\<lambda>f.
               ret (case f of Inl _ \<Rightarrow> None | Inr status \<Rightarrow> status,
                    case r of Inl err \<Rightarrow> Some err | Inr _ \<Rightarrow> (case f of Inl err2 \<Rightarrow> Some err2 | Inr _ \<Rightarrow> None)))))))"

definition UpdateLoadBalancer ::
  "('s, string) order \<Rightarrow> string \<Rightarrow> Service \<Rightarrow> Node list \<Rightarrow> ('s lbProvider \<times> 's, unit) io" where
  "UpdateLoadBalancer ord cluster svc ns =
     locked (nn_String (objectNameFromService svc)) (withState (newState cluster svc ns) (UpdatePoolMembers ord))"

definition EnsureLoadBalancerDeleted ::
  "('s, string) order \<Rightarrow> string \<Rightarrow> Service \<Rightarrow> ('s lbProvider \<times> 's, unit) io" where
  "EnsureLoadBalancerDeleted ord cluster svc =
     bindIO (EnsureLoadBalancer ord cluster (svc\<lparr>s_Ports := []\<rparr>) []) (\<lambda>(_, err).
     case err of None \<Rightarrow> ret () | Some e \<Rightarrow> throw e)"

section \<open>Construction\<close>

text \<open>The configuration of the NSX-T client library, as far as the provider fills it in.\<close>

record nsxt_Configuration =
  nc_BasePath :: string
  nc_Host :: string
  nc_Scheme :: string
  nc_UserAgent :: string
  nc_UserName :: string
  nc_Password :: string
  nc_RemoteAuth :: bool
  nc_ClientAuthCertFile :: string
  nc_ClientAuthKeyFile :: string
  nc_CAFile :: string
  nc_Insecure :: bool
  nc_MaxRetries :: int
  nc_RetryMinDelay :: int
  nc_RetryMaxDelay :: int
  nc_RetryOnStatuses :: "int list"

definition clientConfiguration :: "string \<Rightarrow> NsxtConfig \<Rightarrow> nsxt_Configuration" where
  "clientConfiguration version cfg =
     \<lparr>nc_BasePath = ''/api/v1'', nc_Host = nsxt_Host cfg, nc_Scheme = ''https'',
      nc_UserAgent = ''nsxt-lb-provider/'' @ version, nc_UserName = nsxt_User cfg, nc_Password = nsxt_Password cfg,
      nc_RemoteAuth = nsxt_RemoteAuth cfg, nc_ClientAuthCertFile = nsxt_ClientAuthCertFile cfg,
      nc_ClientAuthKeyFile = nsxt_ClientAuthKeyFile cfg, nc_CAFile = nsxt_CAFile cfg,
      nc_Insecure = nsxt_InsecureFlag cfg, nc_MaxRetries = nsxt_MaxRetries cfg,
      nc_RetryMinDelay = nsxt_RetryMinDelay cfg, nc_RetryMaxDelay = nsxt_RetryMaxDelay cfg,
      nc_RetryOnStatuses = nsxt_RetryOnStatusCodes cfg\<rparr>"

text \<open>
  The broker is the simulation or the client library; \<open>newAPIClient\<close> is the constructor of
  the library.
\<close>

datatype 'c backend = Simulated inmem | Client "'c APIClient"

definition setupNsxtBroker ::
  "(nsxt_Configuration \<Rightarrow> error + 'c APIClient) \<Rightarrow> string \<Rightarrow> NsxtConfig \<Rightarrow> NsxtSimulation option \<Rightarrow> error + 'c backend" where
  "setupNsxtBroker newAPIClient version nsxtConfig nsxtSim =
     (case nsxtSim of
        Some sim \<Rightarrow> Inr (Simulated (NewInMemoryNsxtBroker (SimulatedIPPools sim)))
      | None \<Rightarrow> (case newAPIClient (clientConfiguration version nsxtConfig) of
            Inl err \<Rightarrow> Inl (Wrapf err ''creating NSX-T client failed'' [])
          | Inr client \<Rightarrow> Inr (Client client)))"

definition providerFor :: "('s, string) order \<Rightarrow> 's NsxtBroker \<Rightarrow> LBConfig \<Rightarrow> ('s, 's lbProvider) io" where
  "providerFor ord b cfg =
     (case NewAccess b cfg of
        Inl err \<Rightarrow> throw (Wrapf err ''creating access handler failed'' [])
      | Inr a \<Rightarrow>
          bindIO (wrapErr (\<lambda>err. Wrapf err ''creating load balancer classes failed'' []) (setupClasses ord a cfg)) (\<lambda>cs.
          ret \<lparr>lbService = newLbService a (lbc_LBServiceID (LoadBalancer cfg)), classes = cs, keyLock = newKeyLock\<rparr>))"

datatype 'c started = Disabled | Simulation "inmem lbProvider" inmem | Connected "'c lbProvider" 'c

definition NewLBProvider ::
  "(inmem, string) order \<Rightarrow> ('c, string) order \<Rightarrow> (nsxt_Configuration \<Rightarrow> error + 'c APIClient) \<Rightarrow> string \<Rightarrow>
   LBConfig \<Rightarrow> ('c, 'c started) io" where
  "NewLBProvider iord cord newAPIClient version cfg =
     (if \<not> IsEnabled cfg then ret Disabled
      else case setupNsxtBroker newAPIClient version (NSXT cfg) (NSXTSimulation cfg) of
        Inl err \<Rightarrow> throw err
      | Inr (Simulated b) \<Rightarrow>
          (case providerFor iord (inmemoryNsxtBroker iord) cfg b of
             (Ok p, b') \<Rightarrow> ret (Simulation p b')
           | (Err e, _) \<Rightarrow> throw e
           | (Panic m, _) \<Rightarrow> panic m)
      | Inr (Client client) \<Rightarrow>
          bindIO (providerFor cord (NewNsxtBroker client) cfg) (\<lambda>p.
          bindIO (getsIO (\<lambda>c. c)) (\<lambda>c. ret (Connected p c))))"

section \<open>Contracts over a backend\<close>

text \<open>A provider on a backend: well-formed tags, and classes whose tags do not disturb them.\<close>

definition provider_ok :: "'s NsxtBroker \<Rightarrow> 's lbProvider \<Rightarrow> bool" where
  "provider_ok B p \<longleftrightarrow> broker (access (lbService p)) = B \<and> access_wf (access (lbService p)) \<and>
     (\<forall>c \<in> ran (map_of (lbc_classes (classes p))).
        Scope ` set (class_Tags c) \<inter> {ScopeOwner, ScopeCluster, ScopeService} = {})"

abbreviation "serviceKey svc \<equiv> nn_String (objectNameFromService svc)"
abbreviation "serviceTags p cluster svc \<equiv> ownTags (access (lbService p)) cluster (objectNameFromService svc)"

lemma providerFor_cases:
  assumes "providerFor ord B cfg b = (Ok p, b')"
  obtains a cs where "NewAccess B cfg = Inr a" "setupClasses ord a cfg b = (Ok cs, b')"
    "p = \<lparr>lbService = newLbService a (lbc_LBServiceID (LoadBalancer cfg)), classes = cs, keyLock = newKeyLock\<rparr>"
  using assms by (auto simp: providerFor_def throw_def ret_def bindIO_Ok wrapErr_Ok split: sum.splits)

lemma providerFor_ok:
  assumes "providerFor ord B cfg b = (Ok p, b')" "distinct (map fst (LoadBalancerClasses cfg))"
  shows "provider_ok B p \<and> (\<forall>k. keyLock p k = None) \<and> GetClass (classes p) DefaultLoadBalancerClass \<noteq> None \<and>
    managed (lbService p) = (lbc_LBServiceID (LoadBalancer cfg) = '''')"
proof -
  from providerFor_cases [OF assms(1)] obtain a cs where a: "NewAccess B cfg = Inr a"
    and cs: "setupClasses ord a cfg b = (Ok cs, b')"
    and p: "p = \<lparr>lbService = newLbService a (lbc_LBServiceID (LoadBalancer cfg)), classes = cs, keyLock = newKeyLock\<rparr>" .
  note good = setupClasses_good [OF cs assms(2)]
  have "\<forall>c \<in> ran (map_of (lbc_classes cs)). Scope ` set (class_Tags c) \<inter> {ScopeOwner, ScopeCluster, ScopeService} = {}"
    using good by (auto simp: goodClass_def class_Tags_def ran_def)
  moreover have "map_of (lbc_classes cs) DefaultLoadBalancerClass \<noteq> None" using good by auto
  ultimately show ?thesis
    using NewAccess_wf [OF a] by (simp add: p provider_ok_def newLbService_def newKeyLock_def GetClass_def)
qed

lemma newState_fields [simp]:
  "clusterName (newState cl svc ns) = cl" "objectName (newState cl svc ns) = objectNameFromService svc"
  "service (newState cl svc ns) = svc" "nodes (newState cl svc ns) = ns" "ipAddress (newState cl svc ns) = ''''"
  "lbClass (newState cl svc ns) = None"
  by (simp_all add: newState_def)

lemma classFromService_ok:
  assumes "provider_ok B p" "classFromService (classes p) svc = Inr c"
  shows "Scope ` set (class_Tags c) \<inter> {ScopeOwner, ScopeCluster, ScopeService} = {}"
  using assms by (auto simp: provider_ok_def classFromService_def GetClass_def Let_def ran_def split: option.splits)

text \<open>
  The outcome of \<open>Process\<close> and \<open>Finish\<close> together, on the views before and after: a success
  with the result of \<open>Process\<close>, or a failure that kept the objects of others. A service
  without ports gives its address back, also when \<open>Process\<close> failed.
\<close>

definition ensured ::
  "tag list \<Rightarrow> loadBalancerClass \<Rightarrow> state \<Rightarrow> nsxt_view \<Rightarrow> LoadBalancerStatus option \<Rightarrow> error option \<Rightarrow> nsxt_view \<Rightarrow> bool" where
  "ensured tg c s v status err v' \<longleftrightarrow>
     (if err = None
      then \<exists>s' v1. processed tg c s v s' v1 \<and>
        (if s_Ports (service s) = [] then status = None \<and> v' = released s' v1
         else status = Some (newLoadBalancerStatus (ipAddress s')) \<and> v' = v1)
      else \<exists>s' v1. safe tg v v1 \<and> (v' = v1 \<or> s_Ports (service s) = [] \<and> v' = released s' v1))"

lemma ensured_errI:
  "safe tg v v1 \<Longrightarrow> v' = v1 \<or> s_Ports (service s) = [] \<and> v' = released s' v1 \<Longrightarrow> ensured tg c s v status (Some e) v'"
  by (auto simp: ensured_def)

lemma ensured_okI:
  "processed tg c s v s' v' \<Longrightarrow> s_Ports (service s) \<noteq> [] \<Longrightarrow>
   ensured tg c s v (Some (newLoadBalancerStatus (ipAddress s'))) None v'"
  "processed tg c s v s' v1 \<Longrightarrow> s_Ports (service s) = [] \<Longrightarrow> ensured tg c s v None None (released s' v1)"
  by (auto simp: ensured_def)

lemma processed_safe: "processed tg c s v s' v' \<Longrightarrow> safe tg v v' \<and> service s' = service s"
  by (simp add: processed_def Let_def)

lemma ensured_others: "ensured tg c s v status err v' \<Longrightarrow> others_kept tg v v'"
  by (auto simp: ensured_def safe_def split: if_splits dest!: processed_safe)

lemma ensured_addresses: "ensured tg c s v status err v' \<Longrightarrow> s_Ports (service s) \<noteq> [] \<Longrightarrow> addresses_kept v v'"
  by (auto simp: ensured_def safe_def split: if_splits dest!: processed_safe)

text \<open>A load balancer that is gone: nothing of the service is left, except monitors of other types.\<close>

definition emptied :: "tag list \<Rightarrow> nsxt_view \<Rightarrow> bool" where
  "emptied tg v \<longleftrightarrow> ownServers tg v = {} \<and> ownPools tg v = {} \<and> (\<forall>x \<in> ownMonitors tg v. mon_ResourceType x \<noteq> ''LbTcpMonitor'')"

text \<open>The address of a virtual server of the service was given back to the pool its tag names.\<close>

definition addressFreed :: "tag list \<Rightarrow> nsxt_view \<Rightarrow> nsxt_view \<Rightarrow> bool" where
  "addressFreed tg v v' \<longleftrightarrow> ownServers tg v = {} \<or>
     (\<exists>x \<in> ownServers tg v. vs_IpAddress x = '''' \<or>
        (\<forall>as. v_allocs v' (getTag (vs_Tags x) ScopeIPPoolID) = Some as \<longrightarrow> vs_IpAddress x \<notin> as))"

lemma noOrphans_emptied: "noOrphans tg [] v \<Longrightarrow> emptied tg v"
  by (auto simp: noOrphans_def emptied_def)

lemma adoptClass_server:
  "servers s = x # xs \<Longrightarrow> ipAddress (adoptClass c s) = vs_IpAddress x \<and>
   (\<exists>c'. lbClass (adoptClass c s) = Some c' \<and> ipPoolID c' = getTag (vs_Tags x) ScopeIPPoolID)"
  by (simp add: adoptClass_def Let_def newLBClass_def)

lemma processed_freed:
  assumes "processed tg c s0 v0 s v" "s_Ports (service s0) = []"
  shows "addressFreed tg v0 (released s v)"
proof -
  from assms obtain xs where xs: "mirrors vs_Id (\<lambda>x. checkTags (vs_Tags x) tg) (\<lambda>_. True) xs (v_servers v0)"
    "lbClass s = lbClass (adoptClass c (s0\<lparr>servers := xs\<rparr>))" "ipAddress s = ipAddress (adoptClass c (s0\<lparr>servers := xs\<rparr>))"
    unfolding processed_def Let_def by auto
  show ?thesis
  proof (cases xs)
    case Nil
    with ownSet_mirrors [OF xs(1)] show ?thesis by (simp add: addressFreed_def)
  next
    case (Cons x ys)
    then obtain c' where "ipAddress s = vs_IpAddress x" "lbClass s = Some c'" "ipPoolID c' = getTag (vs_Tags x) ScopeIPPoolID"
      using xs(2,3) adoptClass_server [of "s0\<lparr>servers := xs\<rparr>" x ys c] by auto
    moreover have "x \<in> ownServers tg v0" using ownSet_mirrors [OF xs(1)] Cons by simp
    ultimately show ?thesis by (auto simp: addressFreed_def released_def split: option.splits intro!: bexI [of _ x])
  qed
qed

lemma ensured_deleted:
  assumes "ensured tg c s v status None v'" "s_Ports (service s) = []"
  shows "others_kept tg v v' \<and> emptied tg v' \<and> addressFreed tg v v'"
proof -
  from assms obtain s' v1 where p: "processed tg c s v s' v1" and v': "v' = released s' v1" by (auto simp: ensured_def)
  then have "noOrphans tg [] v1" using assms(2) by (simp add: processed_def)
  then have "emptied tg v1" by (rule noOrphans_emptied)
  then show ?thesis using ensured_others [OF assms(1)] processed_freed [OF p assms(2)] by (simp add: v' emptied_def)
qed

context nsxt_backend
begin

lemma finish_step:
  assumes a: "broker (access l) = B" and c: "ipAddress s \<noteq> '''' \<longrightarrow> lbClass s \<noteq> None"
  shows "triple (atW s l v) Finish
    (\<lambda>r. \<lambda>(s', l', b). s' = s \<and> l' = l \<and>
       (if s_Ports (service s) = [] then r = None \<and> at (released s v) b
        else r = Some (newLoadBalancerStatus (ipAddress s)) \<and> at v b)) (\<lambda>_. atW s l v)"
proof -
  have "triple (atW s l v) (bindIO releaseResources (\<lambda>_. ret None)) (\<lambda>r w. r = None \<and> atW s l (released s v) w) (\<lambda>_. atW s l v)"
    by (rule triple_bindE [OF release_step [OF a c]]) (auto intro: triple_ret)
  then show ?thesis
    unfolding Finish_def by (intro triple_getState triple_if triple_ret) (auto elim!: triple_post)
qed

abbreviation "finishBoth r \<equiv> bindIO (tryIO Finish) (\<lambda>f.
  ret (case f of Inl _ \<Rightarrow> None | Inr status \<Rightarrow> status,
       case r of Inl err \<Rightarrow> Some err | Inr _ \<Rightarrow> (case f of Inl err2 \<Rightarrow> Some err2 | Inr _ \<Rightarrow> None)))"

lemma process_finish:
  assumes a: "broker (access l) = B" "access_wf (access l)" and c: "classTagsOk c" and s: "ipAddress s = ''''"
  shows "triple (atW s l v) (bindIO (tryIO (Process ord c)) finishBoth)
    (\<lambda>(status, err). \<lambda>(s', l', b). \<exists>v'. at v' b \<and> access l' = access l \<and> ensured (T s l) c s v status err v') (\<lambda>_ _. False)"
    (is "triple _ _ ?Q ?E")
proof -
  let ?done = "\<lambda>r s1 l1 v1. access l1 = access l \<and> service s1 = service s \<and> (ipAddress s1 \<noteq> '''' \<longrightarrow> lbClass s1 \<noteq> None) \<and>
      safe (T s l) v v1 \<and> (case r of Inl _ \<Rightarrow> True | Inr _ \<Rightarrow> processed (T s l) c s v s1 v1)"
  have process: "triple (atW s l v) (tryIO (Process ord c)) (\<lambda>r. \<lambda>(s1, l1, b). \<exists>v1. at v1 b \<and> ?done r s1 l1 v1) ?E"
    by (rule triple_try, rule triple_post [OF process [OF a c s]]) (auto dest: processed_safe)
  have "triple (atW s1 l1 v1) (finishBoth r) ?Q ?E" if d: "?done r s1 l1 v1" for r s1 v1 and l1 :: "'s lbService"
  proof -
    let ?fin = "\<lambda>f v'. case f of Inl _ \<Rightarrow> v' = v1
        | Inr status \<Rightarrow> if s_Ports (service s) = [] then status = None \<and> v' = released s1 v1
           else status = Some (newLoadBalancerStatus (ipAddress s1)) \<and> v' = v1"
    have fin: "triple (atW s1 l1 v1) (tryIO Finish) (\<lambda>f. \<lambda>(s', l', b). l' = l1 \<and> (\<exists>v'. at v' b \<and> ?fin f v')) ?E"
      by (rule triple_try, rule triple_post [OF finish_step]) (use d a in \<open>auto split: if_splits\<close>)
    have outcome: "ensured (T s l) c s v (case f of Inl _ \<Rightarrow> None | Inr status \<Rightarrow> status)
        (case r of Inl err \<Rightarrow> Some err | Inr _ \<Rightarrow> (case f of Inl err2 \<Rightarrow> Some err2 | Inr _ \<Rightarrow> None)) v'"
      if "?fin f v'" for f v'
      using that d by (cases r; cases f) (auto intro: ensured_errI ensured_okI split: if_splits)
    show ?thesis by (rule triple_bindE [OF fin]) (use d outcome in \<open>auto intro!: triple_ret\<close>)
  qed
  then have "triple (\<lambda>(s1, l1, b). \<exists>v1. at v1 b \<and> ?done r s1 l1 v1) (finishBoth r) ?Q ?E" for r
    by (rule triple_world)
  then show ?thesis by (rule triple_bind [OF process])
qed

abbreviation atP :: "'s lbProvider \<Rightarrow> nsxt_view \<Rightarrow> 's lbProvider \<times> 's \<Rightarrow> bool" where
  "atP p v \<equiv> \<lambda>(p', b). p' = p \<and> at v b"

lemma triple_withState:
  assumes "triple (atW st (lbService p) v) f (\<lambda>r. \<lambda>(s', l', b). Q r (p\<lparr>lbService := l'\<rparr>, b)) (\<lambda>e. \<lambda>(s', l', b). E e (p\<lparr>lbService := l'\<rparr>, b))"
  shows "triple (atP p v) (withState st f) Q E"
proof (rule tripleI, clarify)
  fix b assume "at v b"
  with assms have "post (\<lambda>r. \<lambda>(s', l', b). Q r (p\<lparr>lbService := l'\<rparr>, b)) (\<lambda>e. \<lambda>(s', l', b). E e (p\<lparr>lbService := l'\<rparr>, b)) (f (st, lbService p, b))"
    by (auto dest: tripleD)
  then show "post Q E (withState st f (p, b))"
    by (cases rule: post_cases) (auto simp: withState_def split: prod.splits)
qed

lemma triple_locked:
  assumes free: "keyLock p key \<noteq> Some True"
    and f: "triple (atP (p\<lparr>keyLock := (keyLock p)(key \<mapsto> True)\<rparr>) v) f
      (\<lambda>r. \<lambda>(p', b). keyLock p' key = Some True \<and> Q r (p'\<lparr>keyLock := (keyLock p')(key \<mapsto> False)\<rparr>, b))
      (\<lambda>e. \<lambda>(p', b). keyLock p' key = Some True \<and> E e (p'\<lparr>keyLock := (keyLock p')(key \<mapsto> False)\<rparr>, b))"
  shows "triple (atP p v) (locked key f) Q E"
  unfolding locked_def by (rule pl.guarded, use free in auto) (rule triple_conseq [OF f], auto)

lemma ensure_load_balancer:
  assumes p: "provider_ok B p" and free: "keyLock p (serviceKey svc) \<noteq> Some True"
  shows "triple (atP p v) (EnsureLoadBalancer ord cl svc ns)
    (\<lambda>(status, err). \<lambda>(p', b). provider_ok B p' \<and> access (lbService p') = access (lbService p) \<and> classes p' = classes p \<and>
       keyLock p' = (keyLock p)(serviceKey svc \<mapsto> False) \<and>
       (\<exists>v'. at v' b \<and> (case classFromService (classes p) svc of
          Inl e \<Rightarrow> status = None \<and> err = Some e \<and> v' = v
        | Inr c \<Rightarrow> ensured (serviceTags p cl svc) c (newState cl svc ns) v status err v')))
    (\<lambda>_ _. False)"
    (is "triple _ _ ?Q ?E")
proof -
  let ?p = "p\<lparr>keyLock := (keyLock p)(serviceKey svc \<mapsto> True)\<rparr>"
  let ?Q' = "\<lambda>r. \<lambda>(p', b). keyLock p' (serviceKey svc) = Some True \<and> ?Q r (p'\<lparr>keyLock := (keyLock p')(serviceKey svc \<mapsto> False)\<rparr>, b)"
  have ok: "broker (access (lbService p)) = B" "access_wf (access (lbService p))" using p by (auto simp: provider_ok_def)
  have "triple (atP ?p v) (case classFromService (classes p) svc of
      Inl e \<Rightarrow> ret (None, Some e)
    | Inr c \<Rightarrow> withState (newState cl svc ns) (bindIO (tryIO (Process ord c)) finishBoth)) ?Q'
    (\<lambda>e. \<lambda>(p', b). keyLock p' (serviceKey svc) = Some True \<and> False)"
  proof (cases "classFromService (classes p) svc")
    case (Inl e)
    with p show ?thesis by (auto intro!: triple_ret simp: provider_ok_def)
  next
    case (Inr c)
    have "triple (atP ?p v) (withState (newState cl svc ns) (bindIO (tryIO (Process ord c)) finishBoth)) ?Q'
        (\<lambda>e. \<lambda>(p', b). keyLock p' (serviceKey svc) = Some True \<and> False)"
      by (rule triple_withState, rule triple_post [OF process_finish])
        (use ok p Inr classFromService_ok [OF p Inr] in \<open>auto simp: provider_ok_def\<close>)
    with Inr show ?thesis by simp
  qed
  then have "triple (atP ?p v) (bindIO (getsIO (\<lambda>(p, _). classFromService (classes p) svc)) (\<lambda>found. case found of
      Inl e \<Rightarrow> ret (None, Some e)
    | Inr c \<Rightarrow> withState (newState cl svc ns) (bindIO (tryIO (Process ord c)) finishBoth))) ?Q'
    (\<lambda>e. \<lambda>(p', b). keyLock p' (serviceKey svc) = Some True \<and> False)"
    by (rule triple_gets_bind [rotated]) auto
  from triple_locked [OF free this] show ?thesis unfolding EnsureLoadBalancer_def .
qed

lemma ensure_load_balancer_deleted:
  assumes p: "provider_ok B p" and free: "keyLock p (serviceKey svc) \<noteq> Some True"
  shows "triple (atP p v) (EnsureLoadBalancerDeleted ord cl svc)
    (\<lambda>_. \<lambda>(p', b). provider_ok B p' \<and> access (lbService p') = access (lbService p) \<and> classes p' = classes p \<and>
       keyLock p' = (keyLock p)(serviceKey svc \<mapsto> False) \<and>
       (\<exists>v'. at v' b \<and> others_kept (serviceTags p cl svc) v v' \<and> emptied (serviceTags p cl svc) v' \<and>
          addressFreed (serviceTags p cl svc) v v'))
    (\<lambda>_. \<lambda>(p', b). provider_ok B p' \<and> access (lbService p') = access (lbService p) \<and> classes p' = classes p \<and>
       keyLock p' = (keyLock p)(serviceKey svc \<mapsto> False) \<and>
       (\<exists>v'. at v' b \<and> others_kept (serviceTags p cl svc) v v'))"
proof -
  let ?svc = "svc\<lparr>s_Ports := []\<rparr>"
  have name: "objectNameFromService ?svc = objectNameFromService svc" by (simp add: objectNameFromService_def)
  have free': "keyLock p (serviceKey ?svc) \<noteq> Some True" using free by (simp add: name)
  have kept: "others_kept tg v v'" if "case classFromService (classes p) ?svc of Inl e \<Rightarrow> status = None \<and> err = Some e \<and> v' = v
      | Inr c \<Rightarrow> ensured tg c s v status err v'" for tg s status err v'
    using that by (auto split: sum.splits intro: ensured_others)
  have gone: "emptied tg v' \<and> addressFreed tg v v'" if "case classFromService (classes p) ?svc of
        Inl e \<Rightarrow> status = None \<and> None = Some e \<and> v' = v
      | Inr c \<Rightarrow> ensured tg c (newState cl ?svc []) v status None v'" for tg status v'
    using that ensured_deleted [of tg _ "newState cl ?svc []" v status v'] by (auto split: sum.splits)
  show ?thesis
    unfolding EnsureLoadBalancerDeleted_def
  proof (rule triple_bindE [OF ensure_load_balancer [OF p free', of v ord cl "[]", unfolded name]], goal_cases)
    case (1 r)
    obtain status err where r: "r = (status, err)" by (cases r)
    show ?case
      by (cases err) (auto simp: r intro!: triple_ret triple_throw dest: kept gone)
  qed simp
qed

end

end
