(* ===== verification/Execution.thy ===== *)
theory Execution
  imports LB_Provider
begin

text \<open>
  Evaluation of the computations on concrete states in the kernel: a combinator that is
  applied to a state becomes a function of the outcome of its first part, and congruence
  rules keep the simplifier out of continuations until their argument is known.
\<close>

fun andThen :: "'a outcome \<times> 's \<Rightarrow> ('a \<Rightarrow> ('s, 'b) io) \<Rightarrow> 'b outcome \<times> 's" where
  "andThen (Ok v, s) g = g v s"
| "andThen (Err e, s) g = (Err e, s)"
| "andThen (Panic m, s) g = (Panic m, s)"

fun tried :: "'a outcome \<times> 's \<Rightarrow> (error + 'a) outcome \<times> 's" where
  "tried (Ok v, s) = (Ok (Inr v), s)"
| "tried (Err e, s) = (Ok (Inl e), s)"
| "tried (Panic m, s) = (Panic m, s)"

fun wrapped :: "(error \<Rightarrow> error) \<Rightarrow> 'a outcome \<times> 's \<Rightarrow> 'a outcome \<times> 's" where
  "wrapped w (Ok v, s) = (Ok v, s)"
| "wrapped w (Err e, s) = (Err (w e), s)"
| "wrapped w (Panic m, s) = (Panic m, s)"

fun beside :: "'x \<Rightarrow> 'a outcome \<times> 's \<Rightarrow> 'a outcome \<times> 'x \<times> 's" where
  "beside x (r, s) = (r, (x, s))"

fun lockSet :: "'s lbProvider \<Rightarrow> 's \<Rightarrow> 'a outcome \<times> keyLock \<Rightarrow> 'a outcome \<times> 's lbProvider \<times> 's" where
  "lockSet p b (r, k) = (r, (p\<lparr>keyLock := k\<rparr>, b))"

fun serviceSet :: "'s lbProvider \<Rightarrow> 'a outcome \<times> 's world \<Rightarrow> 'a outcome \<times> 's lbProvider \<times> 's" where
  "serviceSet p (r, (st, l, b)) = (r, (p\<lparr>lbService := l\<rparr>, b))"

fun unlocked :: "'a outcome \<Rightarrow> unit outcome \<times> 's \<Rightarrow> 'a outcome \<times> 's" where
  "unlocked r (Panic m, s) = (Panic m, s)"
| "unlocked r (Ok u, s) = (r, s)"
| "unlocked r (Err e, s) = (r, s)"

fun afterwards :: "('s, unit) io \<Rightarrow> 'a outcome \<times> 's \<Rightarrow> 'a outcome \<times> 's" where
  "afterwards g (r, s) = unlocked r (g s)"

lemma run_simps:
  "bindIO f g s = andThen (f s) g" "tryIO f s = tried (f s)" "wrapErr w f s = wrapped w (f s)"
  "ret v s = (Ok v, s)" "throw e s = (Err e, s)" "panic m s = (Panic m, s)"
  "getsIO h s = (Ok (h s), s)" "modifyIO k s = (Ok (), k s)" "onSnd f (x, s) = beside x (f s)"
  by (auto simp: io_defs split: prod.split outcome.split)

lemma run_provider_simps:
  "viaAccess h (l, b) = beside l (h (access l) b)"
  "callAccess h (st, l, b) = beside st (beside l (h (access l) b))"
  "getState (st, w) = (Ok st, (st, w))" "putState k (st, w) = (Ok (), (k st, w))"
  "onKeyLock i (p, b) = lockSet p b (i (keyLock p))"
  "withState st j (p, b) = serviceSet p (j (st, lbService p, b))"
  "deferred g f s = afterwards g (f s)"
  by (auto simp: io_defs callAccess_def getState_def putState_def onKeyLock_def withState_def deferred_def
      split: prod.split outcome.split)

lemma run_congs:
  "s = s' \<Longrightarrow> bindIO f g s = bindIO f g s'" "s = s' \<Longrightarrow> tryIO f s = tryIO f s'" "s = s' \<Longrightarrow> wrapErr w f s = wrapErr w f s'"
  "s = s' \<Longrightarrow> getsIO h s = getsIO h s'" "s = s' \<Longrightarrow> modifyIO k s = modifyIO k s'"
  by simp_all

lemma run_congs2:
  "r = r' \<Longrightarrow> andThen r g = andThen r' g" "r = r' \<Longrightarrow> wrapped w r = wrapped w r'" "r = r' \<Longrightarrow> afterwards i r = afterwards i r'"
  "a = a' \<Longrightarrow> xs = xs' \<Longrightarrow> foldIO body a xs = foldIO body a' xs'" "ys = ys' \<Longrightarrow> forIO stmt ys = forIO stmt ys'"
  by simp_all

lemma run_congs3:
  "s = s' \<Longrightarrow> onSnd f s = onSnd f s'" "lb = lb' \<Longrightarrow> viaAccess h lb = viaAccess h lb'"
  "w = w' \<Longrightarrow> callAccess h w = callAccess h w'" "w = w' \<Longrightarrow> putState k w = putState k w'"
  "pb = pb' \<Longrightarrow> onKeyLock i pb = onKeyLock i pb'" "pb = pb' \<Longrightarrow> withState st j pb = withState st j pb'"
  "t = t' \<Longrightarrow> deferred u v t = deferred u v t'"
  by simp_all

lemma run_digits:
  "digit 0 = CHR ''0''"
  "digit 1 = CHR ''1''" "digit (Suc 0) = CHR ''1''"
  "digit 2 = CHR ''2''" "digit (Suc (Suc 0)) = CHR ''2''"
  "digit 3 = CHR ''3''" "digit (Suc (Suc (Suc 0))) = CHR ''3''"
  "digit 4 = CHR ''4''" "digit (Suc (Suc (Suc (Suc 0)))) = CHR ''4''"
  "digit 5 = CHR ''5''" "digit (Suc (Suc (Suc (Suc (Suc 0))))) = CHR ''5''"
  "digit 6 = CHR ''6''" "digit (Suc (Suc (Suc (Suc (Suc (Suc 0)))))) = CHR ''6''"
  "digit 7 = CHR ''7''" "digit (Suc (Suc (Suc (Suc (Suc (Suc (Suc 0))))))) = CHR ''7''"
  "digit 8 = CHR ''8''" "digit (Suc (Suc (Suc (Suc (Suc (Suc (Suc (Suc 0)))))))) = CHR ''8''"
  "digit 9 = CHR ''9''" "digit (Suc (Suc (Suc (Suc (Suc (Suc (Suc (Suc (Suc 0))))))))) = CHR ''9''"
  by code_simp+

lemma run_range: "[Suc 0..<11] = [1, 2, 3, 4, 5, 6, 7, 8, 9, 10]"
  by code_simp

lemma run_broker:
  "b_ListIPPools (inmemoryNsxtBroker ord) = inmem_ListIPPools ord"
  "b_ReadLoadBalancerService (inmemoryNsxtBroker ord) = inmem_ReadLoadBalancerService"
  "b_CreateLoadBalancerService (inmemoryNsxtBroker ord) = inmem_CreateLoadBalancerService"
  "b_ListLoadBalancerServices (inmemoryNsxtBroker ord) = inmem_ListLoadBalancerServices"
  "b_UpdateLoadBalancerService (inmemoryNsxtBroker ord) = inmem_UpdateLoadBalancerService"
  "b_DeleteLoadBalancerService (inmemoryNsxtBroker ord) = inmem_DeleteLoadBalancerService"
  "b_CreateLoadBalancerVirtualServer (inmemoryNsxtBroker ord) = inmem_CreateLoadBalancerVirtualServer"
  "b_ListLoadBalancerVirtualServers (inmemoryNsxtBroker ord) = inmem_ListLoadBalancerVirtualServers"
  "b_UpdateLoadBalancerVirtualServer (inmemoryNsxtBroker ord) = inmem_UpdateLoadBalancerVirtualServer"
  "b_DeleteLoadBalancerVirtualServer (inmemoryNsxtBroker ord) = inmem_DeleteLoadBalancerVirtualServer"
  "b_CreateLoadBalancerPool (inmemoryNsxtBroker ord) = inmem_CreateLoadBalancerPool"
  "b_ReadLoadBalancerPool (inmemoryNsxtBroker ord) = inmem_ReadLoadBalancerPool"
  "b_ListLoadBalancerPools (inmemoryNsxtBroker ord) = inmem_ListLoadBalancerPools"
  "b_UpdateLoadBalancerPool (inmemoryNsxtBroker ord) = inmem_UpdateLoadBalancerPool"
  "b_DeleteLoadBalancerPool (inmemoryNsxtBroker ord) = inmem_DeleteLoadBalancerPool"
  "b_AllocateFromIPPool (inmemoryNsxtBroker ord) = inmem_AllocateFromIPPool"
  "b_ListIPPoolAllocations (inmemoryNsxtBroker ord) = inmem_ListIPPoolAllocations ord"
  "b_ReleaseFromIPPool (inmemoryNsxtBroker ord) = inmem_ReleaseFromIPPool"
  "b_CreateLoadBalancerTCPMonitor (inmemoryNsxtBroker ord) = inmem_CreateLoadBalancerTCPMonitor"
  "b_ListLoadBalancerMonitors (inmemoryNsxtBroker ord) = inmem_ListLoadBalancerMonitors"
  "b_ReadLoadBalancerTCPMonitor (inmemoryNsxtBroker ord) = inmem_ReadLoadBalancerTCPMonitor"
  "b_UpdateLoadBalancerTCPMonitor (inmemoryNsxtBroker ord) = inmem_UpdateLoadBalancerTCPMonitor"
  "b_DeleteLoadBalancerMonitor (inmemoryNsxtBroker ord) = inmem_DeleteLoadBalancerMonitor"
  by (simp_all add: inmemoryNsxtBroker_def)

lemmas run_tags =
  ScopeOwner_def ScopeCluster_def ScopeService_def ScopePort_def ScopeIPPoolID_def ScopeLBClass_def
  clusterTag_def serviceTag_def getTag_def NewMapping_def formatPort_def portTag_def
  MatchVirtualServer_def MatchPool_def MatchTCPMonitor_def MatchNodePort_def
 

lemmas run_inmem =
  newMemIPPool_def toIPPool_def ipPoolId_def NewInMemoryNsxtBroker_def newId_def notFound_def
  inmem_ListIPPools_def inmem_CreateLoadBalancerService_def inmem_ReadLoadBalancerService_def
  inmem_ListLoadBalancerServices_def inmem_UpdateLoadBalancerService_def inmem_DeleteLoadBalancerService_def
  inmem_CreateLoadBalancerVirtualServer_def inmem_ListLoadBalancerVirtualServers_def
  inmem_UpdateLoadBalancerVirtualServer_def inmem_DeleteLoadBalancerVirtualServer_def
  inmem_CreateLoadBalancerPool_def inmem_ReadLoadBalancerPool_def inmem_ListLoadBalancerPools_def
  inmem_UpdateLoadBalancerPool_def inmem_DeleteLoadBalancerPool_def poolAddress_def freeAddress_def
  inmem_AllocateFromIPPool_def inmem_ListIPPoolAllocations_def inmem_ReleaseFromIPPool_def
  inmem_CreateLoadBalancerTCPMonitor_def inmem_ListLoadBalancerMonitors_def
  inmem_ReadLoadBalancerTCPMonitor_def inmem_UpdateLoadBalancerTCPMonitor_def
  inmem_DeleteLoadBalancerMonitor_def light_def

text \<open>New objects stay folded; what the code reads of them is known.\<close>

lemma run_objects:
  "objectNameFromService (svc\<lparr>s_Ports := ps\<rparr>) = objectNameFromService svc"
  "svc_Id (newLbServiceObject a cl) = ''''" "svc_VirtualServerIds (newLbServiceObject a cl) = []"
  "svc_Attachment (newLbServiceObject a cl) = Some (routerID a)"
  "vs_Id (newVirtualServerObject a cl n ts ip m pid) = ''''" "vs_Enabled (newVirtualServerObject a cl n ts ip m pid)"
  "vs_DefaultPoolMemberPort (newVirtualServerObject a cl n ts ip m pid) = showInt (NodePort m)"
  "vs_IpAddress (newVirtualServerObject a cl n ts ip m pid) = ip" "vs_PoolId (newVirtualServerObject a cl n ts ip m pid) = pid"
  "vs_IpProtocol (newVirtualServerObject a cl n ts ip m pid) = Protocol m"
  "vs_Port (newVirtualServerObject a cl n ts ip m pid) = showInt (SourcePort m)"
  "pool_Id (newPoolObject a cl n m members ids) = ''''" "pool_Members (newPoolObject a cl n m members ids) = members"
  "pool_ActiveMonitorIds (newPoolObject a cl n m members ids) = ids"
  "mon_Id (newTCPMonitorObject a cl n m) = ''''" "mon_ResourceType (newTCPMonitorObject a cl n m) = ''''"
  "mon_MonitorPort (newTCPMonitorObject a cl n m) = showInt (NodePort m)"
  "className (newLBClass nm i pn) = nm" "ipPoolID (newLBClass nm i pn) = i"
  by (simp_all add: objectNameFromService_def newLbServiceObject_def newVirtualServerObject_def newPoolObject_def
      newTCPMonitorObject_def newLBClass_def)

lemmas run_access =
  AppName_def NewAccess_def FindIPPoolByName_def AllocateExternalIPAddress_def
  IsAllocatedExternalIPAddress_def ReleaseExternalIPAddress_def
  CreateLoadBalancerService_def attachedTo_def findLoadBalancerService_def FindLoadBalancerService_def
  FindLoadBalancerServiceForVirtualServer_def UpdateLoadBalancerService_def deletion_def
  DeleteLoadBalancerService_def CreateVirtualServer_def listVirtualServers_def
  FindVirtualServers_def ListVirtualServers_def UpdateVirtualServer_def DeleteVirtualServer_def
  CreatePool_def GetPool_def FindPool_def listPools_def FindPools_def ListPools_def
  UpdatePool_def DeletePool_def CreateTCPMonitor_def GetTCPMonitor_def
  FindTCPMonitors_def ListTCPMonitorLight_def UpdateTCPMonitor_def DeleteTCPMonitor_def

lemmas run_state =
  newLbService_def addVirtualServerToLoadBalancerService_def removeVirtualServerFromLoadBalancerService_def
  newState_def nilClass_def classOf_def allocateResources_def releaseResources_def loggedReleaseResources_def
  ProtocolTCP_def createTCPMonitor_def updateTCPMonitor_def deleteTCPMonitor_def getTCPMonitor_def
  updatedPoolMembers_def updatedMembers_def createPool_def updatePool_def getPool_def deletePool_def
  UpdatePoolMembers_def updateVirtualServer_def createVirtualServer_def getVirtualServer_def
  deleteVirtualServer_def deleteOrphanVirtualServers_def deleteOrphanPools_def deleteOrphanTCPMonitors_def
  findObjects_def adoptClass_def processPort_def Process_def newLoadBalancerStatus_def Finish_def

lemmas run_lbprovider =
  GetClass_def classes_add_def setupLoop_def setupClasses_def newKeyLock_def
  keyLock_Lock_def keyLock_Unlock_def LoadBalancerClassAnnotation_def locked_def classFromService_def
  GetLoadBalancer_def GetLoadBalancerName_def EnsureLoadBalancer_def UpdateLoadBalancer_def
  EnsureLoadBalancerDeleted_def providerFor_def NewLBProvider_def

lemmas run_defs = run_objects run_simps run_provider_simps run_broker run_tags run_inmem run_access run_state run_lbprovider
  rangeMap_def rangeKeys_def showInt_def showNat.simps run_digits run_range Let_def LoadBalancerSizes_def SizeMedium_def
  DefaultLoadBalancerClass_def checkTags.simps removeAt_def Mapping_String_def TrimSpace_def

lemmas run_cong = run_congs run_congs2 run_congs3

end
