(* ===== verification/Example_Run.thy ===== *)
theory Example_Run
  imports Execution
begin

text \<open>
  A provider in simulation mode, built from an example configuration, and the runs of its
  operations for one service, evaluated in the kernel: ensure, get, update, delete, and
  ensure again.
\<close>

section \<open>An example provider\<close>

definition example_store :: inmem where
  "example_store = NewInMemoryNsxtBroker [''pool1'', ''poolPublic'']"

definition example_handler :: "inmem access" where
  "example_handler = projr (NewAccess (inmemoryNsxtBroker (\<lambda>_ ks. ks)) example_cfg)"

definition example_provider :: "inmem lbProvider" where
  "example_provider = \<lparr>lbService = newLbService example_handler '''',
     classes = \<lparr>lbc_size = ''MEDIUM'', lbc_classes = [(''default'', newLBClass ''default'' ''ip-pool-0'' ''pool1''),
       (''public'', newLBClass ''public'' ''ip-pool-1'' ''poolPublic'')]\<rparr>, keyLock = newKeyLock\<rparr>"

definition example_service :: Service where
  "example_service = \<lparr>s_Namespace = ''shop'', s_Name = ''web'', s_Annotations = [], s_Type = ''LoadBalancer'',
     s_Ports = [\<lparr>sp_Port = 80, sp_NodePort = 30080, sp_Protocol = ''TCP''\<rparr>,
                \<lparr>sp_Port = 53, sp_NodePort = 30053, sp_Protocol = ''UDP''\<rparr>], s_Ingress = []\<rparr>"

definition example_nodes :: "Node list" where
  "example_nodes = [\<lparr>n_Name = ''n1'', n_Addresses = [\<lparr>addr_Type = ''InternalIP'', addr_Address = ''10.0.0.1''\<rparr>]\<rparr>,
     \<lparr>n_Name = ''n2'', n_Addresses = [\<lparr>addr_Type = ''InternalIP'', addr_Address = ''10.0.0.2''\<rparr>]\<rparr>]"

definition example_name :: NamespacedName where
  "example_name = \<lparr>Namespace = ''shop'', Name = ''web''\<rparr>"

abbreviation "example_class \<equiv> newLBClass ''default'' ''ip-pool-0'' ''pool1''"

text \<open>The fields of the constants of the example; the constants themselves stay folded in a run.\<close>

lemma example_handler_fields:
  "broker example_handler = inmemoryNsxtBroker (\<lambda>_ ks. ks)" "config example_handler = example_cfg"
  "ownerTag example_handler = \<lparr>Scope = ''owner'', Tag = ''nsxt-lb-provider''\<rparr>"
  "standardTags example_handler =
     [(''owner'', \<lparr>Scope = ''owner'', Tag = ''nsxt-lb-provider''\<rparr>), (''tag1'', \<lparr>Scope = ''tag1'', Tag = ''value1''\<rparr>)]"
  "LoadBalancer example_cfg = \<lparr>lbc_IPPoolName = ''pool1'', lbc_IPPoolID = '''', lbc_Size = ''MEDIUM'',
     lbc_LBServiceID = '''', lbc_LogicalRouterID = ''1234''\<rparr>"
  by (simp_all add: example_handler_def NewAccess_def Let_def ScopeOwner_def AppName_def example_cfg_def)

lemma example_service_fields:
  "objectNameFromService example_service = example_name" "nn_String example_name = ''shop/web''"
  "s_Ports example_service = [\<lparr>sp_Port = 80, sp_NodePort = 30080, sp_Protocol = ''TCP''\<rparr>,
     \<lparr>sp_Port = 53, sp_NodePort = 30053, sp_Protocol = ''UDP''\<rparr>]"
  "s_Ingress example_service = []" "s_Annotations example_service = []"
  "collectNodeInternalAddresses example_nodes = [(''10.0.0.1'', ''n1''), (''10.0.0.2'', ''n2'')]"
  "collectNodeInternalAddresses [] = []"
  by (simp_all add: example_service_def example_name_def objectNameFromService_def nn_String_def example_nodes_def
      collectNodeInternalAddresses_def internalAddress_def NodeInternalIP_def)

lemma example_tags:
  "vs_Tags (newVirtualServerObject example_handler ''c'' example_name (class_Tags example_class) ip m pid) =
     [\<lparr>Scope = ''cluster'', Tag = ''c''\<rparr>, \<lparr>Scope = ''ippoolid'', Tag = ''ip-pool-0''\<rparr>, \<lparr>Scope = ''lbclass'', Tag = ''default''\<rparr>,
      \<lparr>Scope = ''owner'', Tag = ''nsxt-lb-provider''\<rparr>, \<lparr>Scope = ''service'', Tag = ''shop/web''\<rparr>, \<lparr>Scope = ''tag1'', Tag = ''value1''\<rparr>]"
  "pool_Tags (newPoolObject example_handler ''c'' example_name m members ids) =
     [\<lparr>Scope = ''cluster'', Tag = ''c''\<rparr>, \<lparr>Scope = ''owner'', Tag = ''nsxt-lb-provider''\<rparr>,
      portTag m, \<lparr>Scope = ''service'', Tag = ''shop/web''\<rparr>, \<lparr>Scope = ''tag1'', Tag = ''value1''\<rparr>]"
  "mon_Tags (newTCPMonitorObject example_handler ''c'' example_name m) =
     [\<lparr>Scope = ''cluster'', Tag = ''c''\<rparr>, \<lparr>Scope = ''owner'', Tag = ''nsxt-lb-provider''\<rparr>,
      portTag m, \<lparr>Scope = ''service'', Tag = ''shop/web''\<rparr>, \<lparr>Scope = ''tag1'', Tag = ''value1''\<rparr>]"
  "svc_Tags (newLbServiceObject example_handler ''c'') =
     [\<lparr>Scope = ''cluster'', Tag = ''c''\<rparr>, \<lparr>Scope = ''owner'', Tag = ''nsxt-lb-provider''\<rparr>, \<lparr>Scope = ''tag1'', Tag = ''value1''\<rparr>]"
  by (simp_all add: newVirtualServerObject_def newPoolObject_def newTCPMonitorObject_def newLbServiceObject_def newLBClass_def
      class_Tags_def Normalize_def Add_def portTag_def run_tags example_handler_fields example_service_fields)

lemmas run_example = run_defs example_handler_fields example_service_fields example_tags example_provider_def

lemma example_construction:
  "providerFor (\<lambda>_ ks. ks) (inmemoryNsxtBroker (\<lambda>_ ks. ks)) example_cfg example_store = (Ok example_provider, example_store)"
  by (simp add: example_provider_def example_handler_def example_store_def example_cfg_def run_defs cong: run_cong)

text \<open>The store after the load balancer of the example was ensured.\<close>

definition example_full :: inmem where
  "example_full =
     (let n = objectNameFromService example_service; m1 = NewMapping (s_Ports example_service ! 0);
          m2 = NewMapping (s_Ports example_service ! 1); tags = class_Tags example_class;
          members = map (newMember ''c'') [(''10.0.0.1'', ''n1''), (''10.0.0.2'', ''n2'')]
      in \<lparr>ipPools = [(''ip-pool-0'', (newMemIPPool ''ip-pool-0'' ''pool1'' ''10.111.0'' 10)\<lparr>mip_allocations := [''10.111.0.1'']\<rparr>),
            (''ip-pool-1'', newMemIPPool ''ip-pool-1'' ''poolPublic'' ''10.111.1'' 10)],
          lbServices = [(newLbServiceObject example_handler ''c'')
            \<lparr>svc_Id := ''lbservice-3'', svc_VirtualServerIds := [''server-2'', ''server-5'']\<rparr>],
          lbVirtualServers =
            [(newVirtualServerObject example_handler ''c'' n tags ''10.111.0.1'' m1 ''pool-1'')\<lparr>vs_Id := ''server-2''\<rparr>,
             (newVirtualServerObject example_handler ''c'' n tags ''10.111.0.1'' m2 ''pool-4'')\<lparr>vs_Id := ''server-5''\<rparr>],
          lbPools = [(newPoolObject example_handler ''c'' n m1 members [''tcp-monitor-0''])\<lparr>pool_Id := ''pool-1''\<rparr>,
            (newPoolObject example_handler ''c'' n m2 members [])\<lparr>pool_Id := ''pool-4''\<rparr>],
          lbMonitors = [(newTCPMonitorObject example_handler ''c'' n m1)\<lparr>mon_Id := ''tcp-monitor-0''\<rparr>], nextID = 6\<rparr>)"

definition example_busy :: "inmem lbProvider" where
  "example_busy = example_provider\<lparr>lbService := (lbService example_provider)\<lparr>lbServiceID := ''lbservice-3''\<rparr>,
     keyLock := [''shop/web'' \<mapsto> False]\<rparr>"

lemma example_ensured:
  "EnsureLoadBalancer (\<lambda>_ ks. ks) ''c'' example_service example_nodes (example_provider, example_store) =
     (Ok (Some (newLoadBalancerStatus ''10.111.0.1''), None), (example_busy, example_full))"
  by (simp add: example_full_def example_busy_def newMember_def example_store_def run_example cong: run_cong)

text \<open>
  The store after the load balancer was deleted: the load balancer service went with its last
  virtual server, and the TCP monitor is still there.
\<close>

definition example_left :: inmem where
  "example_left = example_full\<lparr>ipPools := ipPools example_store, lbServices := [], lbVirtualServers := [], lbPools := []\<rparr>"

lemma example_deleted:
  "EnsureLoadBalancerDeleted (\<lambda>_ ks. ks) ''c'' example_service (example_busy, example_full) = (Ok (), (example_busy, example_left))"
  by (simp add: example_left_def example_full_def example_busy_def newMember_def example_store_def run_example cong: run_cong)

lemma example_get:
  "GetLoadBalancer ''c'' example_service (example_busy, example_full) =
     (Ok (Some (newLoadBalancerStatus ''10.111.0.1''), True), (example_busy, example_full))"
  by (simp add: example_full_def example_busy_def newMember_def example_store_def run_example cong: run_cong)

definition example_fewer :: "Node list" where
  "example_fewer = [\<lparr>n_Name = ''n3'', n_Addresses = [\<lparr>addr_Type = ''InternalIP'', addr_Address = ''10.0.0.3''\<rparr>]\<rparr>]"

definition example_moved :: inmem where
  "example_moved = example_full\<lparr>lbPools := map (pool_Members_update (\<lambda>_. [newMember ''c'' (''10.0.0.3'', ''n3'')])) (lbPools example_full)\<rparr>"

lemma example_fewer_addresses: "collectNodeInternalAddresses example_fewer = [(''10.0.0.3'', ''n3'')]"
  by (simp add: example_fewer_def collectNodeInternalAddresses_def internalAddress_def NodeInternalIP_def)

lemma example_updated:
  "UpdateLoadBalancer (\<lambda>_ ks. ks) ''c'' example_service example_fewer (example_busy, example_full) =
     (Ok (), (example_busy, example_moved))"
  by (simp add: example_moved_def example_fewer_addresses example_full_def example_busy_def newMember_def example_store_def upt_rec
      run_example cong: run_cong)

end
