(* ===== verification/Member_Update.thy ===== *)
theory Member_Update
  imports LB_Provider
begin

text \<open>
  \<open>UpdatePoolMembers\<close> of \<open>state.go\<close> and \<open>UpdateLoadBalancer\<close> of \<open>lbprovider.go\<close>:
  the members of the pools of a service follow the nodes, and nothing else changes.
\<close>

section \<open>The loops over ports and pools\<close>

text \<open>
  The pools \<open>ys\<close> of the loop in comparison with the pools \<open>xs\<close> it started with: they
  mirror the backend, only members differ, and those already \<open>refreshed\<close> have the nodes as
  members.
\<close>

definition refreshed ::
  "tag list \<Rightarrow> Node list \<Rightarrow> LbPool list \<Rightarrow> nsxt_view \<Rightarrow> (nat \<Rightarrow> bool) \<Rightarrow> LbPool list \<Rightarrow> nsxt_view \<Rightarrow> bool" where
  "refreshed tg ns xs v dn ys v' \<longleftrightarrow> length ys = length xs \<and>
     mirrors pool_Id (\<lambda>x. checkTags (pool_Tags x) tg) (\<lambda>_. True) ys (v_pools v') \<and> v' = v\<lparr>v_pools := v_pools v'\<rparr> \<and>
     restrictBy (\<lambda>x. \<not> checkTags (pool_Tags x) tg) (v_pools v') = restrictBy (\<lambda>x. \<not> checkTags (pool_Tags x) tg) (v_pools v) \<and>
     (\<forall>i < length xs. ys ! i = (xs ! i)\<lparr>pool_Members := pool_Members (ys ! i)\<rparr> \<and>
        (distinctMembers (xs ! i) \<longrightarrow> distinctMembers (ys ! i) \<and> (dn i \<longrightarrow> goodMembers ns (ys ! i))))"

lemma members_only:
  assumes "y = x\<lparr>pool_Members := pool_Members y\<rparr>"
  shows "pool_Id y = pool_Id x" "pool_Tags y = pool_Tags x"
    "x = z\<lparr>pool_Members := pool_Members x\<rparr> \<Longrightarrow> y = z\<lparr>pool_Members := pool_Members y\<rparr>"
  using assms by (cases x, cases y, cases z, simp)+

lemma refreshed_start:
  "mirrors pool_Id (\<lambda>x. checkTags (pool_Tags x) tg) (\<lambda>_. True) xs (v_pools v) \<Longrightarrow> refreshed tg ns xs v (\<lambda>_. False) xs v"
  by (simp add: refreshed_def)

lemma refreshed_weaken: "refreshed tg ns xs v dn ys v' \<Longrightarrow> (\<And>i. i < length xs \<Longrightarrow> dn' i \<Longrightarrow> dn i) \<Longrightarrow> refreshed tg ns xs v dn' ys v'"
  by (simp add: refreshed_def)

lemma refreshed_match:
  assumes "refreshed tg ns xs v dn ys v'" "i < length xs"
  shows "MatchPool m (ys ! i) = MatchPool m (xs ! i)" "v_pools v' (pool_Id (ys ! i)) = Some (ys ! i)"
proof -
  from assms have "ys ! i = (xs ! i)\<lparr>pool_Members := pool_Members (ys ! i)\<rparr>" unfolding refreshed_def by blast
  from members_only(2) [OF this] show "MatchPool m (ys ! i) = MatchPool m (xs ! i)" by (simp add: MatchPool_def)
  show "v_pools v' (pool_Id (ys ! i)) = Some (ys ! i)" using assms by (auto simp: refreshed_def mirrors_def)
qed

lemma refreshed_step:
  assumes r: "refreshed tg ns xs v dn ys v'" "i < length xs"
    and new: "y = (ys ! i)\<lparr>pool_Members := pool_Members y\<rparr>" "distinctMembers (ys ! i) \<longrightarrow> goodMembers ns y"
  shows "refreshed tg ns xs v (dn(i := True)) (ys[i := y]) (v'\<lparr>v_pools := (v_pools v')(pool_Id (ys ! i) \<mapsto> y)\<rparr>)"
proof -
  have i: "i < length ys" using r by (simp add: refreshed_def)
  have key: "pool_Id y = pool_Id (ys ! i)" "pool_Tags y = pool_Tags (ys ! i)"
    using members_only [OF new(1)] by blast+
  have m: "mirrors pool_Id (\<lambda>x. checkTags (pool_Tags x) tg) (\<lambda>_. True) ys (v_pools v')" using r(1) by (simp add: refreshed_def)
  have own: "checkTags (pool_Tags (ys ! i)) tg" using mirrors_view [OF m nth_mem [OF i]] by simp
  have "restrictBy (\<lambda>x. \<not> checkTags (pool_Tags x) tg) ((v_pools v')(pool_Id y \<mapsto> y)) = restrictBy (\<lambda>x. \<not> checkTags (pool_Tags x) tg) (v_pools v')"
    by (rule restrictBy_upd) (use own key mirrors_view [OF m nth_mem [OF i]] in auto)
  moreover have "mirrors pool_Id (\<lambda>x. checkTags (pool_Tags x) tg) (\<lambda>_. True) (ys[i := y]) ((v_pools v')(pool_Id y \<mapsto> y))"
    by (rule mirrors_update [OF m i key(1)]) (simp add: key own)
  moreover have "y = (xs ! i)\<lparr>pool_Members := pool_Members y\<rparr>"
    using members_only(3) [OF new(1)] r unfolding refreshed_def by blast
  moreover have "distinctMembers (xs ! i) \<longrightarrow> distinctMembers y \<and> goodMembers ns y" using r new(2) by (auto simp: refreshed_def goodMembers_def)
  moreover have "v'\<lparr>v_pools := f\<rparr> = v\<lparr>v_pools := f\<rparr>" for f
    using r(1) unfolding refreshed_def by (metis nsxt_view.update_convs(3) nsxt_view.surjective)
  ultimately show ?thesis using r(1) i unfolding refreshed_def key(1) [symmetric] by (auto simp: nth_list_update)
qed

text \<open>
  The result: every pool of the service that belongs to one of its ports has the nodes as
  members (if its members were distinct), and apart from members of own pools nothing changed.
\<close>

definition poolsOnly :: "tag list \<Rightarrow> nsxt_view \<Rightarrow> nsxt_view \<Rightarrow> bool" where
  "poolsOnly tg v v' \<longleftrightarrow> v' = v\<lparr>v_pools := v_pools v'\<rparr> \<and>
     restrictBy (\<lambda>x. \<not> checkTags (pool_Tags x) tg) (v_pools v') = restrictBy (\<lambda>x. \<not> checkTags (pool_Tags x) tg) (v_pools v)"

definition membersUpdated :: "tag list \<Rightarrow> ServicePort list \<Rightarrow> Node list \<Rightarrow> nsxt_view \<Rightarrow> nsxt_view \<Rightarrow> bool" where
  "membersUpdated tg ps ns v v' \<longleftrightarrow> poolsOnly tg v v' \<and> pool_Id ` ownPools tg v' = pool_Id ` ownPools tg v \<and>
     (\<forall>x \<in> ownPools tg v. \<exists>y. v_pools v' (pool_Id x) = Some y \<and> y = x\<lparr>pool_Members := pool_Members y\<rparr> \<and>
        ((\<exists>p \<in> set ps. MatchPool (NewMapping p) x) \<and> distinctMembers x \<longrightarrow> goodMembers ns y))"

lemma refreshed_updated:
  assumes "refreshed tg ns xs v (\<lambda>i. \<exists>p \<in> set ps. MatchPool (NewMapping p) (xs ! i)) ys v'"
    and "mirrors pool_Id (\<lambda>x. checkTags (pool_Tags x) tg) (\<lambda>_. True) xs (v_pools v)"
  shows "membersUpdated tg ps ns v v'"
proof -
  have ys: "mirrors pool_Id (\<lambda>x. checkTags (pool_Tags x) tg) (\<lambda>_. True) ys (v_pools v')" "length ys = length xs"
    and each: "\<And>i. i < length xs \<Longrightarrow> ys ! i = (xs ! i)\<lparr>pool_Members := pool_Members (ys ! i)\<rparr>"
    using assms(1) unfolding refreshed_def by blast+
  have ids: "map pool_Id ys = map pool_Id xs"
    using ys(2) members_only(1) [OF each] by (auto intro: nth_equalityI)
  have "\<exists>y. v_pools v' (pool_Id x) = Some y \<and> y = x\<lparr>pool_Members := pool_Members y\<rparr> \<and>
      ((\<exists>p \<in> set ps. MatchPool (NewMapping p) x) \<and> distinctMembers x \<longrightarrow> goodMembers ns y)" if x: "x \<in> set xs" for x
  proof -
    from x obtain i where i: "i < length xs" "x = xs ! i" by (auto simp: in_set_conv_nth)
    have "v_pools v' (pool_Id x) = Some (ys ! i)"
      using refreshed_match(2) [OF assms(1) i(1)] members_only(1) [OF each [OF i(1)]] i(2) by simp
    with assms(1) i each [OF i(1)] show ?thesis unfolding refreshed_def by blast
  qed
  with assms ids ownSet_mirrors [OF ys(1)] ownSet_mirrors [OF assms(2)] show ?thesis
    unfolding membersUpdated_def poolsOnly_def refreshed_def by (metis set_map)
qed

context nsxt_backend
begin

abbreviation "refreshPool ord p \<equiv> \<lambda>found i.
  if MatchPool (NewMapping p) (found ! i)
  then bindIO (updatePool ord (found ! i) (NewMapping p) (pool_ActiveMonitorIds (found ! i))) (\<lambda>pool. ret (found[i := pool]))
  else ret found"

abbreviation "atPools s l xs v dn ys \<equiv> \<lambda>(s', l', b). s' = s \<and> l' = l \<and>
  (\<exists>v'. at v' b \<and> refreshed (T s l) (nodes s) xs v dn ys v')"

lemma refresh_pool:
  assumes a: "broker (access l) = B" and i: "i < length xs"
  shows "triple (atPools s l xs v dn ys) (refreshPool ord p ys i)
    (atPools s l xs v (\<lambda>j. dn j \<or> j = i \<and> MatchPool (NewMapping p) (xs ! j)))
    (\<lambda>_ w. \<exists>ys dn'. atPools s l xs v dn' ys w)"
    (is "triple _ _ ?Q ?E")
proof -
  have "triple (atW s l v') (refreshPool ord p ys i) ?Q ?E" if r: "refreshed (T s l) (nodes s) xs v dn ys v'" for v'
  proof (cases "MatchPool (NewMapping p) (xs ! i)")
    case True
    then have m: "MatchPool (NewMapping p) (ys ! i)" using refreshed_match(1) [OF r i] by simp
    have upd: "triple (atW s l v') (updatePool ord (ys ! i) (NewMapping p) (pool_ActiveMonitorIds (ys ! i)))
        (\<lambda>y. atPools s l xs v (dn(i := True)) (ys[i := y])) ?E"
    proof (rule triple_post [OF update_pool_step [OF a refreshed_match(2) [OF r i]]], goal_cases)
      case (1 y w)
      then have "y = (ys ! i)\<lparr>pool_Members := pool_Members y\<rparr>" "distinctMembers (ys ! i) \<longrightarrow> goodMembers (nodes s) y"
        by (cases w, cases "ys ! i", cases y, simp)+
      from refreshed_step [OF r i this] 1 show ?case by auto
    qed (use r in auto)
    have "triple (atPools s l xs v (dn(i := True)) (ys[i := y])) (ret (ys[i := y])) ?Q ?E" for y
      by (rule triple_ret) (auto elim!: refreshed_weaken)
    from triple_bind [OF upd this] m show ?thesis by simp
  next
    case False
    then show ?thesis using refreshed_match(1) [OF r i] r by (auto intro!: triple_ret elim!: refreshed_weaken)
  qed
  then show ?thesis by (fastforce simp: triple_def)
qed

lemma refresh_port:
  assumes a: "broker (access l) = B"
  shows "triple (atPools s l xs v dn ys) (foldIO (refreshPool ord p) ys [0..<length ys])
    (atPools s l xs v (\<lambda>i. dn i \<or> MatchPool (NewMapping p) (xs ! i))) (\<lambda>_ w. \<exists>ys dn'. atPools s l xs v dn' ys w)"
    (is "triple _ _ ?Q ?E")
proof (cases "length ys = length xs")
  case True
  let ?I = "\<lambda>is ys. atPools s l xs v (\<lambda>i. dn i \<or> i \<in> set is \<and> MatchPool (NewMapping p) (xs ! i)) ys"
  have "triple (?I is zs) (refreshPool ord p zs i) (?I (is @ [i])) ?E" if "[0..<length ys] = is @ i # js" for "is" i js zs
  proof -
    from that have "i \<in> set [0..<length ys]" by (metis in_set_conv_decomp)
    then have i: "i < length xs" using True by simp
    show ?thesis
      by (rule triple_post [OF refresh_pool [OF a i]]) (auto elim!: refreshed_weaken)
  qed
  then have "triple (?I [] ys) (foldIO (refreshPool ord p) ys [0..<length ys]) (?I [0..<length ys]) ?E" by (rule triple_fold)
  then show ?thesis by (rule triple_conseq) (auto simp: True elim!: refreshed_weaken)
next
  case False
  then show ?thesis by (auto simp: triple_def refreshed_def)
qed

lemma update_pool_members:
  assumes a: "broker (access l) = B"
  shows "triple (atW s l v) (UpdatePoolMembers ord)
    (\<lambda>_. \<lambda>(s', l', b). s' = s \<and> l' = l \<and> (\<exists>v'. at v' b \<and> membersUpdated (T s l) (s_Ports (service s)) (nodes s) v v'))
    (\<lambda>_. \<lambda>(s', l', b). s' = s \<and> l' = l \<and> (\<exists>v'. at v' b \<and> poolsOnly (T s l) v v'))"
    (is "triple _ _ ?Q ?E")
proof -
  let ?mir = "\<lambda>xs. mirrors pool_Id (ownPool s l) (\<lambda>_. True) xs (v_pools v)"
  have err: "?E e w" if "\<exists>ys dn. atPools s l xs v dn ys w" for xs e w
    using that by (auto simp: refreshed_def poolsOnly_def)
  have start: "triple (atW s l v) (callAccess (\<lambda>a. FindPools a (clusterName s) (objectName s))) (\<lambda>xs w. ?mir xs \<and> atW s l v w) ?E"
  proof (rule triple_callAccess_at, rule triple_post [OF find_lb_pools [OF a]], goal_cases)
    case (1 xs b)
    then show ?case using mirrors_lists [of pool_Id xs "ownPool s l" "\<lambda>_. True" "v_pools v"] by simp
  next
    case (2 e b)
    then show ?case by (auto simp: poolsOnly_def)
  qed
  let ?loop = "\<lambda>xs. foldIO (\<lambda>found p. foldIO (refreshPool ord p) found [0..<length found]) xs (s_Ports (service s))"
  have loop: "triple (\<lambda>w. ?mir xs \<and> atW s l v w) (bindIO (?loop xs) (\<lambda>_. ret ())) ?Q ?E" for xs
  proof (rule triple_pure_pre)
    assume mir: "?mir xs"
    let ?I = "\<lambda>ps ys. atPools s l xs v (\<lambda>i. \<exists>p \<in> set ps. MatchPool (NewMapping p) (xs ! i)) ys"
    let ?err = "\<lambda>_ w. \<exists>ys dn'. atPools s l xs v dn' ys w"
    have "triple (?I ps ys) (foldIO (refreshPool ord p) ys [0..<length ys]) (?I (ps @ [p])) ?err" for ps ys p
      by (rule triple_post [OF refresh_port [OF a]]) (auto elim!: refreshed_weaken)
    then have "triple (?I [] xs) (?loop xs) (?I (s_Ports (service s))) ?err" by (rule triple_fold)
    then have "triple (atW s l v) (?loop xs) (\<lambda>_. ?Q ()) ?E"
      by (rule triple_conseq) (use mir err refreshed_start refreshed_updated [OF _ mir] in auto)
    then show "triple (atW s l v) (bindIO (?loop xs) (\<lambda>_. ret ())) ?Q ?E" by (rule triple_bind) (simp add: triple_ret)
  qed
  show ?thesis unfolding UpdatePoolMembers_def by (rule triple_getState, rule triple_bind [OF start loop])
qed

lemma update_load_balancer:
  assumes p: "provider_ok B p" and free: "keyLock p (serviceKey svc) \<noteq> Some True"
  shows "triple (atP p v) (UpdateLoadBalancer ord cl svc ns)
    (\<lambda>_. \<lambda>(p', b). p' = p\<lparr>keyLock := (keyLock p)(serviceKey svc \<mapsto> False)\<rparr> \<and>
       (\<exists>v'. at v' b \<and> membersUpdated (serviceTags p cl svc) (s_Ports svc) ns v v'))
    (\<lambda>_. \<lambda>(p', b). p' = p\<lparr>keyLock := (keyLock p)(serviceKey svc \<mapsto> False)\<rparr> \<and>
       (\<exists>v'. at v' b \<and> poolsOnly (serviceTags p cl svc) v v'))"
proof -
  have a: "broker (access (lbService p)) = B" using p by (simp add: provider_ok_def)
  show ?thesis
    unfolding UpdateLoadBalancer_def
    by (rule triple_locked [OF free], rule triple_withState, rule triple_post [OF update_pool_members]) (use a in auto)
qed

end

end
