(* ===== verification/LB_Guarantees.thy ===== *)
theory LB_Guarantees
  imports Example_Run Member_Update
begin

text \<open>
  What the operations of the provider guarantee, for every backend with the contract of
  \<open>nsxt_backend\<close>, every provider on it and every free lock; each with a run of the
  simulation mode.
\<close>

section \<open>The outcome of a run\<close>

lemma ensure_outcome:
  assumes backend: "nsxt_backend B invar view mt" and p: "provider_ok B p" and free: "keyLock p (serviceKey svc) \<noteq> Some True"
    and b: "invar b"
  obtains status err p' b' where "EnsureLoadBalancer ord cl svc ns (p, b) = (Ok (status, err), (p', b'))"
    "invar b'" "provider_ok B p'" "access (lbService p') = access (lbService p)" "classes p' = classes p"
    "keyLock p' = (keyLock p)(serviceKey svc \<mapsto> False)"
    "case classFromService (classes p) svc of Inl e \<Rightarrow> status = None \<and> err = Some e \<and> view b' = view b
     | Inr c \<Rightarrow> ensured (serviceTags p cl svc) c (newState cl svc ns) (view b) status err (view b')"
proof -
  have start: "(\<lambda>(p', b'). p' = p \<and> nsxt_backend.at invar view (view b) b') (p, b)"
    using b by (simp add: nsxt_backend.at_def [OF backend])
  from nsxt_backend.ensure_load_balancer [OF backend p free] start show thesis
    by (cases rule: triple_elim) (auto simp: nsxt_backend.at_def [OF backend] intro: that)
qed

lemma ensured_frame:
  assumes "case found of Inl e \<Rightarrow> status = None \<and> err = Some e \<and> v' = v | Inr c \<Rightarrow> ensured tg c s v status err v'"
  shows "others_kept tg v v'" "s_Ports (service s) \<noteq> [] \<Longrightarrow> addresses_kept v v'"
  using assms by (auto split: sum.splits intro: ensured_others ensured_addresses)

lemma ensured_success:
  assumes "case found of Inl e \<Rightarrow> status = None \<and> err = Some e \<and> v' = v | Inr c \<Rightarrow> ensured tg c s v status err v'"
    and "err = None"
  obtains c s' v1 where "found = Inr c" "processed tg c s v s' v1"
    "s_Ports (service s) = [] \<Longrightarrow> status = None \<and> v' = released s' v1"
    "s_Ports (service s) \<noteq> [] \<Longrightarrow> status = Some (newLoadBalancerStatus (ipAddress s')) \<and> v' = v1"
  using assms by (auto simp: ensured_def split: sum.splits if_splits)

lemma ensure_success:
  assumes "nsxt_backend B invar view mt" "provider_ok B p" "keyLock p (serviceKey svc) \<noteq> Some True" "invar b"
    and run: "EnsureLoadBalancer ord cl svc ns (p, b) = (Ok (status, None), (p', b'))"
  obtains c s' v1 where "classFromService (classes p) svc = Inr c" "processed (serviceTags p cl svc) c (newState cl svc ns) (view b) s' v1"
    "s_Ports svc = [] \<Longrightarrow> status = None \<and> view b' = released s' v1"
    "s_Ports svc \<noteq> [] \<Longrightarrow> status = Some (newLoadBalancerStatus (ipAddress s')) \<and> view b' = v1"
proof -
  have "case classFromService (classes p) svc of Inl e \<Rightarrow> status = None \<and> None = Some e \<and> view b' = view b
     | Inr c \<Rightarrow> ensured (serviceTags p cl svc) c (newState cl svc ns) (view b) status None (view b')"
    by (rule ensure_outcome [OF assms(1-4), of ord cl ns]) (use run in auto)
  from ensured_success [OF this refl] show thesis by (metis newState_fields(3) that)
qed

section \<open>Construction\<close>

text \<open>
  C20. A provider that was built from a configuration is fit for its broker: its tags are well
  formed, no class carries a tag that could hide the owner, the cluster or the service, the
  class of services without annotation exists, no lock is held, and the load balancer service
  is managed exactly when no service id is configured.
\<close>

theorem new_provider_ok:
  assumes "providerFor ord B cfg b = (Ok p, b')" "distinct (map fst (LoadBalancerClasses cfg))"
  shows "provider_ok B p \<and> (\<forall>k. keyLock p k = None) \<and> GetClass (classes p) DefaultLoadBalancerClass \<noteq> None \<and>
    managed (lbService p) = (lbc_LBServiceID (LoadBalancer cfg) = '''')"
  by (rule providerFor_ok [OF assms])

theorem new_provider_ok_witness:
  "provider_ok (inmemoryNsxtBroker (\<lambda>_ ks. ks)) example_provider \<and> GetClass (classes example_provider) DefaultLoadBalancerClass \<noteq> None"
  using new_provider_ok [OF example_construction] by (simp add: example_cfg_def)

lemma example_ok:
  "provider_ok (inmemoryNsxtBroker (\<lambda>_ ks. ks)) example_provider" "provider_ok (inmemoryNsxtBroker (\<lambda>_ ks. ks)) example_busy"
  "inmem_inv example_store"
proof -
  have wf: "access_wf example_handler"
    by (rule NewAccess_wf [of "inmemoryNsxtBroker (\<lambda>_ ks. ks)" example_cfg]) (simp add: example_handler_def NewAccess_def Let_def)
  have "Scope ` set (class_Tags c) \<inter> {ScopeOwner, ScopeCluster, ScopeService} = {}"
    if c: "c \<in> ran (map_of (lbc_classes (classes example_provider)))" for c
  proof -
    obtain k where "map_of (lbc_classes (classes example_provider)) k = Some c" using c by (auto simp: ran_def)
    from map_of_SomeD [OF this] obtain nm i pn where "c = newLBClass nm i pn" by (auto simp: example_provider_def)
    then show ?thesis by (simp only: class_tags_scopes)
  qed
  with wf show "provider_ok (inmemoryNsxtBroker (\<lambda>_ ks. ks)) example_provider" "provider_ok (inmemoryNsxtBroker (\<lambda>_ ks. ks)) example_busy"
    by (simp_all add: provider_ok_def example_busy_def example_provider_def newLbService_def example_handler_fields)
  show "inmem_inv example_store" by (simp add: example_store_def inmem_init_inv)
qed

lemma example_free:
  "keyLock example_provider (serviceKey example_service) \<noteq> Some True" "keyLock example_busy (serviceKey example_service) \<noteq> Some True"
  by (simp_all add: example_provider_def example_busy_def newKeyLock_def example_service_fields)

lemma example_full_inv: "inmem_inv example_full"
proof -
  obtain status err p' b' where "EnsureLoadBalancer (\<lambda>_ ks. ks) ''c'' example_service example_nodes (example_provider, example_store) =
      (Ok (status, err), (p', b'))" "inmem_inv b'"
    by (rule ensure_outcome [OF im.nsxt_backend_axioms example_ok(1) example_free(1) example_ok(3)])
  then show ?thesis by (simp add: example_ensured)
qed

section \<open>Ensure\<close>



text \<open>
  C1. \<open>EnsureLoadBalancer\<close> without an error: every port of the service has a virtual server with
  its port, protocol and node port, whose pool has exactly the internal addresses of the nodes
  as members and, for TCP, one active monitor on the node port; and no virtual server, pool or
  TCP monitor of the service is left that no port needs.
\<close>

theorem EnsureLoadBalancer_serves:
  assumes "nsxt_backend B invar view mt" "provider_ok B p" "keyLock p (serviceKey svc) \<noteq> Some True" "invar b"
    and run: "EnsureLoadBalancer ord cl svc ns (p, b) = (Ok (status, None), (p', b'))"
    and svc: "s_Ports svc \<noteq> []" "distinct (map portKey (s_Ports svc))"
    and pools: "\<forall>q \<in> ownPools (serviceTags p cl svc) (view b). distinctMembers q"
  shows "noOrphans (serviceTags p cl svc) (s_Ports svc) (view b') \<and>
    (\<forall>port \<in> set (s_Ports svc). servedBy True ns (ownServers (serviceTags p cl svc) (view b'))
       (ownPools (serviceTags p cl svc) (view b')) (ownMonitors (serviceTags p cl svc) (view b')) port)"
proof -
  from ensure_success [OF assms(1-4) run] svc(1) obtain c s'
    where "processed (serviceTags p cl svc) c (newState cl svc ns) (view b) s' (view b')" by metis
  with svc pools show ?thesis by (simp add: processed_def Let_def)
qed

theorem EnsureLoadBalancer_serves_witness:
  "noOrphans (serviceTags example_provider ''c'' example_service) (s_Ports example_service) (inmem_view example_full)"
  by (rule EnsureLoadBalancer_serves [OF im.nsxt_backend_axioms example_ok(1) example_free(1) example_ok(3) example_ensured,
        THEN conjunct1])
    (simp_all add: example_service_fields portKey_def example_store_def NewInMemoryNsxtBroker_def inmem_view_def ownSet_def index_by_def)

text \<open>
  C9. \<open>EnsureLoadBalancer\<close> without an error reports one address, and every virtual server of the
  service has that address and is attached to a load balancer service, provided the existing
  ones shared an address and were attached before. If it had none, the address is new.
\<close>

theorem EnsureLoadBalancer_one_address:
  assumes "nsxt_backend B invar view mt" "provider_ok B p" "keyLock p (serviceKey svc) \<noteq> Some True" "invar b"
    and run: "EnsureLoadBalancer ord cl svc ns (p, b) = (Ok (status, None), (p', b'))" and ports: "s_Ports svc \<noteq> []"
    and before: "ip \<noteq> ''''" "\<forall>x \<in> ownServers (serviceTags p cl svc) (view b). vs_IpAddress x = ip \<and> attached (view b) (vs_Id x) \<noteq> {}"
  shows "\<exists>address. status = Some (newLoadBalancerStatus address) \<and>
    (\<forall>x \<in> ownServers (serviceTags p cl svc) (view b'). vs_IpAddress x = address \<and> address \<noteq> '''' \<and> attached (view b') (vs_Id x) \<noteq> {}) \<and>
    (ownServers (serviceTags p cl svc) (view b) \<noteq> {} \<longrightarrow> address = ip)"
proof -
  let ?tg = "serviceTags p cl svc"
  from ensure_success [OF assms(1-4) run] ports obtain c s' where P: "processed ?tg c (newState cl svc ns) (view b) s' (view b')"
    and st: "status = Some (newLoadBalancerStatus (ipAddress s'))" by metis
  from P obtain xs where xs: "mirrors vs_Id (\<lambda>x. checkTags (vs_Tags x) ?tg) (\<lambda>_. True) xs (v_servers (view b))"
    "ipAddress (adoptClass c ((newState cl svc ns)\<lparr>servers := xs\<rparr>)) \<noteq> '''' \<longrightarrow>
       ipAddress s' = ipAddress (adoptClass c ((newState cl svc ns)\<lparr>servers := xs\<rparr>))"
    unfolding processed_def Let_def by blast
  have "ipAddress s' = ip" if ne: "ownServers ?tg (view b) \<noteq> {}"
  proof -
    from ne ownSet_mirrors [OF xs(1)] obtain y ys where "xs = y # ys" "y \<in> ownServers ?tg (view b)" by (cases xs) auto
    with before xs(2) adoptClass_server [of "(newState cl svc ns)\<lparr>servers := xs\<rparr>" y ys c] show ?thesis by auto
  qed
  moreover have "\<exists>ip. ip \<noteq> '''' \<and> (\<forall>x \<in> ownServers ?tg (view b). vs_IpAddress x = ip)"
    "\<forall>x \<in> ownServers ?tg (view b). attached (view b) (vs_Id x) \<noteq> {}" using before by blast+
  then have "\<forall>x \<in> ownServers ?tg (view b'). vs_IpAddress x = ipAddress s' \<and> ipAddress s' \<noteq> '''' \<and> attached (view b') (vs_Id x) \<noteq> {}"
    using P unfolding processed_def Let_def by blast
  ultimately show ?thesis unfolding st by blast
qed

lemma example_store_empty: "ownServers tg (inmem_view example_store) = {}"
  by (simp add: example_store_def NewInMemoryNsxtBroker_def inmem_view_def ownSet_def index_by_def)

theorem EnsureLoadBalancer_one_address_witness:
  "vs_IpAddress ` ownServers (serviceTags example_provider ''c'' example_service) (inmem_view example_full) \<subseteq> {''10.111.0.1''}"
  using EnsureLoadBalancer_one_address [OF im.nsxt_backend_axioms example_ok(1) example_free(1) example_ok(3) example_ensured,
      of "''unused''"] by (auto simp add: example_service_fields example_store_empty newLoadBalancerStatus_def)

section \<open>Delete\<close>



section \<open>Update\<close>

text \<open>
  C12. \<open>UpdateLoadBalancer\<close> without an error: every pool of the service that belongs to one of its
  ports has exactly the internal addresses of the nodes as members, each once, if its members
  were distinct before; own pools change in nothing but their members, no pool appears or
  disappears, and everything else is as before.
\<close>

theorem UpdateLoadBalancer_follows_nodes:
  assumes backend: "nsxt_backend B invar view mt" and p: "provider_ok B p" "keyLock p (serviceKey svc) \<noteq> Some True" and b: "invar b"
    and run: "UpdateLoadBalancer ord cl svc ns (p, b) = (Ok (), (p', b'))"
  shows "p' = p\<lparr>keyLock := (keyLock p)(serviceKey svc \<mapsto> False)\<rparr> \<and> membersUpdated (serviceTags p cl svc) (s_Ports svc) ns (view b) (view b')"
proof -
  note at = nsxt_backend.at_def [OF backend]
  have start: "(\<lambda>(p', b'). p' = p \<and> nsxt_backend.at invar view (view b) b') (p, b)" using b by (simp add: at)
  from triple_OkD [OF nsxt_backend.update_load_balancer [OF backend p] start run] show ?thesis by (auto simp: at)
qed

theorem UpdateLoadBalancer_follows_nodes_witness:
  "membersUpdated (serviceTags example_busy ''c'' example_service) (s_Ports example_service) example_fewer
     (inmem_view example_full) (inmem_view example_moved)"
  using UpdateLoadBalancer_follows_nodes [OF im.nsxt_backend_axioms example_ok(2) example_free(2) example_full_inv example_updated]
  by (rule conjunct2)

section \<open>Get\<close>

lemma get_load_balancer:
  assumes backend: "nsxt_backend B invar view mt" and p: "broker (access (lbService p)) = B" and b: "invar b"
    and run: "GetLoadBalancer cl svc (p, b) = (Ok (status, exists), (p', b'))"
  shows "p' = p \<and> invar b' \<and> view b' = view b \<and>
    (if exists then \<exists>x \<in> ownServers (serviceTags p cl svc) (view b). status = Some (newLoadBalancerStatus (vs_IpAddress x))
     else status = None \<and> ownServers (serviceTags p cl svc) (view b) = {})"
proof -
  let ?tg = "serviceTags p cl svc"
  from run obtain xs where f: "FindVirtualServers (access (lbService p)) cl (objectNameFromService svc) b = (Ok xs, b')" "p' = p"
    and r: "(status, exists) = (case xs of [] \<Rightarrow> (None, False) | x # _ \<Rightarrow> (Some (newLoadBalancerStatus (vs_IpAddress x)), True))"
    by (auto simp: GetLoadBalancer_def bindIO_Ok getsIO_def onSnd_def ret_def split: prod.splits)
  from triple_OkD [OF nsxt_backend.find_virtual_servers [OF backend p] _ f(1), of "view b"] b
  have l: "lists vs_Id xs (restrictBy (\<lambda>x. checkTags (vs_Tags x) ?tg) (v_servers (view b)))" "invar b'" "view b' = view b"
    by (auto simp: nsxt_backend.at_def [OF backend])
  then have "mirrors vs_Id (\<lambda>x. checkTags (vs_Tags x) ?tg) (\<lambda>_. True) xs (v_servers (view b))"
    by (intro mirrors_lists) simp
  then have "ownServers ?tg (view b) = set xs" by (rule ownSet_mirrors)
  with r f(2) l(2,3) show ?thesis by (cases xs) auto
qed

text \<open>
  C15. \<open>GetLoadBalancer\<close> agrees with \<open>EnsureLoadBalancer\<close>: after a successful ensure of a service
  with ports, a successful get finds the load balancer with the status that ensure reported,
  and changes nothing.
\<close>

theorem get_after_ensure:
  assumes backend: "nsxt_backend B invar view mt" and p: "provider_ok B p" "keyLock p (serviceKey svc) \<noteq> Some True" and b: "invar b"
    and run: "EnsureLoadBalancer ord cl svc ns (p, b) = (Ok (status, None), (p', b'))"
    and svc: "s_Ports svc \<noteq> []" "distinct (map portKey (s_Ports svc))"
    and before: "ip \<noteq> ''''" "\<forall>x \<in> ownServers (serviceTags p cl svc) (view b). vs_IpAddress x = ip"
    and get: "GetLoadBalancer cl svc (p', b') = (Ok (status', exists), (p'', b''))"
  shows "exists \<and> status' = status \<and> p'' = p' \<and> view b'' = view b'"
proof -
  let ?tg = "serviceTags p cl svc"
  obtain s1 e p1 b1 where r: "EnsureLoadBalancer ord cl svc ns (p, b) = (Ok (s1, e), (p1, b1))" "invar b1" "provider_ok B p1"
    "access (lbService p1) = access (lbService p)" by (rule ensure_outcome [OF backend p b])
  from ensure_success [OF backend p b run] svc(1) obtain c s' where P: "processed ?tg c (newState cl svc ns) (view b) s' (view b')"
    and st: "status = Some (newLoadBalancerStatus (ipAddress s'))" by metis
  have "\<exists>ip. ip \<noteq> '''' \<and> (\<forall>x \<in> ownServers ?tg (view b). vs_IpAddress x = ip)" using before by blast
  with P have one: "\<forall>x \<in> ownServers ?tg (view b'). vs_IpAddress x = ipAddress s'" unfolding processed_def Let_def by blast
  have "\<exists>x. x \<in> ownServers ?tg (view b')"
    using P svc by (cases "s_Ports svc") (auto simp: processed_def Let_def servedBy_def)
  then show ?thesis
    using get_load_balancer [OF backend _ _ get] r run one st by (auto simp: provider_ok_def split: if_splits)
qed

theorem get_after_ensure_witness:
  "\<exists>status p b. GetLoadBalancer ''c'' example_service (example_busy, example_full) = (Ok (status, True), (p, b)) \<and>
     status = Some (newLoadBalancerStatus ''10.111.0.1'') \<and> p = example_busy \<and> inmem_view b = inmem_view example_full"
  using get_after_ensure [OF im.nsxt_backend_axioms example_ok(1) example_free(1) example_ok(3) example_ensured _ _ _ _ example_get,
      of "''unused''"] example_get by (simp add: example_service_fields portKey_def example_store_empty)

section \<open>Classes\<close>

text \<open>
  C29. A service that names a class which is not configured gets an error before anything is
  touched: no call reaches the backend, and the lock is free again.
\<close>

theorem unknown_class_rejected:
  assumes "map_of (s_Annotations svc) LoadBalancerClassAnnotation = Some name" "TrimSpace name \<noteq> ''''"
    and "GetClass (classes p) (TrimSpace name) = None" "keyLock p (serviceKey svc) \<noteq> Some True"
  shows "EnsureLoadBalancer ord cl svc ns (p, b) =
    (Ok (None, Some (Errorf ''invalid load balancer class %s'' [TrimSpace name])),
     (p\<lparr>keyLock := (keyLock p)(serviceKey svc \<mapsto> False)\<rparr>, b))"
proof -
  have "classFromService (classes p) svc = Inl (Errorf ''invalid load balancer class %s'' [TrimSpace name])"
    using assms(1-3) by (simp add: classFromService_def Let_def)
  then show ?thesis
    using assms(4) by (auto simp: EnsureLoadBalancer_def locked_def run_simps run_provider_simps keyLock_Lock_def keyLock_Unlock_def
        split: option.splits bool.splits)
qed

theorem unknown_class_rejected_witness:
  "EnsureLoadBalancer (\<lambda>_ ks. ks) ''c'' (example_service\<lparr>s_Annotations := [(''loadbalancer.vmware.io/class'', '' gold '')]\<rparr>) []
     (example_provider, example_store) = (Ok (None, Some (Errorf ''invalid load balancer class %s'' [''gold''])),
       (example_provider\<lparr>keyLock := [''shop/web'' \<mapsto> False]\<rparr>, example_store))"
proof -
  let ?svc = "example_service\<lparr>s_Annotations := [(''loadbalancer.vmware.io/class'', '' gold '')]\<rparr>"
  have gold: "TrimSpace '' gold '' = ''gold''" by code_simp
  have key: "serviceKey ?svc = ''shop/web''" by code_simp
  show ?thesis
    using unknown_class_rejected [of ?svc "'' gold ''" example_provider "\<lambda>_ ks. ks" "''c''" "[]" example_store]
    by (simp add: gold key LoadBalancerClassAnnotation_def GetClass_def example_provider_def newKeyLock_def)
qed

section \<open>What goes wrong\<close>


text \<open>
  In simulation mode the TCP monitors of a service are never deleted: the backend gives them
  no resource type, the lookup asks for \<open>LbTcpMonitor\<close>, and after a successful delete the
  monitor is still there.
\<close>

theorem simulation_keeps_monitors:
  "EnsureLoadBalancerDeleted (\<lambda>_ ks. ks) ''c'' example_service (example_busy, example_full) = (Ok (), (example_busy, example_left)) \<and>
   map mon_Id (lbMonitors example_left) = [''tcp-monitor-0''] \<and>
   list_all (\<lambda>x. checkTags (mon_Tags x) (serviceTags example_busy ''c'' example_service)) (lbMonitors example_left)"
  by (simp add: example_deleted, simp add: example_left_def example_full_def example_busy_def newMember_def example_store_def run_example
      newLbService_def cong: run_cong)

definition stuck_broker :: "inmem NsxtBroker" where
  "stuck_broker = (inmemoryNsxtBroker (\<lambda>_ ks. ks))\<lparr>b_DeleteLoadBalancerVirtualServer := (\<lambda>_. ret (StatusInternalServerError, Some (ApiError ''busy'')))\<rparr>"

definition stuck_provider :: "inmem lbProvider" where
  "stuck_provider = example_busy\<lparr>lbService := (lbService example_busy)\<lparr>access := example_handler\<lparr>broker := stuck_broker\<rparr>\<rparr>\<rparr>"


end
