(* ===== verification/Stability.thy ===== *)
theory Stability
  imports LB_Guarantees
begin

text \<open>
  A reconciliation of a load balancer that is already as it should be: nothing is created,
  updated or deleted. The loop over the ports and the cleanup are shown to leave the state
  object and the backend as they are, so only the lookups at the start touch the backend.
\<close>

section \<open>One object for each port\<close>

lemma findIndex_sole:
  assumes "x \<in> set xs" "P x" "sole P (set xs)"
  obtains i where "findIndex P xs = Some i" "xs ! i = x" "xs[i := x] = xs"
proof (cases "findIndex P xs")
  case None
  with assms(1,2) show thesis by (simp add: findIndex_None)
next
  case (Some i)
  from findIndex_Some [OF Some] have "i < length xs" "P (xs ! i)" by auto
  with assms have "xs ! i = x" by (auto simp: sole_def)
  with Some show thesis by (intro that) auto
qed

text \<open>
  The objects of the service are exactly what its ports need: every port is served, by one
  virtual server, one pool and, for TCP, one monitor, and there is nothing else.
\<close>

definition settled ::
  "Node list \<Rightarrow> ServicePort list \<Rightarrow> LbVirtualServer set \<Rightarrow> LbPool set \<Rightarrow> LbTcpMonitor set \<Rightarrow> bool" where
  "settled ns ps SV PS MS \<longleftrightarrow>
     (\<forall>p \<in> set ps. let m = NewMapping p in servedBy True ns SV PS MS p \<and>
        sole (MatchVirtualServer m) SV \<and> sole (MatchPool m) PS \<and> sole (MatchTCPMonitor m) MS) \<and>
     (\<forall>x \<in> SV. \<exists>p \<in> set ps. MatchVirtualServer (NewMapping p) x) \<and>
     (\<forall>x \<in> PS. (\<exists>p \<in> set ps. MatchPool (NewMapping p) x) \<and> (\<exists>y \<in> SV. vs_PoolId y = pool_Id x)) \<and>
     (\<forall>x \<in> MS. (\<exists>p \<in> set ps. MatchTCPMonitor (NewMapping p) x) \<and> (\<exists>y \<in> PS. mon_Id x \<in> set (pool_ActiveMonitorIds y)))"

definition converged :: "tag list \<Rightarrow> Node list \<Rightarrow> ServicePort list \<Rightarrow> nsxt_view \<Rightarrow> bool" where
  "converged tg ns ps v \<longleftrightarrow>
     settled ns ps (ownServers tg v) (ownPools tg v) {x \<in> ownMonitors tg v. mon_ResourceType x = ''LbTcpMonitor''}"

abbreviation "settledState s \<equiv>
  settled (nodes s) (s_Ports (service s)) (set (servers s)) (set (pools s)) (set (tcpMonitors s))"

lemma synced_settled:
  assumes "synced tg s v" "\<forall>x \<in> set (tcpMonitors s). mon_ResourceType x = ''LbTcpMonitor''"
    "converged tg (nodes s) (s_Ports (service s)) v"
  shows "settledState s"
proof -
  have m: "mirrors vs_Id (\<lambda>x. checkTags (vs_Tags x) tg) (\<lambda>_. True) (servers s) (v_servers v)"
     "mirrors pool_Id (\<lambda>x. checkTags (pool_Tags x) tg) (\<lambda>_. True) (pools s) (v_pools v)"
     "mirrors mon_Id (\<lambda>x. checkTags (mon_Tags x) tg) (\<lambda>x. mon_ResourceType x = ''LbTcpMonitor'') (tcpMonitors s) (v_monitors v)"
    using assms(1) unfolding synced_def by blast+
  have "set (tcpMonitors s) = {x \<in> ownMonitors tg v. mon_ResourceType x = ''LbTcpMonitor''}"
    using assms(2) mirrors_view [OF m(3)] mirrors_complete [OF m(3)] by (auto simp: ownSet_def)
  with assms(3) ownSet_mirrors [OF m(1)] ownSet_mirrors [OF m(2)] show ?thesis by (simp add: converged_def)
qed

section \<open>The loop over the ports\<close>

lemma updatedPoolMembers_good:
  assumes "goodMembers ns pool"
  shows "updatedPoolMembers ord b cluster ns (pool_Members pool) = (pool_Members pool, False)"
proof -
  obtain new modified where r: "updatedPoolMembers ord b cluster ns (pool_Members pool) = (new, modified)" by fastforce
  from assms have "distinct (map pm_IpAddress (pool_Members pool))" by (simp add: goodMembers_def)
  note spec = updatedPoolMembers_spec [OF this r]
  from spec(3) assms have "\<not> modified" by (simp add: goodMembers_def)
  with spec(4) r show ?thesis by simp
qed

lemma getTCPMonitor_sole:
  assumes "x \<in> set (tcpMonitors s)" "MatchTCPMonitor m x" "sole (MatchTCPMonitor m) (set (tcpMonitors s))"
    "mon_MonitorPort x = showInt (NodePort m)" "Protocol m = ProtocolTCP"
  shows "getTCPMonitor m (s, w) = (Ok (Some x), (s, w))"
proof -
  obtain i where "findIndex (MatchTCPMonitor m) (tcpMonitors s) = Some i" "tcpMonitors s ! i = x" "(tcpMonitors s)[i := x] = tcpMonitors s"
    using findIndex_sole [of x "tcpMonitors s" "MatchTCPMonitor m"] assms(1-3) by blast
  with assms(4,5) show ?thesis by (simp add: getTCPMonitor_def updateTCPMonitor_def run_simps run_provider_simps)
qed

lemma getPool_sole:
  assumes "x \<in> set (pools s)" "MatchPool m x" "sole (MatchPool m) (set (pools s))" "goodMembers (nodes s) x"
    "pool_ActiveMonitorIds x = (case mon of None \<Rightarrow> [] | Some y \<Rightarrow> [mon_Id y])"
  shows "getPool ord m mon (s, w) = (Ok x, (s, w))"
proof -
  obtain i where "findIndex (MatchPool m) (pools s) = Some i" "pools s ! i = x" "(pools s)[i := x] = pools s"
    using findIndex_sole [of x "pools s" "MatchPool m"] assms(1-3) by blast
  with assms(5) show ?thesis
    by (cases w) (simp add: updatedPoolMembers_good [OF assms(4)] getPool_def Let_def updatePool_def updatedMembers_def run_simps run_provider_simps)
qed

lemma getVirtualServer_sole:
  assumes "x \<in> set (servers s)" "MatchVirtualServer m x" "sole (MatchVirtualServer m) (set (servers s))" "MatchNodePort m x"
  shows "getVirtualServer m (vs_PoolId x) (s, w) = (Ok x, (s, w))"
proof -
  obtain i where "findIndex (MatchVirtualServer m) (servers s) = Some i" "servers s ! i = x" "(servers s)[i := x] = servers s"
    using findIndex_sole [of x "servers s" "MatchVirtualServer m"] assms(1-3) by blast
  with assms(4) show ?thesis by (simp add: getVirtualServer_def updateVirtualServer_def run_simps run_provider_simps)
qed

lemma processPort_settled:
  assumes "settledState s" "p \<in> set (s_Ports (service s))"
  shows "processPort ord p (s, w) = (Ok (), (s, w))"
proof -
  let ?m = "NewMapping p"
  from assms have st: "served True s p" "sole (MatchVirtualServer ?m) (set (servers s))" "sole (MatchPool ?m) (set (pools s))"
      "sole (MatchTCPMonitor ?m) (set (tcpMonitors s))"
    unfolding settled_def Let_def by blast+
  from st(1) obtain srv pool where q: "srv \<in> set (servers s)" "MatchVirtualServer ?m srv" "MatchNodePort ?m srv"
      "pool \<in> set (pools s)" "MatchPool ?m pool" "goodMembers (nodes s) pool" "vs_PoolId srv = pool_Id pool"
      "if Protocol ?m = ProtocolTCP then \<exists>x \<in> set (tcpMonitors s). MatchTCPMonitor ?m x \<and>
         mon_MonitorPort x = showInt (NodePort ?m) \<and> pool_ActiveMonitorIds pool = [mon_Id x]
       else pool_ActiveMonitorIds pool = []"
    unfolding servedBy_def Let_def by blast
  obtain mon where mon: "getTCPMonitor ?m (s, w) = (Ok mon, (s, w))"
      "pool_ActiveMonitorIds pool = (case mon of None \<Rightarrow> [] | Some y \<Rightarrow> [mon_Id y])"
  proof (cases "Protocol ?m = ProtocolTCP")
    case True
    with q(8) obtain x where x: "x \<in> set (tcpMonitors s)" "MatchTCPMonitor ?m x" "mon_MonitorPort x = showInt (NodePort ?m)"
      "pool_ActiveMonitorIds pool = [mon_Id x]" by auto
    show thesis by (rule that [OF getTCPMonitor_sole [OF x(1,2) st(4) x(3) True]]) (simp add: x(4))
  next
    case False
    with q(8) show thesis by (intro that [of None]) (simp_all add: getTCPMonitor_def run_simps)
  qed
  with getVirtualServer_sole [OF q(1,2) st(2) q(3), unfolded q(7), of w] show ?thesis
    by (simp add: processPort_def Let_def run_simps getPool_sole [OF q(4,5) st(3) q(6) mon(2)])
qed

section \<open>The cleanup\<close>

lemma foldIO_stay:
  assumes "\<And>a x. x \<in> set xs \<Longrightarrow> f a x w = (Ok (g x a), w)"
  shows "foldIO f a xs w = (Ok (fold g xs a), w)"
  using assms by (induction xs arbitrary: a) (simp_all add: run_simps)

lemma forIO_stay:
  assumes "\<And>x. x \<in> set xs \<Longrightarrow> f x w = (Ok (), w)"
  shows "forIO f xs w = (Ok (), w)"
  using assms by (induction xs) (simp_all add: run_simps)

lemma fold_insert_image: "fold (\<lambda>x. insert (g x)) xs A = A \<union> g ` set xs"
  by (induction xs arbitrary: A) auto

lemma fold_union_image: "fold (\<lambda>x A. A \<union> g x) xs A = A \<union> (\<Union>x \<in> set xs. g x)"
  by (induction xs arbitrary: A) auto

lemma deleteOrphanVirtualServers_settled:
  assumes "settledState s"
  shows "deleteOrphanVirtualServers (s, w) = (Ok (vs_PoolId ` set (servers s)), (s, w))"
proof -
  let ?f = "\<lambda>validPoolIds server.
       if list_ex (\<lambda>servicePort. MatchVirtualServer (NewMapping servicePort) server) (s_Ports (service s))
       then ret (insert (vs_PoolId server) validPoolIds)
       else bindIO (deleteVirtualServer server) (\<lambda>_. ret validPoolIds)"
  have "foldIO ?f {} (servers s) (s, w) = (Ok (fold (\<lambda>x. insert (vs_PoolId x)) (servers s) {}), (s, w))"
    by (rule foldIO_stay) (use assms in \<open>auto simp: settled_def list_ex_iff run_simps\<close>)
  then show ?thesis by (simp add: deleteOrphanVirtualServers_def run_simps run_provider_simps fold_insert_image)
qed

lemma deleteOrphanPools_settled:
  assumes "settledState s"
  shows "deleteOrphanPools (vs_PoolId ` set (servers s)) (s, w) = (Ok (\<Union>x \<in> set (pools s). set (pool_ActiveMonitorIds x)), (s, w))"
proof -
  let ?ids = "vs_PoolId ` set (servers s)"
  let ?f = "\<lambda>validTCPMonitorIds pool.
       if list_ex (\<lambda>servicePort. MatchPool (NewMapping servicePort) pool \<and> pool_Id pool \<in> ?ids) (s_Ports (service s))
       then ret (validTCPMonitorIds \<union> set (pool_ActiveMonitorIds pool))
       else bindIO (deletePool pool) (\<lambda>_. ret validTCPMonitorIds)"
  have used: "list_ex (\<lambda>servicePort. MatchPool (NewMapping servicePort) x \<and> pool_Id x \<in> ?ids) (s_Ports (service s))"
    if "x \<in> set (pools s)" for x
  proof -
    from assms that obtain p y where "p \<in> set (s_Ports (service s))" "MatchPool (NewMapping p) x" "y \<in> set (servers s)" "vs_PoolId y = pool_Id x"
      unfolding settled_def by blast
    then show ?thesis unfolding list_ex_iff by (metis image_eqI)
  qed
  have "foldIO ?f {} (pools s) (s, w) = (Ok (fold (\<lambda>x A. A \<union> set (pool_ActiveMonitorIds x)) (pools s) {}), (s, w))"
    by (rule foldIO_stay) (simp add: used run_simps)
  then show ?thesis by (simp add: deleteOrphanPools_def run_simps run_provider_simps fold_union_image)
qed

lemma deleteOrphanTCPMonitors_settled:
  assumes "settledState s"
  shows "deleteOrphanTCPMonitors (\<Union>x \<in> set (pools s). set (pool_ActiveMonitorIds x)) (s, w) = (Ok (), (s, w))"
proof -
  have "list_ex (\<lambda>servicePort. MatchTCPMonitor (NewMapping servicePort) x \<and> mon_Id x \<in> (\<Union>y \<in> set (pools s). set (pool_ActiveMonitorIds y)))
      (s_Ports (service s))" if "x \<in> set (tcpMonitors s)" for x
    using assms that unfolding settled_def list_ex_iff by blast
  then show ?thesis by (simp add: deleteOrphanTCPMonitors_def run_simps run_provider_simps forIO_stay)
qed

text \<open>Everything after the lookup.\<close>

lemma reconcile_settled:
  assumes "settledState s"
  shows "bindIO (forIO (processPort ord) (s_Ports (service s))) (\<lambda>_. bindIO deleteOrphanVirtualServers (\<lambda>validPoolIds.
     bindIO (deleteOrphanPools validPoolIds) deleteOrphanTCPMonitors)) (s, w) = (Ok (), (s, w))"
proof -
  have "forIO (processPort ord) (s_Ports (service s)) (s, w) = (Ok (), (s, w))"
    by (rule forIO_stay) (rule processPort_settled [OF assms])
  then show ?thesis
    by (simp add: run_simps deleteOrphanVirtualServers_settled [OF assms] deleteOrphanPools_settled [OF assms]
        deleteOrphanTCPMonitors_settled [OF assms])
qed

context nsxt_backend
begin

text \<open>
  \<open>Process\<close> on a converged load balancer: only the state object changes, which gets what was
  found and the address of the first virtual server.
\<close>

lemma process_converged:
  assumes a: "broker (access l) = B" and conv: "converged (T s l) (nodes s) (s_Ports (service s)) v"
  shows "triple (atW s l v) (Process ord c)
    (\<lambda>_. \<lambda>(s', l', b). at v b \<and> l' = l \<and> service s' = service s \<and>
       (\<forall>ip. vs_IpAddress ` ownServers (T s l) v = {ip} \<longrightarrow> ipAddress s' = ip))
    (\<lambda>_. \<lambda>(s', l', b). at v b \<and> l' = l \<and> service s' = service s)"
    (is "triple _ _ ?Q ?E")
  unfolding Process_def
proof (rule triple_bindE [OF find_objects [OF a(1)]])
  let ?rest = "bindIO (putState (adoptClass c)) (\<lambda>_. bindIO getState (\<lambda>s. bindIO (forIO (processPort ord) (s_Ports (service s))) (\<lambda>_.
     bindIO deleteOrphanVirtualServers (\<lambda>ids. bindIO (deleteOrphanPools ids) deleteOrphanTCPMonitors))))"
  have "post ?Q ?E (?rest (s1, l, b))"
    if s1: "s1 = s\<lparr>servers := servers s1, pools := pools s1, tcpMonitors := tcpMonitors s1\<rparr>" "synced (T s l) s1 v"
      "\<forall>x \<in> set (tcpMonitors s1). tcpTyped x" and b: "at v b" for s1 b
  proof -
    let ?a = "adoptClass c s1"
    have job: "service s1 = service s" "nodes s1 = nodes s" by (subst s1(1), simp)+
    have "settledState s1" using synced_settled [OF s1(2,3)] conv by (simp add: job)
    then have "settledState ?a" by simp
    then have run: "?rest (s1, l, b) = (Ok (), (?a, l, b))"
      unfolding run_simps run_provider_simps andThen.simps by (rule reconcile_settled [unfolded run_simps])
    have own: "ownServers (T s l) v = set (servers s1)" using s1(2) ownSet_mirrors unfolding synced_def by blast
    have "ipAddress ?a = ip" if "vs_IpAddress ` ownServers (T s l) v = {ip}" for ip
      using that adoptClass_server [of s1 _ _ c] by (cases "servers s1") (auto simp: own)
    with run b show ?thesis by (simp add: job)
  qed
  then show "triple (\<lambda>(s', l', b). at v b \<and> l' = l \<and> s' = s\<lparr>servers := servers s', pools := pools s', tcpMonitors := tcpMonitors s'\<rparr> \<and>
       synced (T s l) s' v \<and> (\<forall>x \<in> set (tcpMonitors s'). tcpTyped x)) ?rest ?Q ?E"
    by (auto simp: triple_def)
  fix e and w :: "'s world"
  assume "case w of (s', l', b) \<Rightarrow> at v b \<and> l' = l \<and> s' = s\<lparr>servers := servers s', pools := pools s', tcpMonitors := tcpMonitors s'\<rparr>"
  then obtain s' b where w: "w = (s', l, b)" "at v b" "s' = s\<lparr>servers := servers s', pools := pools s', tcpMonitors := tcpMonitors s'\<rparr>"
    by (cases w) auto
  have "service s' = service s" by (subst w(3), simp)
  with w(1,2) show "?E e w" by auto
qed

lemma process_finish_converged:
  assumes a: "broker (access l) = B" and conv: "converged (T s l) (nodes s) (s_Ports (service s)) v" and ports: "s_Ports (service s) \<noteq> []"
  shows "triple (atW s l v) (bindIO (tryIO (Process ord c)) finishBoth)
    (\<lambda>(status, err). \<lambda>(s', l', b). at v b \<and> l' = l \<and> (\<forall>ip. err = None \<and> vs_IpAddress ` ownServers (T s l) v = {ip} \<longrightarrow> status = Some (newLoadBalancerStatus ip))) (\<lambda>_ _. False)"
    (is "triple _ _ ?Q ?E")
proof (rule triple_bind)
  show "triple (atW s l v) (tryIO (Process ord c)) (\<lambda>r. \<lambda>(s', l', b). at v b \<and> l' = l \<and> service s' = service s \<and>
      (\<forall>ip. r = Inr () \<and> vs_IpAddress ` ownServers (T s l) v = {ip} \<longrightarrow> ipAddress s' = ip)) ?E"
    (is "triple _ _ ?R _")
    by (rule triple_try, rule triple_post [OF process_converged [OF a conv]]) auto
  show "triple (?R r) (finishBoth r) ?Q ?E" for r
    by (rule tripleI) (use ports in \<open>auto simp: Finish_def run_simps run_provider_simps split: sum.splits\<close>)
qed

lemma ensure_converged:
  assumes p: "provider_ok B p" and free: "keyLock p (serviceKey svc) \<noteq> Some True"
    and conv: "converged (serviceTags p cl svc) ns (s_Ports svc) v" and ports: "s_Ports svc \<noteq> []"
  shows "triple (atP p v) (EnsureLoadBalancer ord cl svc ns)
    (\<lambda>(status, err). \<lambda>(p', b). p' = p\<lparr>keyLock := (keyLock p)(serviceKey svc \<mapsto> False)\<rparr> \<and> at v b \<and>
       (\<forall>ip. err = None \<and> vs_IpAddress ` ownServers (serviceTags p cl svc) v = {ip} \<longrightarrow>
          status = Some (newLoadBalancerStatus ip)))
    (\<lambda>_ _. False)"
    (is "triple _ _ ?Q _")
proof -
  let ?p = "p\<lparr>keyLock := (keyLock p)(serviceKey svc \<mapsto> True)\<rparr>"
  let ?Q' = "\<lambda>r. \<lambda>(p', b). keyLock p' (serviceKey svc) = Some True \<and> ?Q r (p'\<lparr>keyLock := (keyLock p')(serviceKey svc \<mapsto> False)\<rparr>, b)"
  let ?E' = "\<lambda>e. \<lambda>(p', b). keyLock p' (serviceKey svc) = Some True \<and> False"
  have ok: "broker (access (lbService p)) = B" using p by (auto simp: provider_ok_def)
  have "triple (atP ?p v) (case classFromService (classes p) svc of
      Inl e \<Rightarrow> ret (None, Some e)
    | Inr c \<Rightarrow> withState (newState cl svc ns) (bindIO (tryIO (Process ord c)) finishBoth)) ?Q' ?E'"
  proof (cases "classFromService (classes p) svc")
    case (Inl e)
    then show ?thesis by (auto intro!: triple_ret)
  next
    case (Inr c)
    have "triple (atP ?p v) (withState (newState cl svc ns) (bindIO (tryIO (Process ord c)) finishBoth)) ?Q' ?E'"
      by (rule triple_withState, rule triple_post [OF process_finish_converged]) (use ok conv ports in auto)
    with Inr show ?thesis by simp
  qed
  then have "triple (atP ?p v) (bindIO (getsIO (\<lambda>(p, _). classFromService (classes p) svc)) (\<lambda>found. case found of
      Inl e \<Rightarrow> ret (None, Some e)
    | Inr c \<Rightarrow> withState (newState cl svc ns) (bindIO (tryIO (Process ord c)) finishBoth))) ?Q' ?E'"
    by (rule triple_gets_bind [rotated]) auto
  from triple_locked [OF free this] show ?thesis unfolding EnsureLoadBalancer_def .
qed

end

section \<open>Ensure twice\<close>

lemma processed_converged:
  assumes "processed tg c (newState cl svc ns) v0 s v" "distinct (map portKey (s_Ports svc))"
    "\<forall>q \<in> ownPools tg v0. distinctMembers q" "\<forall>q \<in> set (s_Ports svc). soleOwn tg v0 q"
    "\<forall>x \<in> ownMonitors tg v. mon_ResourceType x = ''LbTcpMonitor''"
  shows "converged tg ns (s_Ports svc) v"
proof -
  have all: "{x \<in> ownMonitors tg v. mon_ResourceType x = ''LbTcpMonitor''} = ownMonitors tg v" using assms(5) by blast
  from assms(1) have p: "noOrphans tg (s_Ports svc) v" "\<forall>q. soleOwn tg v0 q \<longrightarrow> soleOwn tg v q"
    "\<forall>q \<in> set (s_Ports svc). servedBy True ns (ownServers tg v) (ownPools tg v) (ownMonitors tg v) q"
    using assms(2,3) by (simp_all add: processed_def Let_def)
  have "\<forall>q \<in> set (s_Ports svc). soleOwn tg v q" using p(2) assms(4) by blast
  with p(1,3) assms(5) show ?thesis
    unfolding converged_def settled_def all noOrphans_def soleOwn_def Let_def by blast
qed

text \<open>
  C8. \<open>EnsureLoadBalancer\<close> is idempotent: repeated right after a success for the same ports and
  nodes it creates, changes and deletes nothing, whether its lookups fail or not, it leaves the
  provider as it is, and without an error it reports the address of the virtual servers. Before
  the first call there was at most one object of each kind for a port, and the backend reports
  the monitors of the service as TCP monitors.
\<close>

theorem EnsureLoadBalancer_idempotent:
  assumes backend: "nsxt_backend B invar view mt" "provider_ok B p" "keyLock p (serviceKey svc) \<noteq> Some True" "invar b"
    and run: "EnsureLoadBalancer ord cl svc ns (p, b) = (Ok (status, None), (p', b'))"
    and svc: "s_Ports svc \<noteq> []" "distinct (map portKey (s_Ports svc))"
    and own: "\<forall>q \<in> ownPools (serviceTags p cl svc) (view b). distinctMembers q"
      "\<forall>port \<in> set (s_Ports svc). soleOwn (serviceTags p cl svc) (view b) port"
      "\<forall>x \<in> ownMonitors (serviceTags p cl svc) (view b'). mon_ResourceType x = ''LbTcpMonitor''"
  shows "\<exists>status' err b''. EnsureLoadBalancer ord' cl svc ns (p', b') = (Ok (status', err), (p', b'')) \<and> invar b'' \<and> view b'' = view b' \<and>
    (\<forall>ip. err = None \<and> vs_IpAddress ` ownServers (serviceTags p cl svc) (view b') = {ip} \<longrightarrow> status' = Some (newLoadBalancerStatus ip))"
proof -
  from ensure_success [OF backend run] svc(1) obtain c s'
    where "processed (serviceTags p cl svc) c (newState cl svc ns) (view b) s' (view b')" by metis
  then have conv: "converged (serviceTags p cl svc) ns (s_Ports svc) (view b')" by (rule processed_converged) (use svc own in auto)
  have p': "invar b'" "provider_ok B p'" "access (lbService p') = access (lbService p)" "keyLock p' = (keyLock p)(serviceKey svc \<mapsto> False)"
    by (rule ensure_outcome [OF backend, of ord cl ns]; use run in simp)+
  have keep: "p'\<lparr>keyLock := (keyLock p')(serviceKey svc \<mapsto> False)\<rparr> = p'" by (simp add: p'(4))
  have start: "(\<lambda>(q, b). q = p' \<and> nsxt_backend.at invar view (view b') b) (p', b')" using p'(1) by (simp add: nsxt_backend.at_def [OF backend(1)])
  have "keyLock p' (serviceKey svc) \<noteq> Some True" by (simp add: p'(4))
  note again = nsxt_backend.ensure_converged [OF backend(1) p'(2) this, of cl ns "view b'" ord', unfolded p'(3) keep, OF conv svc(1)]
  from again start show ?thesis
    by (cases rule: triple_elim) (auto simp: nsxt_backend.at_def [OF backend(1)])
qed

text \<open>A service with one UDP port in simulation mode.\<close>

definition example_dns :: Service where
  "example_dns = example_service\<lparr>s_Ports := [\<lparr>sp_Port = 53, sp_NodePort = 30053, sp_Protocol = ''UDP''\<rparr>]\<rparr>"

definition example_dns_store :: inmem where
  "example_dns_store =
     (let n = objectNameFromService example_service; m = NewMapping (s_Ports example_dns ! 0); tags = class_Tags example_class;
          members = map (newMember ''c'') [(''10.0.0.1'', ''n1''), (''10.0.0.2'', ''n2'')]
      in \<lparr>ipPools = [(''ip-pool-0'', (newMemIPPool ''ip-pool-0'' ''pool1'' ''10.111.0'' 10)\<lparr>mip_allocations := [''10.111.0.1'']\<rparr>),
            (''ip-pool-1'', newMemIPPool ''ip-pool-1'' ''poolPublic'' ''10.111.1'' 10)],
          lbServices = [(newLbServiceObject example_handler ''c'')\<lparr>svc_Id := ''lbservice-2'', svc_VirtualServerIds := [''server-1'']\<rparr>],
          lbVirtualServers = [(newVirtualServerObject example_handler ''c'' n tags ''10.111.0.1'' m ''pool-0'')\<lparr>vs_Id := ''server-1''\<rparr>],
          lbPools = [(newPoolObject example_handler ''c'' n m members [])\<lparr>pool_Id := ''pool-0''\<rparr>],
          lbMonitors = [], nextID = 3\<rparr>)"

definition example_dns_provider :: "inmem lbProvider" where
  "example_dns_provider = example_provider\<lparr>lbService := (lbService example_provider)\<lparr>lbServiceID := ''lbservice-2''\<rparr>,
     keyLock := [''shop/web'' \<mapsto> False]\<rparr>"

lemma example_dns_fields:
  "objectNameFromService example_dns = example_name" "s_Ports example_dns = [\<lparr>sp_Port = 53, sp_NodePort = 30053, sp_Protocol = ''UDP''\<rparr>]"
  "s_Ingress example_dns = []" "s_Annotations example_dns = []"
  by (simp_all add: example_dns_def example_name_def objectNameFromService_def example_service_def)

lemma example_dns_ensured:
  "EnsureLoadBalancer (\<lambda>_ ks. ks) ''c'' example_dns example_nodes (example_provider, example_store) =
     (Ok (Some (newLoadBalancerStatus ''10.111.0.1''), None), (example_dns_provider, example_dns_store))"
  by (simp add: example_dns_store_def example_dns_provider_def newMember_def example_store_def example_dns_fields run_example cong: run_cong)

theorem EnsureLoadBalancer_idempotent_witness:
  "\<exists>status err b. EnsureLoadBalancer (\<lambda>_ ks. ks) ''c'' example_dns example_nodes (example_dns_provider, example_dns_store) =
     (Ok (status, err), (example_dns_provider, b)) \<and> inmem_view b = inmem_view example_dns_store"
proof -
  have "keyLock example_provider (serviceKey example_dns) \<noteq> Some True" by (simp add: example_provider_def newKeyLock_def)
  note step = EnsureLoadBalancer_idempotent [OF im.nsxt_backend_axioms example_ok(1) this example_ok(3) example_dns_ensured, of "\<lambda>_ ks. ks"]
  have "ownMonitors tg (inmem_view example_dns_store) = {}" for tg
    by (simp add: inmem_view_def example_dns_store_def Let_def index_by_def ownSet_def)
  moreover have "ownPools tg (inmem_view example_store) = {}" "ownMonitors tg (inmem_view example_store) = {}" for tg
    by (simp_all add: example_store_def NewInMemoryNsxtBroker_def inmem_view_def ownSet_def index_by_def)
  ultimately show ?thesis
    using step by (simp add: example_dns_fields example_store_empty soleOwn_def) blast
qed

end
