(* ===== verification/Rollback.thy ===== *)
theory Rollback
  imports LB_Guarantees
begin

text \<open>
  What is undone when an operation fails. On a backend where the calls of an undo work,
  \<open>createVirtualServer\<close> either makes an attached virtual server or leaves no trace, and
  \<open>EnsureLoadBalancer\<close> loses no address, whatever other calls fail: every address that is
  allocated afterwards was allocated before, or a virtual server for a port of the service
  has it.
\<close>

section \<open>Creating a virtual server\<close>

text \<open>Virtual servers, pools, monitors and addresses are as before.\<close>

definition undone :: "nsxt_view \<Rightarrow> nsxt_view \<Rightarrow> bool" where
  "undone v v' \<longleftrightarrow> v_servers v' = v_servers v \<and> v_pools v' = v_pools v \<and> v_monitors v' = v_monitors v \<and> v_allocs v' = v_allocs v"

text \<open>One virtual server more, with an address that was allocated for it or not.\<close>

definition createdWith :: "loadBalancerClass \<Rightarrow> LbVirtualServer \<Rightarrow> nsxt_view \<Rightarrow> nsxt_view \<Rightarrow> bool" where
  "createdWith c x v v' \<longleftrightarrow> v_servers v (vs_Id x) = None \<and> v_servers v' = (v_servers v)(vs_Id x \<mapsto> x) \<and>
     (\<exists>allocated. allocation c allocated (vs_IpAddress x) v v')"

context reliable_backend
begin

lemma release_resources_sure:
  assumes a: "broker (access l) = B" and c: "lbClass s = Some c" and al: "allocation c True (ipAddress s) v v'"
  shows "triple (atW s l v') releaseResources (\<lambda>_. atW s l (v'\<lparr>v_allocs := v_allocs v\<rparr>)) (\<lambda>_ _. False)"
proof -
  from al obtain as where as: "v_allocs v (ipPoolID c) = Some as" "ipAddress s \<notin> as" "ipAddress s \<noteq> ''''"
    "v_allocs v' = (v_allocs v)(ipPoolID c \<mapsto> insert (ipAddress s) as)" by (auto simp: allocation_def)
  then have v': "v_allocs v' (ipPoolID c) = Some (insert (ipAddress s) as)" by simp
  have restored: "(v_allocs v')(ipPoolID c \<mapsto> as - {ipAddress s}) = v_allocs v"
    using as by (auto simp: fun_eq_iff)
  have ask: "triple (atW s l v') (callAccess (\<lambda>a. IsAllocatedExternalIPAddress a (ipPoolID c) (ipAddress s)))
      (\<lambda>r w. r \<and> atW s l v' w) (\<lambda>_ _. False)"
    by (rule triple_callAccess_at, rule triple_post [OF is_allocated_sure [OF a]]) (auto simp: v')
  have release: "triple (atW s l v') (callAccess (\<lambda>a. ReleaseExternalIPAddress a (ipPoolID c) (ipAddress s)))
      (\<lambda>_. atW s l (v'\<lparr>v_allocs := v_allocs v\<rparr>)) (\<lambda>_ _. False)"
    by (rule triple_callAccess_at, rule triple_post [OF release_sure [OF a v']]) (auto simp: restored)
  show ?thesis
    unfolding releaseResources_def using as(3)
    by (intro triple_getState triple_if triple_classOf [OF c] triple_bind [OF ask] triple_pure_pre triple_ret release) auto
qed

lemma rollback_sure:
  assumes a: "broker (access l) = B" and c: "lbClass s = Some c" and al: "allocation c allocated (ipAddress s) v v'"
  shows "triple (atW s l v') (bindIO (if allocated then loggedReleaseResources else ret ()) (\<lambda>_. throw err))
    Q (\<lambda>_. atW s l (v'\<lparr>v_allocs := v_allocs v\<rparr>))"
proof (rule throw_after, rule triple_if)
  assume allocated
  then show "triple (atW s l v') loggedReleaseResources (\<lambda>_. atW s l (v'\<lparr>v_allocs := v_allocs v\<rparr>)) (\<lambda>_. atW s l (v'\<lparr>v_allocs := v_allocs v\<rparr>))"
    using al unfolding loggedReleaseResources_def
    by (intro triple_bind [OF triple_try [OF triple_post [OF release_resources_sure [OF a c],
      where Q = "\<lambda>_. atW s l (v'\<lparr>v_allocs := v_allocs v\<rparr>)"]]] triple_ret) auto
next
  assume "\<not> allocated"
  with al have "v'\<lparr>v_allocs := v_allocs v\<rparr> = v'" by (simp add: allocation_def)
  then show "triple (atW s l v') (ret ()) (\<lambda>_. atW s l (v'\<lparr>v_allocs := v_allocs v\<rparr>)) (\<lambda>_. atW s l (v'\<lparr>v_allocs := v_allocs v\<rparr>))"
    by (intro triple_ret) simp
qed

lemma triple_viewW:
  assumes "\<And>s l v. P s l v \<Longrightarrow> triple (atW s l v) f Q E"
  shows "triple (\<lambda>(s, l, b). invar b \<and> P s l (view b)) f Q E"
  using assms by (fastforce simp: triple_def at_def)

lemma attach_sure:
  assumes a: "broker (access l) = B" and c: "lbClass s = Some c"
    and al: "allocation c allocated (ipAddress s) v v2" and x: "v_servers v (vs_Id x) = None" "vs_IpAddress x = ipAddress s"
    and v2: "v_servers v2 = (v_servers v)(vs_Id x \<mapsto> x)" "v_pools v2 = v_pools v" "v_monitors v2 = v_monitors v"
  shows "triple (atW s l v2)
     (bindIO (tryIO (onSnd (addVirtualServerToLoadBalancerService cl (vs_Id x)))) (\<lambda>added.
         case added of
           Inl err \<Rightarrow>
             bindIO (tryIO (callAccess (\<lambda>a. DeleteVirtualServer a (vs_Id x)))) (\<lambda>_.
             bindIO (if allocated then loggedReleaseResources else ret ()) (\<lambda>_. throw err))
         | Inr _ \<Rightarrow> ret x))
     (\<lambda>r. \<lambda>(s', l', b). invar b \<and> createdWith c r v (view b)) (\<lambda>_. \<lambda>(s', l', b). invar b \<and> undone v (view b))"
    (is "triple _ _ ?Q ?E")
proof -
  let ?same = "\<lambda>v3. v_servers v3 = v_servers v2 \<and> v_pools v3 = v_pools v2 \<and> v_monitors v3 = v_monitors v2 \<and> v_allocs v3 = v_allocs v2"
  let ?mid = "\<lambda>(s', l', b). invar b \<and> (s' = s \<and> access l' = access l \<and> ?same (view b))"
  have add: "triple (atW s l v2) (tryIO (onSnd (addVirtualServerToLoadBalancerService cl (vs_Id x)))) (\<lambda>_. ?mid) ?E"
    by (rule triple_try, rule triple_onSnd_at, rule triple_post [OF add_server [OF a]])
      (auto simp: at_def add_to_def with_service_def)
  have undo: "triple (atW s l' v3) (bindIO (tryIO (callAccess (\<lambda>a. DeleteVirtualServer a (vs_Id x)))) (\<lambda>_.
             bindIO (if allocated then loggedReleaseResources else ret ()) (\<lambda>_. throw err))) ?Q ?E"
    if l': "access l' = access l" and v3: "?same v3" for err v3 and l' :: "'s lbService"
  proof -
    let ?v = "v3\<lparr>v_servers := (v_servers v3)(vs_Id x := None)\<rparr>"
    have al': "allocation c allocated (ipAddress s) v ?v" using al v3 by (simp add: allocation_def)
    have "undone v (?v\<lparr>v_allocs := v_allocs v\<rparr>)" using v2 v3 x(1) by (simp add: undone_def fun_upd_idem)
    moreover have "broker (access l') = B" using a l' by simp
    then have "triple (atW s l' v3) (tryIO (callAccess (\<lambda>a. DeleteVirtualServer a (vs_Id x)))) (\<lambda>_. atW s l' ?v) ?E"
      by (intro triple_try triple_callAccess_at, intro triple_post [OF delete_server_sure]) auto
    moreover have "triple (atW s l' ?v) (bindIO (if allocated then loggedReleaseResources else ret ()) (\<lambda>_. throw err))
        ?Q (\<lambda>_. atW s l' (?v\<lparr>v_allocs := v_allocs v\<rparr>))"
      by (rule rollback_sure [OF _ c al']) (simp add: a l')
    ultimately show ?thesis
      by (elim triple_bind) (erule triple_post, auto simp: at_def)
  qed
  have "createdWith c x v v3" if "?same v3" for v3
  proof -
    have "allocation c allocated (vs_IpAddress x) v v3" using that al x(2) by (simp add: allocation_def)
    then show ?thesis using that x(1) v2(1) unfolding createdWith_def by auto
  qed
  then have "triple (atW s' l' v3) (ret x) ?Q ?E" if "?same v3" for s' v3 and l' :: "'s lbService"
    using that by (intro triple_ret) (auto simp: at_def)
  with undo have "triple ?mid (case r of Inl err \<Rightarrow> bindIO (tryIO (callAccess (\<lambda>a. DeleteVirtualServer a (vs_Id x)))) (\<lambda>_.
      bindIO (if allocated then loggedReleaseResources else ret ()) (\<lambda>_. throw err)) | Inr _ \<Rightarrow> ret x) ?Q ?E" for r
    by (intro triple_viewW) (cases r, simp_all)
  then show ?thesis by (rule triple_bind [OF add])
qed

lemma create_attach_sure:
  assumes a: "broker (access l) = B" and c: "lbClass s1 = Some c"
    and v1: "v1 = v\<lparr>v_allocs := al\<rparr>" "allocation c allocated (ipAddress s1) v v1"
  shows "triple (atW s1 l v1) (bindIO (tryIO (callAccess (\<lambda>a. CreateVirtualServer a (clusterName s1) (objectName s1)
      (class_Tags c) (ipAddress s1) m pid))) (afterCreate s1 allocated))
    (\<lambda>x. \<lambda>(s', l', b). invar b \<and> createdWith c x v (view b)) (\<lambda>_. \<lambda>(s', l', b). invar b \<and> undone v (view b))"
    (is "triple _ _ ?Q ?E")
proof -
  let ?v2 = "\<lambda>x. v1\<lparr>v_servers := (v_servers v1)(vs_Id x \<mapsto> x)\<rparr>"
  let ?new = "\<lambda>x. v_servers v (vs_Id x) = None \<and> vs_IpAddress x = ipAddress s1"
  have create: "triple (atW s1 l v1) (tryIO (callAccess (\<lambda>a. CreateVirtualServer a (clusterName s1) (objectName s1)
      (class_Tags c) (ipAddress s1) m pid)))
      (\<lambda>r w. case r of Inr x \<Rightarrow> ?new x \<and> atW s1 l (?v2 x) w | Inl _ \<Rightarrow> atW s1 l v1 w) ?E"
    by (rule triple_try, rule triple_callAccess_at, rule triple_post [OF create_virtual_server [OF a]])
      (auto simp: v1(1) newVirtualServerObject_def)
  have attach: "triple (atW s1 l (?v2 x)) (afterCreate s1 allocated (Inr x)) ?Q ?E" if x: "?new x" for x
    unfolding sum.case
  proof (rule triple_putState_bind, rule attach_sure [OF a])
    show "allocation c allocated (ipAddress (s1\<lparr>servers := servers s1 @ [x]\<rparr>)) v (?v2 x)" using v1(2) by (simp add: allocation_def)
  qed (use c x in \<open>simp_all add: v1(1)\<close>)
  have "undone v (v1\<lparr>v_allocs := v_allocs v\<rparr>)" by (simp add: v1(1) undone_def)
  then have fail: "triple (atW s1 l v1) (afterCreate s1 allocated (Inl err)) ?Q ?E" for err
    unfolding sum.case by (intro triple_post [OF rollback_sure [OF a c v1(2)]]) (auto simp: at_def)
  have "triple (\<lambda>w. case r of Inr x \<Rightarrow> ?new x \<and> atW s1 l (?v2 x) w | Inl _ \<Rightarrow> atW s1 l v1 w)
      (afterCreate s1 allocated r) ?Q ?E" for r
    using fail attach by (cases r) (simp_all add: triple_pure_pre)
  then show ?thesis by (rule triple_bind [OF create])
qed

lemma create_sure:
  assumes a: "broker (access l) = B" and c: "lbClass s = Some c"
  shows "triple (atW s l v) (createVirtualServer m pid)
    (\<lambda>x. \<lambda>(s', l', b). invar b \<and> createdWith c x v (view b)) (\<lambda>_. \<lambda>(s', l', b). invar b \<and> undone v (view b))"
    (is "triple _ _ ?Q ?E")
proof -
  let ?rest = "\<lambda>allocated. bindIO getState (\<lambda>s. bindIO classOf (\<lambda>c. bindIO (tryIO (callAccess (\<lambda>a.
      CreateVirtualServer a (clusterName s) (objectName s) (class_Tags c) (ipAddress s) m pid))) (afterCreate s allocated)))"
  let ?mid = "\<lambda>allocated. \<lambda>(s', l', b). l' = l \<and> s' = s\<lparr>ipAddress := ipAddress s'\<rparr> \<and>
       (\<exists>al. allocation c allocated (ipAddress s') v (v\<lparr>v_allocs := al\<rparr>) \<and> at (v\<lparr>v_allocs := al\<rparr>) b)"
  have alloc: "triple (atW s l v) allocateResources ?mid ?E"
    by (rule triple_post [OF allocate_step [OF a c]]) (auto simp: at_def undone_def)
  have "triple (?mid allocated) (?rest allocated) ?Q ?E" for allocated
  proof (rule tripleI, clarify)
    fix s1 b al assume h: "s1 = s\<lparr>ipAddress := ipAddress s1\<rparr>"
      "allocation c allocated (ipAddress s1) v (v\<lparr>v_allocs := al\<rparr>)" "at (v\<lparr>v_allocs := al\<rparr>) b"
    have s1: "lbClass s1 = Some c" by (subst h(1)) (simp add: c)
    then have "triple (atW s1 l (v\<lparr>v_allocs := al\<rparr>)) (?rest allocated) ?Q ?E"
      using create_attach_sure [OF a s1 refl h(2), of m pid] by (intro triple_getState triple_classOf) simp_all
    then show "post ?Q ?E (?rest allocated (s1, l, b))" by (rule tripleD) (simp add: h(3))
  qed
  then show ?thesis unfolding createVirtualServer_def by (rule triple_bind [OF alloc])
qed

end

section \<open>Addresses are accounted for\<close>

text \<open>
  From one view to a later one: virtual servers of the kind \<open>R\<close> stay, with their addresses, and
  an address that was allocated since is the address of such a server.
\<close>

definition accounted :: "(LbVirtualServer \<Rightarrow> bool) \<Rightarrow> nsxt_view \<Rightarrow> nsxt_view \<Rightarrow> bool" where
  "accounted R v v' \<longleftrightarrow>
     (\<forall>k x. v_servers v k = Some x \<and> R x \<longrightarrow> (\<exists>y. v_servers v' k = Some y \<and> R y \<and> vs_IpAddress y = vs_IpAddress x)) \<and>
     (\<forall>p as ip. v_allocs v' p = Some as \<and> ip \<in> as \<longrightarrow>
        (\<exists>as0. v_allocs v p = Some as0 \<and> ip \<in> as0) \<or> (\<exists>k x. v_servers v' k = Some x \<and> R x \<and> vs_IpAddress x = ip))"

lemma accounted_same:
  assumes "v_allocs v' = v_allocs v" "\<And>k x. v_servers v k = Some x \<Longrightarrow> R x \<Longrightarrow> v_servers v' k = Some x"
  shows "accounted R v v'"
  using assms by (auto simp: accounted_def)

lemma accounted_refl [simp]: "accounted R v v"
  by (rule accounted_same) auto

lemma accounted_trans:
  assumes "accounted R v v'" "accounted R v' v''"
  shows "accounted R v v''"
  unfolding accounted_def
proof (intro conjI allI impI)
  fix k x assume "v_servers v k = Some x \<and> R x"
  with assms show "\<exists>y. v_servers v'' k = Some y \<and> R y \<and> vs_IpAddress y = vs_IpAddress x" unfolding accounted_def by metis
next
  fix p as ip assume "v_allocs v'' p = Some as \<and> ip \<in> as"
  with assms(2) consider as' where "v_allocs v' p = Some as'" "ip \<in> as'" | "\<exists>k x. v_servers v'' k = Some x \<and> R x \<and> vs_IpAddress x = ip"
    unfolding accounted_def by blast
  then show "(\<exists>as0. v_allocs v p = Some as0 \<and> ip \<in> as0) \<or> (\<exists>k x. v_servers v'' k = Some x \<and> R x \<and> vs_IpAddress x = ip)"
  proof cases
    case 1
    with assms show ?thesis unfolding accounted_def by metis
  qed blast
qed

lemma accounted_undone: "undone v v' \<Longrightarrow> accounted R v v'"
  by (rule accounted_same) (simp_all add: undone_def)

lemma accounted_created:
  assumes "createdWith c x v v'" "R x"
  shows "accounted R v v'"
  using assms by (auto simp: accounted_def createdWith_def allocation_def split: if_splits)

lemma accounted_update:
  assumes "v_servers v k = Some x" "R x \<Longrightarrow> R y" "vs_IpAddress y = vs_IpAddress x"
  shows "accounted R v (v\<lparr>v_servers := (v_servers v)(k \<mapsto> y)\<rparr>)"
  using assms by (auto simp: accounted_def)

lemma accounted_released: "accounted R v (released s v)"
  by (auto simp: accounted_def) (auto simp: released_def split: option.splits if_splits)

text \<open>The virtual servers that the cleanup spares: own ones for a port of the service.\<close>

definition needed :: "tag list \<Rightarrow> ServicePort list \<Rightarrow> LbVirtualServer \<Rightarrow> bool" where
  "needed tg ps x \<longleftrightarrow> checkTags (vs_Tags x) tg \<and> \<not> orphanServer ps x"

context reliable_backend
begin

abbreviation "acc R v \<equiv> \<lambda>(s :: state, l :: 's lbService, b). accounted R v (view b)"

text \<open>Two operations in a row; the first one also has the contract proved before.\<close>

lemma acc_bind:
  assumes f: "triple (atW s l v) f (\<lambda>r. \<lambda>(s', l', b). \<exists>v'. at v' b \<and> X r s' l' v') E" "triple (atW s l v) f (\<lambda>_. acc R v) (\<lambda>_. acc R v)"
    and g: "\<And>r s' l' v'. X r s' l' v' \<Longrightarrow> triple (atW s' l' v') (g r) (\<lambda>_. acc R v') (\<lambda>_. acc R v')"
  shows "triple (atW s l v) (bindIO f g) (\<lambda>_. acc R v) (\<lambda>_. acc R v)"
proof (rule triple_bindE [OF triple_conj [OF f]])
  show "triple (\<lambda>w. (case w of (s', l', b) \<Rightarrow> \<exists>v'. at v' b \<and> X r s' l' v') \<and> acc R v w) (g r) (\<lambda>_. acc R v) (\<lambda>_. acc R v)" for r
  proof (rule tripleI, clarify)
    fix s' l' b v' assume h: "accounted R v (view b)" "at v' b" "X r s' l' v'"
    from tripleD [OF g [OF h(3)], of "(s', l', b)"] h(2) have "post (\<lambda>_. acc R v') (\<lambda>_. acc R v') (g r (s', l', b))" by simp
    moreover have "accounted R v v'" using h(1,2) by (simp add: at_def)
    ultimately show "post (\<lambda>_. acc R v) (\<lambda>_. acc R v) (g r (s', l', b))"
      by (elim post_mono) (auto intro: accounted_trans)
  qed
qed auto

text \<open>The operations of \<open>state.go\<close>, up to \<open>EnsureLoadBalancer\<close>.\<close>

lemma acc_monitor:
  assumes a: "broker (access l) = B" "access_wf (access l)" and sync: "synced (T s l) s v"
  shows "triple (atW s l v) (getTCPMonitor m) (\<lambda>_. acc R v) (\<lambda>_. acc R v)"
proof -
  have mirror: "mirrors mon_Id (ownMonitor s l) tcpTyped (tcpMonitors s) (v_monitors v)"
    using sync by (simp add: synced_def)
  show ?thesis
    by (rule triple_post [OF get_monitor [OF a mirror]]) (auto simp: at_def split: if_splits intro!: accounted_same)
qed

lemma acc_pool:
  assumes a: "broker (access l) = B" "access_wf (access l)"
    and mirror: "mirrors pool_Id (ownPool s l) (\<lambda>_. True) (pools s) (v_pools v)"
  shows "triple (atW s l v) (getPool ord m r) (\<lambda>_. acc R v) (\<lambda>_. acc R v)"
  by (rule triple_post [OF get_pool [OF a mirror]]) (auto simp: at_def intro!: accounted_same)

lemma acc_server:
  assumes a: "broker (access l) = B" "access_wf (access l)" and c: "lbClass s = Some c" "classTagsOk c"
    and mirror: "mirrors vs_Id (ownServer s l) sel (servers s) (v_servers v)" and p: "p \<in> set ps"
  shows "triple (atW s l v) (getVirtualServer (NewMapping p) pid) (\<lambda>_. acc (needed (T s l) ps) v) (\<lambda>_. acc (needed (T s l) ps) v)"
    (is "triple _ _ ?Q ?E")
proof -
  let ?m = "NewMapping p"
  let ?find = "findIndex (MatchVirtualServer ?m) (servers s)"
  let ?update = "\<lambda>i. bindIO (updateVirtualServer (servers s ! i) ?m pid) (\<lambda>x.
      bindIO (putState (\<lambda>s. s\<lparr>servers := (servers s)[i := x]\<rparr>)) (\<lambda>_. ret x))"
  have update: "triple (atW s l v) (?update i) ?Q ?E" if "?find = Some i" for i
  proof -
    let ?x = "servers s ! i"
    have x: "v_servers v (vs_Id ?x) = Some ?x" using findIndex_Some [OF that] mirrors_view [OF mirror] by auto
    have "accounted (needed (T s l) ps) v (v\<lparr>v_servers := (v_servers v)(vs_Id ?x \<mapsto>
        ?x\<lparr>vs_DefaultPoolMemberPort := formatPort (NodePort ?m), vs_PoolId := pid\<rparr>)\<rparr>)"
      by (rule accounted_update [OF x]) (auto simp: needed_def orphanServer_def MatchVirtualServer_def)
    then have "triple (atW s l v) (updateVirtualServer ?x ?m pid) ?Q ?E"
      by (intro triple_post [OF update_server_step [OF a(1) x]]) (auto simp: at_def)
    then show ?thesis
      unfolding putState_def by (rule triple_bind) (rule tripleI, auto simp: io_defs)
  qed
  have new: "accounted (needed (T s l) ps) v v'" if "createdWith c x v v'" "ownServer s l x" "MatchVirtualServer ?m x" for x v'
    using that p by (intro accounted_created [OF that(1)]) (auto simp: needed_def orphanServer_def)
  have "triple (atW s l v) (createVirtualServer ?m pid) ?Q ?E"
    by (rule triple_post [OF triple_conj [OF create_server_step [OF a c] create_sure [OF a(1) c(1)]]])
      (auto intro: new accounted_undone)
  with update show ?thesis
    unfolding getVirtualServer_def by (intro triple_getState triple_option) auto
qed

lemma acc_port:
  assumes a: "broker (access l) = B" "access_wf (access l)" and c: "lbClass s = Some c" "classTagsOk c"
    and sync: "synced (T s l) s v" and p: "p \<in> set ps"
  shows "triple (atW s l v) (processPort ord p) (\<lambda>_. acc (needed (T s l) ps) v) (\<lambda>_. acc (needed (T s l) ps) v)"
  unfolding processPort_def Let_def
proof (rule acc_bind [OF process_monitor [OF a sync] acc_monitor [OF a sync]], elim conjE)
  let ?R = "needed (T s l) ps"
  fix r s1 v1 and l1 :: "'s lbService" assume "l1 = l" and m: "afterMonitor (T s l) (NewMapping p) s v r s1 v1"
  note f = afterMonitor_fields [OF m]
  have mirror: "mirrors pool_Id (ownPool s1 l) (\<lambda>_. True) (pools s1) (v_pools v1)"
    using sync f by (simp add: synced_def sameJob_def)
  show "triple (atW s1 l1 v1) (bindIO (getPool ord (NewMapping p) r) (\<lambda>pool. bindIO (getVirtualServer (NewMapping p) (pool_Id pool)) (\<lambda>_. ret ())))
      (\<lambda>_. acc ?R v1) (\<lambda>_. acc ?R v1)"
    unfolding \<open>l1 = l\<close>
  proof (rule acc_bind [OF process_pool [OF a sync m] acc_pool [OF a mirror]], elim conjE)
    fix x s2 v2 and l2 :: "'s lbService" assume "l2 = l" and q: "afterPool (T s l) (NewMapping p) s v r x s2 v2"
    note g = afterPool_fields [OF q]
    have job: "T s2 l = T s l" "lbClass s2 = Some c" using g(1) c(1) by (simp_all add: sameJob_def)
    have "mirrors vs_Id (ownServer s2 l) (\<lambda>_. True) (servers s2) (v_servers v2)" using sync g unfolding job by (simp add: synced_def)
    from acc_server [OF a job(2) c(2) this p, of "pool_Id x"]
    show "triple (atW s2 l2 v2) (bindIO (getVirtualServer (NewMapping p) (pool_Id x)) (\<lambda>_. ret ())) (\<lambda>_. acc ?R v2) (\<lambda>_. acc ?R v2)"
      unfolding \<open>l2 = l\<close> job by (rule triple_bind) (rule triple_ret)
  qed
qed

lemma acc_ports:
  assumes a: "broker (access l) = B" "access_wf (access l)" and c: "lbClass s = Some c" "classTagsOk c"
    and sync: "synced (T s l) s v"
  shows "triple (atW s l v) (forIO (processPort ord) ps) (\<lambda>_. acc (needed (T s l) ps) v) (\<lambda>_. acc (needed (T s l) ps) v)"
proof -
  let ?R = "needed (T s l) ps"
  let ?I = "\<lambda>ys. \<lambda>(s', l', b). \<exists>v'. at v' b \<and> access l' = access l \<and> portsDone (T s l) ys s v s' v' \<and> accounted ?R v v'"
  have step: "triple (?I ys) (processPort ord y) (\<lambda>_. ?I (ys @ [y])) (\<lambda>_. acc ?R v)" if ps: "ps = ys @ y # zs" for ys y zs
  proof (rule triple_world, elim conjE)
    fix s1 v1 and l1 :: "'s lbService"
    assume l1: "access l1 = access l" and d: "portsDone (T s l) ys s v s1 v1" and acc: "accounted ?R v v1"
    have job: "clusterName s1 = clusterName s" "objectName s1 = objectName s" "lbClass s1 = Some c" and sync1: "synced (T s1 l1) s1 v1"
      using d l1 c(1) by (auto simp: portsDone_def sameJob_def)
    have a1: "broker (access l1) = B" "access_wf (access l1)" and y: "y \<in> set ps" using a l1 ps by simp_all
    show "triple (atW s1 l1 v1) (processPort ord y) (\<lambda>_. ?I (ys @ [y])) (\<lambda>_. acc ?R v)"
      by (rule triple_post [OF triple_conj [OF process_port [OF a1 job(3) c(2) sync1] acc_port [OF a1 job(3) c(2) sync1 y]]])
        (auto simp: job l1 at_def intro: portsDone_snoc [OF d] accounted_trans [OF acc])
  qed
  have "triple (?I []) (forIO (processPort ord) ps) (\<lambda>_. ?I ps) (\<lambda>_. acc ?R v)" by (rule triple_for [OF step])
  then show ?thesis by (rule triple_conseq) (use sync in \<open>auto simp: portsDone_def at_def\<close>)
qed

lemma acc_delete_server:
  assumes a: "broker (access l) = B" and x: "v_servers v (vs_Id x) = Some x" "\<not> R x"
  shows "triple (atW s l v) (deleteVirtualServer x) (\<lambda>_. acc R v) (\<lambda>_. acc R v)"
proof -
  let ?remove = "onSnd (removeVirtualServerFromLoadBalancerService (clusterName s) (vs_Id x))"
  have view: "triple (atW s l v) ?remove (\<lambda>_. \<lambda>(s', l', b). \<exists>v'. at v' b \<and> s' = s \<and> l' = l \<and> v_servers v' = v_servers v) (\<lambda>_. atW s l v)"
    by (rule triple_onSnd_at, rule triple_post [OF remove_server [OF a]]) auto
  have acc: "triple (atW s l v) ?remove (\<lambda>_. acc R v) (\<lambda>_. acc R v)"
    by (rule triple_onSnd_at, rule triple_post [OF remove_server [OF a]]) (auto simp: at_def intro!: accounted_same)
  have "triple (atW s l v') (callAccess (\<lambda>a. DeleteVirtualServer a (vs_Id x))) (\<lambda>_. acc R v') (\<lambda>_. acc R v')"
    if "v_servers v' = v_servers v" for v'
    by (rule triple_callAccess_at, rule triple_post [OF delete_virtual_server [OF a]])
      (use that x in \<open>auto simp: at_def intro!: accounted_same\<close>)
  then show ?thesis
    unfolding deleteVirtualServer_def by (intro triple_getState acc_bind [OF view acc]) auto
qed

lemma acc_orphan_servers:
  assumes a: "broker (access l) = B"
    and mirror: "mirrors vs_Id (\<lambda>x. checkTags (vs_Tags x) tg) sel (servers s) (v_servers v)"
  shows "triple (atW s l v) deleteOrphanVirtualServers (\<lambda>_. acc (needed tg (s_Ports (service s))) v) (\<lambda>_. acc (needed tg (s_Ports (service s))) v)"
proof -
  let ?ports = "s_Ports (service s)"
  let ?R = "needed tg ?ports"
  let ?f = "\<lambda>ids server. if list_ex (\<lambda>p. MatchVirtualServer (NewMapping p) server) ?ports
       then ret (insert (vs_PoolId server) ids) else bindIO (deleteVirtualServer server) (\<lambda>_. ret ids)"
  let ?I = "\<lambda>ys. \<lambda>(s', l', b). \<exists>v'. at v' b \<and> s' = s \<and> l' = l \<and> accounted ?R v v' \<and>
     (\<forall>y \<in> set (servers s) - set ys. v_servers v' (vs_Id y) = Some y)"
  have "triple (?I ys) (?f ids y) (\<lambda>_. ?I (ys @ [y])) (\<lambda>_. acc ?R v)" if xs: "servers s = ys @ y # zs" for ys y zs ids
  proof (rule triple_world, elim conjE)
    fix s1 v1 and l1 :: "'s lbService"
    assume s1: "s1 = s" "l1 = l" and acc: "accounted ?R v v1" and rest: "\<forall>y \<in> set (servers s) - set ys. v_servers v1 (vs_Id y) = Some y"
    have dist: "distinct (map vs_Id (servers s))" using mirror by (simp add: mirrors_def)
    then have y: "v_servers v1 (vs_Id y) = Some y" "checkTags (vs_Tags y) tg"
      using rest xs mirrors_view [OF mirror, of y] by auto
    have other: "vs_Id z \<noteq> vs_Id y" if "z \<in> set (servers s) - set (ys @ [y])" for z
      using that dist unfolding xs by (auto simp: image_iff)
    have gone: "?I (ys @ [y]) (s, l, b)" if "at v2 b" "serversGone {y} v1 v2" "accounted ?R v1 v2" for v2 b
    proof -
      have "v_servers v2 (vs_Id z) = Some z" if "z \<in> set (servers s) - set (ys @ [y])" for z
        using that other [OF that] rest \<open>serversGone {y} v1 v2\<close> by (simp add: serversGone_def without_def)
      with that accounted_trans [OF acc that(3)] show ?thesis by auto
    qed
    have del: "triple (atW s l v1) (deleteVirtualServer y) (\<lambda>_. ?I (ys @ [y])) (\<lambda>_. acc ?R v)" if "orphanServer ?ports y"
    proof (rule triple_post [OF triple_conj [OF delete_server_step [OF a y] acc_delete_server [OF a y(1), where R = ?R]]])
      show "\<not> ?R y" using that by (simp add: needed_def)
      fix u :: unit and w :: "'s world"
      assume "(case w of (s', l', b) \<Rightarrow> s' = s \<and> l' = l \<and> (\<exists>v'. at v' b \<and> serversGone {y} v1 v')) \<and> acc ?R v1 w"
      then obtain b v2 where "w = (s, l, b)" "at v2 b" "serversGone {y} v1 v2" "accounted ?R v1 v2" by (cases w) (auto simp: at_def)
      then show "?I (ys @ [y]) w" using gone by simp
    next
      fix e and w :: "'s world"
      assume "(case w of (s', l', b) \<Rightarrow> s' = s \<and> l' = l \<and> (\<exists>v'. at v' b \<and> safe tg v1 v')) \<and> acc ?R v1 w"
      then show "acc ?R v w" by (cases w) (auto intro: accounted_trans [OF acc])
    qed
    have keep: "triple (atW s l v1) (ret (insert (vs_PoolId y) ids)) (\<lambda>_. ?I (ys @ [y])) (\<lambda>_. acc ?R v)"
      by (rule triple_ret) (use acc rest in auto)
    have orphan: "list_ex (\<lambda>p. MatchVirtualServer (NewMapping p) y) ?ports \<longleftrightarrow> \<not> orphanServer ?ports y"
      by (simp add: orphanServer_def list_ex_iff)
    show "triple (atW s1 l1 v1) (?f ids y) (\<lambda>_. ?I (ys @ [y])) (\<lambda>_. acc ?R v)"
      unfolding s1 orphan by (intro triple_if keep triple_bind [OF del] triple_ret) simp_all
  qed
  then have "triple (?I []) (foldIO ?f {} (servers s)) (\<lambda>_. ?I (servers s)) (\<lambda>_. acc ?R v)"
    by (rule triple_fold [where I = "\<lambda>ys _. ?I ys"])
  then have "triple (atW s l v) (foldIO ?f {} (servers s)) (\<lambda>_. acc ?R v) (\<lambda>_. acc ?R v)"
    by (rule triple_conseq) (use mirrors_view [OF mirror] in \<open>auto simp: at_def\<close>)
  then show ?thesis unfolding deleteOrphanVirtualServers_def by (rule triple_getState)
qed

lemma acc_orphan_pools:
  assumes a: "broker (access l) = B"
  shows "triple (atW s l v) (deleteOrphanPools ids) (\<lambda>_. acc R v) (\<lambda>_. acc R v)"
proof -
  have del: "triple (atW s l (v\<lparr>v_pools := m\<rparr>)) (deletePool x)
      (\<lambda>_. atW s l (v\<lparr>v_pools := m(pool_Id x := None)\<rparr>)) (\<lambda>_. atW s l (v\<lparr>v_pools := m\<rparr>))" for m x
    unfolding deletePool_def by (rule triple_callAccess_at, rule triple_post [OF delete_lb_pool [OF a]]) auto
  show ?thesis
    unfolding deleteOrphanPools_def
    by (rule triple_getState, rule triple_conseq [OF delete_loop [where upd = "\<lambda>m. v\<lparr>v_pools := m\<rparr>" and m = "v_pools v", OF del]])
      (auto simp: at_def intro!: accounted_same)
qed

lemma acc_orphan_monitors:
  assumes a: "broker (access l) = B"
  shows "triple (atW s l v) (deleteOrphanTCPMonitors ids) (\<lambda>_. acc R v) (\<lambda>_. acc R v)"
proof -
  have del: "triple (atW s l (v\<lparr>v_monitors := m\<rparr>)) (deleteTCPMonitor x)
      (\<lambda>_. atW s l (v\<lparr>v_monitors := m(mon_Id x := None)\<rparr>)) (\<lambda>_. atW s l (v\<lparr>v_monitors := m\<rparr>))" for m x
    unfolding deleteTCPMonitor_def by (rule triple_callAccess_at, rule triple_post [OF delete_tcp_monitor [OF a]]) auto
  have "triple (atW s l v) (foldIO (\<lambda>acc x. if ok x then ret ((\<lambda>_ _. ()) acc x)
      else bindIO (deleteTCPMonitor x) (\<lambda>_. ret acc)) () xs) (\<lambda>_. acc R v) (\<lambda>_. acc R v)" for ok xs
    by (rule triple_conseq [OF delete_loop [where upd = "\<lambda>m. v\<lparr>v_monitors := m\<rparr>" and m = "v_monitors v", OF del]])
      (auto simp: at_def intro!: accounted_same)
  then show ?thesis unfolding deleteOrphanTCPMonitors_def forIO_def bindIO_unit by (rule triple_getState)
qed

lemma acc_cleanup:
  assumes a: "broker (access l) = B" and sync: "synced tg s v"
  shows "triple (atW s l v) (bindIO deleteOrphanVirtualServers (\<lambda>ids. bindIO (deleteOrphanPools ids) deleteOrphanTCPMonitors))
    (\<lambda>_. acc (needed tg (s_Ports (service s))) v) (\<lambda>_. acc (needed tg (s_Ports (service s))) v)"
    (is "triple _ _ (\<lambda>_. acc ?R v) _")
proof -
  from sync have m: "mirrors vs_Id (\<lambda>x. checkTags (vs_Tags x) tg) (\<lambda>_. True) (servers s) (v_servers v)"
     "mirrors pool_Id (\<lambda>x. checkTags (pool_Tags x) tg) (\<lambda>_. True) (pools s) (v_pools v)" unfolding synced_def by blast+
  have "triple (atW s l v1) (bindIO (deleteOrphanPools ids) deleteOrphanTCPMonitors) (\<lambda>_. acc ?R v1) (\<lambda>_. acc ?R v1)"
    if "v_pools v1 = v_pools v" for v1 ids
    by (rule acc_bind [OF delete_orphan_pools [OF a m(2) [folded that]] acc_orphan_pools [OF a]], elim conjE)
      (simp only: acc_orphan_monitors [OF a])
  then show ?thesis
    by (intro acc_bind [OF delete_orphan_servers [OF a m(1)] acc_orphan_servers [OF a m(1)]]) (auto simp: serversGone_def)
qed

lemma acc_process:
  assumes a: "broker (access l) = B" "access_wf (access l)" and c: "classTagsOk c"
  shows "triple (atW s l v) (Process ord c) (\<lambda>_. acc (needed (T s l) (s_Ports (service s))) v)
    (\<lambda>_. acc (needed (T s l) (s_Ports (service s))) v)"
    (is "triple _ _ (\<lambda>_. acc ?R v) _")
  unfolding Process_def
proof (rule acc_bind [where X = "\<lambda>_ s' l' v'. v' = v \<and> l' = l \<and> synced (T s l) s' v \<and>
      s' = s\<lparr>servers := servers s', pools := pools s', tcpMonitors := tcpMonitors s'\<rparr>"])
  show "triple (atW s l v) findObjects (\<lambda>_. \<lambda>(s', l', b). \<exists>v'. at v' b \<and> v' = v \<and> l' = l \<and> synced (T s l) s' v \<and>
      s' = s\<lparr>servers := servers s', pools := pools s', tcpMonitors := tcpMonitors s'\<rparr>) (\<lambda>_ _. True)"
    "triple (atW s l v) findObjects (\<lambda>_. acc ?R v) (\<lambda>_. acc ?R v)"
    by (rule triple_post [OF find_objects [OF a(1)]]; auto simp: at_def)+
  fix s1 v1 and l1 :: "'s lbService"
  assume h: "v1 = v \<and> l1 = l \<and> synced (T s l) s1 v \<and> s1 = s\<lparr>servers := servers s1, pools := pools s1, tcpMonitors := tcpMonitors s1\<rparr>"
  let ?a = "adoptClass c s1"
  have s1: "clusterName s1 = clusterName s" "objectName s1 = objectName s" "service s1 = service s" by (subst h, simp)+
  obtain c' where c': "lbClass ?a = Some c'" "classTagsOk c'" using adoptClass_class [OF c, of s1] by blast
  have sync: "synced (T ?a l) ?a v" using h by (simp add: synced_def s1)
  show "triple (atW s1 l1 v1) (bindIO (putState (adoptClass c)) (\<lambda>_. bindIO getState (\<lambda>s. bindIO (forIO (processPort ord) (s_Ports (service s))) (\<lambda>_.
     bindIO deleteOrphanVirtualServers (\<lambda>ids. bindIO (deleteOrphanPools ids) deleteOrphanTCPMonitors))))) (\<lambda>_. acc ?R v1) (\<lambda>_. acc ?R v1)"
  proof (rule triple_putState_bind, rule triple_getState, rule acc_bind)
    show "triple (atW ?a l1 v1) (forIO (processPort ord) (s_Ports (service ?a))) (\<lambda>_. acc ?R v1) (\<lambda>_. acc ?R v1)"
      using acc_ports [OF a c' sync, of ord "s_Ports (service ?a)"] h by (simp add: s1)
    show "triple (atW ?a l1 v1) (forIO (processPort ord) (s_Ports (service ?a)))
      (\<lambda>_. \<lambda>(s', l', b). \<exists>v'. at v' b \<and> access l' = access l \<and> portsDone (T ?a l) (s_Ports (service ?a)) ?a v s' v') (\<lambda>_. errW ?a l v)"
      using process_ports [OF a c' sync] h by simp
    fix s2 v2 and l2 :: "'s lbService"
    assume "access l2 = access l \<and> portsDone (T ?a l) (s_Ports (service ?a)) ?a v s2 v2"
    then have "broker (access l2) = B" "synced (T s l) s2 v2" "service s2 = service s"
      using a(1) by (simp_all add: portsDone_def sameJob_def s1)
    then show "triple (atW s2 l2 v2) (bindIO deleteOrphanVirtualServers (\<lambda>ids. bindIO (deleteOrphanPools ids) deleteOrphanTCPMonitors))
        (\<lambda>_. acc ?R v2) (\<lambda>_. acc ?R v2)" using acc_cleanup [of l2 "T s l" s2 v2] by simp
  qed
qed

lemma acc_finish:
  assumes a: "broker (access l) = B" "access_wf (access l)" and c: "classTagsOk c" and s: "ipAddress s = ''''"
  shows "triple (atW s l v) (bindIO (tryIO (Process ord c)) finishBoth) (\<lambda>_. acc (needed (T s l) (s_Ports (service s))) v) (\<lambda>_ _. False)"
    (is "triple _ _ (\<lambda>_. acc ?R v) _")
proof -
  let ?mid = "\<lambda>(s1, l1, b). \<exists>v1. at v1 b \<and> access l1 = access l \<and> (ipAddress s1 \<noteq> '''' \<longrightarrow> lbClass s1 \<noteq> None) \<and> accounted ?R v v1"
  have process: "triple (atW s l v) (tryIO (Process ord c)) (\<lambda>_. ?mid) (\<lambda>_ _. False)"
    by (rule triple_try, rule triple_post [OF triple_conj [OF process [OF a c s] acc_process [OF a c]]]) (auto simp: at_def)
  have "triple (atW s1 l1 v1) (tryIO Finish) (\<lambda>_. acc ?R v) (\<lambda>_ _. False)"
    if l1: "access l1 = access l" "ipAddress s1 \<noteq> '''' \<longrightarrow> lbClass s1 \<noteq> None" "accounted ?R v v1" for s1 v1 and l1 :: "'s lbService"
    by (rule triple_try, rule triple_post [OF finish_step])
      (use l1 a(1) in \<open>auto simp: at_def split: if_splits intro: accounted_trans [OF l1(3) accounted_released]\<close>)
  then have "triple ?mid (tryIO Finish) (\<lambda>_. acc ?R v) (\<lambda>_ _. False)" by (intro triple_world) auto
  then show ?thesis by (intro triple_bind [OF process]) (erule triple_bind, auto intro: triple_ret)
qed

lemma acc_ensure:
  assumes p: "provider_ok B p" and free: "keyLock p (serviceKey svc) \<noteq> Some True"
  shows "triple (atP p v) (EnsureLoadBalancer ord cl svc ns)
    (\<lambda>_. \<lambda>(p', b). accounted (needed (serviceTags p cl svc) (s_Ports svc)) v (view b)) (\<lambda>_ _. False)"
    (is "triple _ _ ?Q _")
proof -
  let ?p = "p\<lparr>keyLock := (keyLock p)(serviceKey svc \<mapsto> True)\<rparr>"
  let ?Q' = "\<lambda>r. \<lambda>(p', b). keyLock p' (serviceKey svc) = Some True \<and> ?Q r (p'\<lparr>keyLock := (keyLock p')(serviceKey svc \<mapsto> False)\<rparr>, b)"
  let ?E' = "\<lambda>e. \<lambda>(p', b). keyLock p' (serviceKey svc) = Some True \<and> False"
  have ok: "broker (access (lbService p)) = B" "access_wf (access (lbService p))" using p by (auto simp: provider_ok_def)
  have "triple (atP ?p v) (case classFromService (classes p) svc of
      Inl e \<Rightarrow> ret (None, Some e)
    | Inr c \<Rightarrow> withState (newState cl svc ns) (bindIO (tryIO (Process ord c)) finishBoth)) ?Q' ?E'"
  proof (cases "classFromService (classes p) svc")
    case (Inl e)
    then show ?thesis by (auto intro!: triple_ret simp: at_def)
  next
    case (Inr c)
    have "triple (atP ?p v) (withState (newState cl svc ns) (bindIO (tryIO (Process ord c)) finishBoth)) ?Q' ?E'"
      by (rule triple_withState, rule triple_post [OF acc_finish]) (use ok classFromService_ok [OF p Inr] in auto)
    with Inr show ?thesis by simp
  qed
  then have "triple (atP ?p v) (bindIO (getsIO (\<lambda>(p, _). classFromService (classes p) svc)) (\<lambda>found. case found of
      Inl e \<Rightarrow> ret (None, Some e)
    | Inr c \<Rightarrow> withState (newState cl svc ns) (bindIO (tryIO (Process ord c)) finishBoth))) ?Q' ?E'"
    by (rule triple_gets_bind [rotated]) auto
  from triple_locked [OF free this] show ?thesis unfolding EnsureLoadBalancer_def .
qed

end

section \<open>What a failure leaves behind\<close>

text \<open>
  C11. \<open>createVirtualServer\<close> is all or nothing on a backend where an undo works, whatever other
  calls fail. On success there is exactly one virtual server more: it is for the mapping, has
  the pool and the address of the state, the address was allocated for it if the state had none,
  and it is attached to a load balancer service. On an error the virtual servers, pools,
  monitors and allocated addresses are as before. It does not panic.
\<close>

theorem createVirtualServer_all_or_nothing:
  assumes backend: "reliable_backend B invar view mt" and a: "broker (access l) = B" "access_wf (access l)"
    and c: "lbClass s = Some c" "Scope ` set (class_Tags c) \<inter> {ScopeOwner, ScopeCluster, ScopeService} = {}" and b: "invar b"
  shows "(\<exists>x s' l' b'. createVirtualServer m pid (s, l, b) = (Ok x, (s', l', b')) \<and> invar b' \<and> createdWith c x (view b) (view b') \<and>
      MatchVirtualServer m x \<and> vs_PoolId x = pid \<and> vs_IpAddress x = ipAddress s' \<and> attached (view b') (vs_Id x) \<noteq> {}) \<or>
    (\<exists>e s' l' b'. createVirtualServer m pid (s, l, b) = (Err e, (s', l', b')) \<and> invar b' \<and> undone (view b) (view b'))"
proof -
  note base = reliable_backend.axioms(1) [OF backend]
  note at = nsxt_backend.at_def [OF base]
  have start: "(\<lambda>(s', l', b'). s' = s \<and> l' = l \<and> nsxt_backend.at invar view (view b) b') (s, l, b)" using b by (simp add: at)
  from triple_conj [OF reliable_backend.create_sure [OF backend a(1) c(1), where m = m and pid = pid] nsxt_backend.create_server_step [OF base a c]] start
  show ?thesis by (cases rule: triple_elim) (auto simp: at serverAdded_def)
qed

text \<open>
  A run that fails at the last call: the load balancer service of the kept id is gone, so the new
  virtual server cannot be attached.
\<close>

definition example_state :: state where
  "example_state = (newState ''c'' example_service example_nodes)\<lparr>lbClass := Some example_class\<rparr>"

lemma example_busy_access: "access (lbService example_busy) = example_handler"
  by (simp add: example_busy_def example_provider_def newLbService_def)

lemma example_left_inv: "inmem_inv example_left"
proof -
  have start: "(\<lambda>(p', b'). p' = example_busy \<and> im.at (inmem_view example_full) b') (example_busy, example_full)"
    using example_full_inv by (simp add: im.at_def)
  from triple_OkD [OF im.ensure_load_balancer_deleted [OF example_ok(2) example_free(2)] start example_deleted]
  show ?thesis by (auto simp: im.at_def)
qed

lemma example_create_fails:
  "\<exists>e s l b. createVirtualServer (NewMapping \<lparr>sp_Port = 80, sp_NodePort = 30080, sp_Protocol = ''TCP''\<rparr>) ''pool-9'' (example_state, lbService example_busy, example_left) = (Err e, (s, l, b))"
  by (simp add: example_state_def example_left_def example_full_def example_busy_def newMember_def example_store_def run_example newState_def cong: run_cong)

theorem createVirtualServer_all_or_nothing_witness:
  "\<exists>e s l b. createVirtualServer (NewMapping \<lparr>sp_Port = 80, sp_NodePort = 30080, sp_Protocol = ''TCP''\<rparr>) ''pool-9''
       (example_state, lbService example_busy, example_left) = (Err e, (s, l, b)) \<and> undone (inmem_view example_left) (inmem_view b)"
proof -
  let ?run = "createVirtualServer (NewMapping \<lparr>sp_Port = 80, sp_NodePort = 30080, sp_Protocol = ''TCP''\<rparr>) ''pool-9''
       (example_state, lbService example_busy, example_left)"
  have ok: "broker (access (lbService example_busy)) = inmemoryNsxtBroker (\<lambda>_ ks. ks)" "access_wf (access (lbService example_busy))"
    using example_ok(2) by (simp_all add: provider_ok_def)
  have c: "lbClass example_state = Some example_class" by (simp add: example_state_def)
  obtain e s l b where run: "?run = (Err e, (s, l, b))" using example_create_fails by blast
  from createVirtualServer_all_or_nothing [OF imr.reliable_backend_axioms ok c class_tags_scopes example_left_inv,
      of "NewMapping \<lparr>sp_Port = 80, sp_NodePort = 30080, sp_Protocol = ''TCP''\<rparr>" "''pool-9''"]
  show ?thesis unfolding run by simp
qed

text \<open>
  C7. \<open>EnsureLoadBalancer\<close> loses no address on a backend where an undo works, whether it
  succeeds or fails and wherever it fails: an address that is allocated afterwards was allocated
  before, or a virtual server of the service for one of its ports has it.
\<close>

theorem EnsureLoadBalancer_leaks_no_address:
  assumes backend: "reliable_backend B invar view mt" and p: "provider_ok B p" "keyLock p (serviceKey svc) \<noteq> Some True" and b: "invar b"
    and run: "EnsureLoadBalancer ord cl svc ns (p, b) = (Ok (status, err), (p', b'))"
    and ip: "v_allocs (view b') pool = Some as" "ip \<in> as"
  shows "(\<exists>as0. v_allocs (view b) pool = Some as0 \<and> ip \<in> as0) \<or>
    (\<exists>x \<in> ownServers (serviceTags p cl svc) (view b'). vs_IpAddress x = ip \<and> (\<exists>port \<in> set (s_Ports svc). MatchVirtualServer (NewMapping port) x))"
proof -
  have start: "(\<lambda>(p', b'). p' = p \<and> nsxt_backend.at invar view (view b) b') (p, b)"
    using b by (simp add: nsxt_backend.at_def [OF reliable_backend.axioms(1) [OF backend]])
  from triple_OkD [OF reliable_backend.acc_ensure [OF backend p] start run]
  have "accounted (needed (serviceTags p cl svc) (s_Ports svc)) (view b) (view b')" by simp
  with ip show ?thesis unfolding accounted_def needed_def orphanServer_def ownSet_def by blast
qed

theorem EnsureLoadBalancer_leaks_no_address_witness:
  "\<exists>status e p b. EnsureLoadBalancer (\<lambda>_ ks. ks) ''c'' example_service example_nodes (example_busy, example_left) = (Ok (status, Some e), (p, b)) \<and>
     (\<forall>as ip. v_allocs (inmem_view b) ''ip-pool-0'' = Some as \<longrightarrow> ip \<notin> as)"
proof -
  have "\<exists>status e p b. EnsureLoadBalancer (\<lambda>_ ks. ks) ''c'' example_service example_nodes (example_busy, example_left) =
      (Ok (status, Some e), (p, b)) \<and> lbVirtualServers b = []"
    by (simp add: example_left_def example_full_def example_busy_def newMember_def example_store_def run_example cong: run_cong)
  then obtain status e p b where run: "EnsureLoadBalancer (\<lambda>_ ks. ks) ''c'' example_service example_nodes (example_busy, example_left) =
      (Ok (status, Some e), (p, b))" and none: "lbVirtualServers b = []" by blast
  have empty: "v_allocs (inmem_view example_left) ''ip-pool-0'' = Some {}" "ownServers tg (inmem_view b) = {}" for tg
    by (simp_all add: inmem_view_def none ownSet_def index_by_def example_left_def example_store_def run_example)
  have "ip \<notin> as" if "v_allocs (inmem_view b) ''ip-pool-0'' = Some as" for as ip
    using EnsureLoadBalancer_leaks_no_address [OF imr.reliable_backend_axioms example_ok(2) example_free(2) example_left_inv run that, of ip]
    by (auto simp: empty)
  with run show ?thesis by blast
qed

end
