(* ===== verification/Success.thy ===== *)
theory Success
  imports Rollback
begin

text \<open>
  Total correctness on a backend whose calls work (\<open>working_backend\<close>): the provider does not
  fail by itself. What a new virtual server needs is written down (\<open>serviceReady\<close>,
  \<open>ready\<close>, \<open>provided\<close>), every operation of \<open>state.go\<close> keeps it, and so ensure, update and
  delete succeed.
\<close>

section \<open>What a request needs\<close>

text \<open>
  The load balancer service can take a virtual server: no service is known and one may be
  created, or the known one exists and is attached to the router of the configuration, if that
  names one.
\<close>

definition serviceReady :: "'s lbService \<Rightarrow> nsxt_view \<Rightarrow> bool" where
  "serviceReady l v \<longleftrightarrow> (if lbServiceID l = '''' then managed l
     else \<exists>svc. v_services v (lbServiceID l) = Some svc \<and> (routerID (access l) = '''' \<or> attachedTo svc (routerID (access l))))"

lemma serviceReady_services: "v_services v' = v_services v \<Longrightarrow> serviceReady l v' = serviceReady l v"
  by (simp add: serviceReady_def)

lemma serviceReady_add_to:
  "serviceReady l v \<Longrightarrow> v_services v (svc_Id svc) = Some svc \<Longrightarrow> serviceReady l (add_to v sid svc)"
  by (auto simp: serviceReady_def add_to_def attachedTo_def)

lemma serviceReady_new:
  "attachedTo svc (routerID (access l)) \<Longrightarrow> svc_Id svc \<noteq> '''' \<Longrightarrow> serviceReady (l\<lparr>lbServiceID := svc_Id svc\<rparr>) (with_service v svc)"
  by (simp add: serviceReady_def with_service_def)

text \<open>What has to be there for a new virtual server: a load balancer service, and an address or a pool with room.\<close>

definition ready :: "(nsxt_view \<Rightarrow> string \<Rightarrow> bool) \<Rightarrow> state \<Rightarrow> 's lbService \<Rightarrow> nsxt_view \<Rightarrow> bool" where
  "ready room s l v \<longleftrightarrow> serviceReady l v \<and> (ipAddress s \<noteq> '''' \<or> (\<exists>c. lbClass s = Some c \<and> room v (ipPoolID c)))"

text \<open>
  The same for a service, before its objects are read: a load balancer service, and own virtual
  servers with an address or, without own virtual servers, a pool of the class with room.
\<close>

definition provided ::
  "(nsxt_view \<Rightarrow> string \<Rightarrow> bool) \<Rightarrow> tag list \<Rightarrow> loadBalancerClass \<Rightarrow> 's lbService \<Rightarrow> nsxt_view \<Rightarrow> bool" where
  "provided room tg c l v \<longleftrightarrow> serviceReady l v \<and>
     (if ownServers tg v = {} then room v (ipPoolID c) else \<forall>x \<in> ownServers tg v. vs_IpAddress x \<noteq> '''')"

section \<open>The load balancer service\<close>

context working_backend
begin

lemma triple_viewL:
  assumes "\<And>l v. P l v \<Longrightarrow> triple (atL l v) f Q E"
  shows "triple (\<lambda>(l, b). invar b \<and> P l (view b)) f Q E"
  using assms by (fastforce simp: triple_def at_def)

lemma find_service_ready:
  assumes a: "broker (access l) = B" and r: "serviceReady l v"
  shows "triple (at v) (FindLoadBalancerService (access l) cl (lbServiceID l))
    (\<lambda>r s. at v s \<and> (case r of None \<Rightarrow> managed l | Some svc \<Rightarrow> v_services v (svc_Id svc) = Some svc)) (\<lambda>_ _. False)"
proof (cases "lbServiceID l = ''''")
  case True
  with r have m: "managed l" by (simp add: serviceReady_def)
  show ?thesis
    unfolding FindLoadBalancerService_def using True
    by (simp, intro triple_post [OF triple_sure [OF find_lb_service [OF a] find_lb_service_works [OF a]]])
      (auto simp: m split: option.split)
next
  case False
  with r obtain svc where svc: "v_services v (lbServiceID l) = Some svc" "routerID (access l) = '''' \<or> attachedTo svc (routerID (access l))"
    by (auto simp: serviceReady_def)
  then have "v_services v (lbServiceID l) \<noteq> None" by simp
  note read = triple_sure [OF at_read_service at_read_service_works [OF this]]
  have "triple (\<lambda>s. at v s \<and> v_services v (lbServiceID l) = Some x \<and> svc_Id x = lbServiceID l)
      (if routerID (access l) \<noteq> '''' \<and> \<not> attachedTo x (routerID (access l)) then throw (e x) else ret (Some x))
      (\<lambda>r s. at v s \<and> (case r of None \<Rightarrow> managed l | Some svc \<Rightarrow> v_services v (svc_Id svc) = Some svc)) (\<lambda>_ _. False)" for x e
    using svc by (intro triple_if triple_ret triple_throw) auto
  with False show ?thesis
    unfolding FindLoadBalancerService_def a by (simp, intro triple_bind [OF read])
qed

lemma add_ready:
  assumes a: "broker (access l) = B" and r: "serviceReady l v"
  shows "triple (atL l v) (addVirtualServerToLoadBalancerService cl sid)
    (\<lambda>_. \<lambda>(l', b). invar b \<and> serviceReady l' (view b)) (\<lambda>_ _. False)"
    (is "triple _ _ ?Q ?E")
proof -
  let ?has = "\<lambda>svc. \<lambda>(l', b). invar b \<and> (access l' = access l \<and> serviceReady l' (view b) \<and> v_services (view b) (svc_Id svc) = Some svc)"
  let ?upd = "\<lambda>svc. viaAccess (\<lambda>a. UpdateLoadBalancerService a (svc\<lparr>svc_VirtualServerIds := svc_VirtualServerIds svc @ [sid]\<rparr>))"
  let ?create = "bindIO (viaAccess (\<lambda>a. CreateLoadBalancerService a cl)) (\<lambda>svc.
                 bindIO (modifyIO (\<lambda>(s, b). (s\<lparr>lbServiceID := svc_Id svc\<rparr>, b))) (\<lambda>_. ret svc))"
  have find: "triple (atL l v) (viaAccess (\<lambda>a. FindLoadBalancerService a cl (lbServiceID l)))
      (\<lambda>r w. (case r of None \<Rightarrow> managed l | Some svc \<Rightarrow> v_services v (svc_Id svc) = Some svc) \<and> atL l v w) ?E"
    by (rule triple_viaAccess_at, rule triple_post [OF find_service_ready [OF a r]]) auto
  have new: "triple (atL l v) (viaAccess (\<lambda>a. CreateLoadBalancerService a cl))
      (\<lambda>svc w. (attachedTo svc (routerID (access l)) \<and> svc_Id svc \<noteq> '''') \<and> atL l (with_service v svc) w) ?E"
    by (rule triple_viaAccess_at, rule triple_post [OF triple_sure [OF create_lb_service [OF a] create_works(4) [OF a]]])
      (auto simp: newLbServiceObject_def attachedTo_def with_service_def)
  have create: "triple (atL l v) ?create ?has ?E"
  proof (rule triple_bind [OF new], rule triple_pure_pre)
    fix svc assume "attachedTo svc (routerID (access l)) \<and> svc_Id svc \<noteq> ''''"
    then have "serviceReady (l\<lparr>lbServiceID := svc_Id svc\<rparr>) (with_service v svc)" by (simp add: serviceReady_new)
    then show "triple (atL l (with_service v svc)) (bindIO (modifyIO (\<lambda>(s, b). (s\<lparr>lbServiceID := svc_Id svc\<rparr>, b))) (\<lambda>_. ret svc)) ?has ?E"
      by (intro tripleI) (auto simp: io_defs at_def with_service_def)
  qed
  have choose: "triple (\<lambda>w. (case r of None \<Rightarrow> managed l | Some svc \<Rightarrow> v_services v (svc_Id svc) = Some svc) \<and> atL l v w)
      (case r of Some svc \<Rightarrow> ret svc | None \<Rightarrow> if managed l then ?create
         else throw (Errorf ''no more virtual servers for load balancer service'' [])) ?has ?E" for r
    using create assms(2) by (intro triple_pure_pre triple_option triple_if triple_ret) (auto simp: at_def)
  have update: "triple (?has svc) (?upd svc) ?Q ?E" for svc
  proof (rule triple_viewL, elim conjE)
    fix l' v' assume h: "access l' = access l" "serviceReady l' v'" "v_services v' (svc_Id svc) = Some svc"
    let ?svc = "svc\<lparr>svc_VirtualServerIds := svc_VirtualServerIds svc @ [sid]\<rparr>"
    have a': "broker (access l') = B" "v_services v' (svc_Id ?svc) \<noteq> None" using a h by simp_all
    from serviceReady_add_to [OF h(2,3)] show "triple (atL l' v') (?upd svc) ?Q ?E"
      by (intro triple_viaAccess_at triple_post [OF triple_sure [OF update_lb_service [OF a'(1)] update_works(4) [OF a']]])
        (auto simp: at_def add_to_def)
  qed
  have "triple (atL l v) (bindIO (viaAccess (\<lambda>a. FindLoadBalancerService a cl (lbServiceID l))) (\<lambda>found.
      bindIO (case found of Some svc \<Rightarrow> ret svc | None \<Rightarrow> if managed l then ?create
         else throw (Errorf ''no more virtual servers for load balancer service'' [])) ?upd)) ?Q ?E"
    by (rule triple_bind [OF find], rule triple_bind [OF choose], rule update)
  then show ?thesis
    unfolding addVirtualServerToLoadBalancerService_def
    by (intro triple_gets_bind [where c = "(lbServiceID l, managed l)"]) auto
qed

lemma remove_works:
  assumes a: "broker (access l) = B"
  shows "sure (atL l v) (removeVirtualServerFromLoadBalancerService cl sid)"
proof -
  have find: "triple (atL l v) (viaAccess (\<lambda>a. FindLoadBalancerServiceForVirtualServer a cl sid))
      (\<lambda>r w. (case r of None \<Rightarrow> True | Some svc \<Rightarrow> v_services v (svc_Id svc) = Some svc) \<and> atL l v w) (\<lambda>_ _. False)"
    unfolding FindLoadBalancerServiceForVirtualServer_def
    by (rule triple_viaAccess_at, rule triple_post [OF triple_sure [OF find_lb_service [OF a] find_lb_service_works [OF a]]])
      (auto split: option.splits)
  have upd: "sure (atL l v) (viaAccess (\<lambda>a. UpdateLoadBalancerService a (svc\<lparr>svc_VirtualServerIds := ids\<rparr>)))"
    if "v_services v (svc_Id svc) = Some svc" for svc ids
    using that by (intro triple_viaAccess_at triple_post [OF update_works(4) [OF a]]) auto
  have del: "sure (atL l v) (viaAccess (\<lambda>a. DeleteLoadBalancerService a k))" for k
    by (intro triple_viaAccess_at triple_post [OF delete_works(4) [OF a]]) auto
  show ?thesis
    unfolding removeVirtualServerFromLoadBalancerService_def
    by (rule triple_gets_bind [where c = "managed l"], auto)
      (intro triple_bind [OF find] triple_pure_pre triple_option sure_ret, auto intro!: triple_if upd del simp: Let_def)
qed

text \<open>The calls of the access layer from the state object.\<close>

lemma sure_callAccess: "sure (at v) (f (access l)) \<Longrightarrow> sure (atW s l v) (callAccess f)"
  by (rule triple_callAccess_at)

lemma calls_work:
  assumes a: "broker (access l) = B"
  shows "sure (atW s l v) (callAccess (\<lambda>a. FindVirtualServers a cl n))" "sure (atW s l v) (callAccess (\<lambda>a. FindPools a cl n))"
    "sure (atW s l v) (callAccess (\<lambda>a. FindTCPMonitors a cl n))"
    "sure (atW s l v) (callAccess (\<lambda>a. CreateTCPMonitor a cl n m))" "sure (atW s l v) (callAccess (\<lambda>a. CreatePool a cl n m members ids))"
    "sure (atW s l v) (callAccess (\<lambda>a. CreateVirtualServer a cl n ts ip m pid))"
    "sure (atW s l v) (callAccess (\<lambda>a. DeleteTCPMonitor a k))" "sure (atW s l v) (callAccess (\<lambda>a. DeletePool a k))"
    "sure (atW s l v) (callAccess (\<lambda>a. DeleteVirtualServer a k))"
  by (rule sure_callAccess, rule find_virtual_servers_works find_pools_works find_tcp_monitors_works create_works delete_works, rule a)+

lemma updates_work:
  assumes a: "broker (access l) = B"
  shows "v_monitors v (mon_Id x) \<noteq> None \<Longrightarrow> sure (atW s l v) (callAccess (\<lambda>a. UpdateTCPMonitor a x))"
    "v_pools v (pool_Id y) \<noteq> None \<Longrightarrow> sure (atW s l v) (callAccess (\<lambda>a. UpdatePool a y))"
    "v_servers v (vs_Id z) \<noteq> None \<Longrightarrow> sure (atW s l v) (callAccess (\<lambda>a. UpdateVirtualServer a z))"
  by (rule sure_callAccess, erule update_works [OF a])+

lemma sure_getState: "sure (atW s l v) (g s) \<Longrightarrow> sure (atW s l v) (bindIO getState g)"
  by (rule triple_getState)

lemma sure_putState: "sure P (putState f)"
  unfolding putState_def by (rule triple_modify) simp

text \<open>The operations for a port keep \<open>ready\<close>.\<close>

lemma ready_cong:
  assumes "v_services v' = v_services v" "v_allocs v' = v_allocs v" "ipAddress s' = ipAddress s" "lbClass s' = lbClass s"
  shows "ready room s' l v' = ready room s l v"
  using serviceReady_services [OF assms(1), of l] room_allocs [OF assms(2)] assms(3,4) by (simp add: ready_def)

abbreviation "readyW \<equiv> \<lambda>(s, l, b). invar b \<and> ready room s l (view b)"

text \<open>A lookup in a list of the state, with the two ways it ends.\<close>

lemma sure_upsert:
  assumes "\<And>x. x \<in> set xs \<Longrightarrow> sure (atW s l v) (upd x)" "sure (atW s l v) create"
  shows "sure (atW s l v) (case findIndex p xs of Some i \<Rightarrow> bindIO (upd (xs ! i)) (\<lambda>x. bindIO (putState (put i x)) (\<lambda>_. ret (res x))) | None \<Rightarrow> create)"
proof (rule triple_option)
  fix i assume "findIndex p xs = Some i"
  then have "xs ! i \<in> set xs" by (auto dest: findIndex_Some)
  then show "sure (atW s l v) (bindIO (upd (xs ! i)) (\<lambda>x. bindIO (putState (put i x)) (\<lambda>_. ret (res x))))"
    by (intro triple_bind [OF assms(1)] triple_bind [OF sure_putState] sure_ret)
qed (rule assms(2))

lemma ready_monitor:
  assumes a: "broker (access l) = B" "access_wf (access l)" and sync: "synced (T s l) s v" and r: "ready room s l v"
  shows "triple (atW s l v) (getTCPMonitor m) (\<lambda>_. readyW) (\<lambda>_ _. False)"
proof -
  have mirror: "mirrors mon_Id (ownMonitor s l) tcpTyped (tcpMonitors s) (v_monitors v)" using sync by (simp add: synced_def)
  have upd: "sure (atW s l v) (updateTCPMonitor x m)" if "x \<in> set (tcpMonitors s)" for x
    unfolding updateTCPMonitor_def Let_def using mirrors_view [OF mirror that]
    by (intro triple_if sure_ret triple_bind [OF updates_work(1) [OF a(1)]]) simp
  have create: "sure (atW s l v) (createTCPMonitor m)"
    unfolding createTCPMonitor_def
    by (intro sure_getState triple_bind [OF calls_work(4) [OF a(1)]] triple_bind [OF sure_putState] sure_ret)
  have "sure (atW s l v) (getTCPMonitor m)"
    unfolding getTCPMonitor_def by (intro triple_if sure_getState sure_upsert [OF upd] triple_bind [OF create] sure_ret)
  from triple_sure [OF process_monitor [OF a sync] this] show ?thesis
  proof (rule triple_post)
    fix x and w :: "'s world"
    assume "case w of (s', l', b) \<Rightarrow> \<exists>v'. at v' b \<and> l' = l \<and> afterMonitor (T s l) m s v x s' v'"
    then obtain s' b where w: "w = (s', l, b)" "invar b" "afterMonitor (T s l) m s v x s' (view b)" by (cases w) (auto simp: at_def)
    note f = afterMonitor_fields [OF w(3)]
    from r show "readyW w" using ready_cong [of "view b" v s' s l] f by (simp add: w(1,2) sameJob_def)
  qed
qed

lemma members_read: "triple (atW s l v) (updatedMembers ord ms) (\<lambda>_. atW s l v) (\<lambda>_ _. False)"
  unfolding updatedMembers_def by (rule triple_gets)

lemma triple_prod:
  assumes "\<And>x y. triple P (g x y) Q E"
  shows "triple P (case r of (x, y) \<Rightarrow> g x y) Q E"
  using assms by (cases r) simp

lemma update_pool_works:
  assumes "broker (access l) = B" "v_pools v (pool_Id x) \<noteq> None"
  shows "sure (atW s l v) (updatePool ord x m ids)"
  unfolding updatePool_def Let_def using assms(2)
  by (intro triple_bind [OF members_read] triple_prod triple_if sure_ret triple_bind [OF updates_work(2) [OF assms(1)]]) simp

lemma ready_pool:
  assumes a: "broker (access l) = B" "access_wf (access l)" and r: "ready room s l v"
    and mirror: "mirrors pool_Id (ownPool s l) (\<lambda>_. True) (pools s) (v_pools v)"
  shows "triple (atW s l v) (getPool ord m mon) (\<lambda>_. readyW) (\<lambda>_ _. False)"
proof -
  have upd: "sure (atW s l v) (updatePool ord x m ids)" if "x \<in> set (pools s)" for x ids
    using mirrors_view [OF mirror that] by (intro update_pool_works [OF a(1)]) simp
  have "sure (atW s l v) (createPool ord m ids)" for ids
    unfolding createPool_def
    by (intro triple_bind [OF members_read] triple_prod sure_getState triple_bind [OF calls_work(5) [OF a(1)]]
        triple_bind [OF sure_putState] sure_ret)
  with upd have "sure (atW s l v) (getPool ord m mon)"
    unfolding getPool_def Let_def by (intro sure_getState sure_upsert [where res = "\<lambda>x. x"])
  from triple_sure [OF get_pool [OF a mirror] this] show ?thesis
  proof (rule triple_post)
    fix x and w :: "'s world"
    assume "case w of (s', l', b) \<Rightarrow> l' = l \<and> s' = s\<lparr>pools := pools s'\<rparr> \<and>
       poolStep s l m (case mon of None \<Rightarrow> [] | Some y \<Rightarrow> [mon_Id y]) x (pools s') v \<and>
       at (v\<lparr>v_pools := (v_pools v)(pool_Id x \<mapsto> x)\<rparr>) b"
    then obtain ps b where w: "w = (s\<lparr>pools := ps\<rparr>, l, b)" "invar b" "view b = v\<lparr>v_pools := (v_pools v)(pool_Id x \<mapsto> x)\<rparr>"
      by (cases w) (auto simp: at_def)
    from r show "readyW w" using ready_cong [of "view b" v "s\<lparr>pools := ps\<rparr>" s l] by (simp add: w)
  qed
qed

lemma allocate_ready:
  assumes a: "broker (access l) = B" and c: "lbClass s = Some c" and r: "ready room s l v"
  shows "triple (atW s l v) allocateResources
    (\<lambda>_. \<lambda>(s', l', b). invar b \<and> (l' = l \<and> lbClass s' = Some c \<and> ipAddress s' \<noteq> '''' \<and> serviceReady l (view b))) (\<lambda>_ _. False)"
proof -
  have "sure (atW s l v) (callAccess (\<lambda>a. AllocateExternalIPAddress a (ipPoolID c)))" if "ipAddress s = ''''"
    using r c that by (intro sure_callAccess allocate_ip_works a) (simp add: ready_def)
  then have "sure (atW s l v) allocateResources"
    unfolding allocateResources_def
    by (intro sure_getState triple_if triple_classOf [OF c] sure_ret) (auto intro!: triple_bind sure_putState sure_ret)
  from triple_sure [OF allocate_step [OF a c] this] show ?thesis
  proof (rule triple_post)
    fix x and w :: "'s world"
    assume "case w of (s', l', b) \<Rightarrow> l' = l \<and> s' = s\<lparr>ipAddress := ipAddress s'\<rparr> \<and> ipAddress s' \<noteq> '''' \<and>
       (ipAddress s \<noteq> '''' \<longrightarrow> ipAddress s' = ipAddress s) \<and>
       (\<exists>al. allocation c x (ipAddress s') v (v\<lparr>v_allocs := al\<rparr>) \<and> at (v\<lparr>v_allocs := al\<rparr>) b)"
    then obtain s' b al where w: "w = (s', l, b)" "ipAddress s' \<noteq> ''''" "at (v\<lparr>v_allocs := al\<rparr>) b"
      and s': "s' = s\<lparr>ipAddress := ipAddress s'\<rparr>" by (cases w) blast
    have "lbClass s' = Some c" by (subst s') (simp add: c)
    with r w show "case w of (s', l', b) \<Rightarrow> invar b \<and> (l' = l \<and> lbClass s' = Some c \<and> ipAddress s' \<noteq> '''' \<and> serviceReady l (view b))"
      by (simp add: at_def ready_def serviceReady_def)
  qed
qed

text \<open>A new virtual server: no call of \<open>createVirtualServer\<close> fails, so the address and the service are there for the next one.\<close>

lemma create_ready:
  assumes a: "broker (access l) = B" and c: "lbClass s = Some c" and r: "ready room s l v"
  shows "triple (atW s l v) (createVirtualServer m pid) (\<lambda>_. readyW) (\<lambda>_ _. False)"
proof -
  let ?mid = "\<lambda>(s', l', b). invar b \<and> (l' = l \<and> lbClass s' = Some c \<and> ipAddress s' \<noteq> '''' \<and> serviceReady l (view b))"
  let ?create = "\<lambda>s1. tryIO (callAccess (\<lambda>a. CreateVirtualServer a (clusterName s1) (objectName s1) (class_Tags c) (ipAddress s1) m pid))"
  have "triple (atW s1 l v1) (bindIO getState (\<lambda>s. bindIO classOf (\<lambda>c. bindIO (tryIO (callAccess (\<lambda>a.
      CreateVirtualServer a (clusterName s) (objectName s) (class_Tags c) (ipAddress s) m pid))) (afterCreate s allocated))))
      (\<lambda>_. readyW) (\<lambda>_ _. False)"
    if s1: "lbClass s1 = Some c" "ipAddress s1 \<noteq> ''''" "serviceReady l v1" for s1 v1 allocated
  proof -
    let ?new = "\<lambda>(s', l', b). invar b \<and> (s' = s1 \<and> l' = l \<and> v_services (view b) = v_services v1)"
    have create: "triple (atW s1 l v1) (?create s1)
        (\<lambda>r w. (\<exists>x. r = Inr x) \<and> ?new w) (\<lambda>_ _. False)"
      by (rule triple_try, rule triple_callAccess_at,
          rule triple_post [OF triple_sure [OF create_virtual_server [OF a] create_works(3) [OF a]]]) (auto simp: at_def)
    have attach: "triple (atW s1 l v2) (afterCreate s1 allocated (Inr x)) (\<lambda>_. readyW) (\<lambda>_ _. False)"
      if "v_services v2 = v_services v1" for x v2
    proof -
      let ?s = "s1\<lparr>servers := servers s1 @ [x]\<rparr>"
      have "serviceReady l v2" using s1(3) that by (simp add: serviceReady_def)
      then have "triple (atW ?s l v2) (tryIO (onSnd (addVirtualServerToLoadBalancerService (clusterName s1) (vs_Id x))))
          (\<lambda>r w. (\<exists>u. r = Inr u) \<and> readyW w) (\<lambda>_ _. False)"
        using s1(2) by (intro triple_try triple_onSnd_at triple_post [OF add_ready [OF a]]) (auto simp: ready_def)
      then show ?thesis
        unfolding sum.case
        by (intro triple_putState_bind, elim triple_bind) (auto intro!: triple_pure_pre triple_ret)
    qed
    then have "triple ?new (afterCreate s1 allocated (Inr x)) (\<lambda>_. readyW) (\<lambda>_ _. False)" for x
      by (intro triple_viewW) auto
    then have "triple (\<lambda>w. (\<exists>x. r = Inr x) \<and> ?new w) (afterCreate s1 allocated r) (\<lambda>_. readyW) (\<lambda>_ _. False)" for r
      by (intro triple_pure_pre) auto
    then show ?thesis by (intro triple_getState triple_classOf [OF s1(1)] triple_bind [OF create])
  qed
  then have "triple ?mid (bindIO getState (\<lambda>s. bindIO classOf (\<lambda>c. bindIO (tryIO (callAccess (\<lambda>a.
      CreateVirtualServer a (clusterName s) (objectName s) (class_Tags c) (ipAddress s) m pid))) (afterCreate s allocated))))
      (\<lambda>_. readyW) (\<lambda>_ _. False)" for allocated
    by (intro triple_viewW) auto
  then show ?thesis
    unfolding createVirtualServer_def by (rule triple_bind [OF allocate_ready [OF a c r]])
qed

lemma ready_server:
  assumes a: "broker (access l) = B" and c: "lbClass s = Some c" and r: "ready room s l v"
    and mirror: "mirrors vs_Id (ownServer s l) sel (servers s) (v_servers v)"
  shows "triple (atW s l v) (getVirtualServer m pid) (\<lambda>_. readyW) (\<lambda>_ _. False)"
proof -
  have upd: "triple (atW s l v) (bindIO (updateVirtualServer x m pid) (\<lambda>x. bindIO (putState (\<lambda>s. s\<lparr>servers := (servers s)[i := x]\<rparr>)) (\<lambda>_. ret x)))
      (\<lambda>_. readyW) (\<lambda>_ _. False)" if "x \<in> set (servers s)" for x i
  proof -
    have x: "v_servers v (vs_Id x) = Some x" using mirrors_view [OF mirror that] by simp
    have "sure (atW s l v) (updateVirtualServer x m pid)"
      unfolding updateVirtualServer_def Let_def using x by (intro triple_if sure_ret triple_bind [OF updates_work(3) [OF a]]) simp
    from triple_sure [OF update_server_step [OF a x] this]
    have "triple (atW s l v) (updateVirtualServer x m pid)
        (\<lambda>_. \<lambda>(s', l', b). invar b \<and> (s' = s \<and> l' = l \<and> v_services (view b) = v_services v \<and> v_allocs (view b) = v_allocs v)) (\<lambda>_ _. False)"
      by (rule triple_post) (auto simp: at_def)
    moreover have "triple (atW s l v') (bindIO (putState (\<lambda>s. s\<lparr>servers := (servers s)[i := y]\<rparr>)) (\<lambda>_. ret y)) (\<lambda>_. readyW) (\<lambda>_ _. False)"
      if "v_services v' = v_services v" "v_allocs v' = v_allocs v" for y v'
      using r ready_cong [OF that, of "s\<lparr>servers := (servers s)[i := y]\<rparr>" s l] by (intro triple_putState_bind triple_ret) (auto simp: at_def)
    then have "triple (\<lambda>(s', l', b). invar b \<and> (s' = s \<and> l' = l \<and> v_services (view b) = v_services v \<and> v_allocs (view b) = v_allocs v))
        (bindIO (putState (\<lambda>s. s\<lparr>servers := (servers s)[i := y]\<rparr>)) (\<lambda>_. ret y)) (\<lambda>_. readyW) (\<lambda>_ _. False)" for y
      by (intro triple_viewW) auto
    ultimately show ?thesis by (rule triple_bind)
  qed
  show ?thesis
    unfolding getVirtualServer_def
    by (intro triple_getState triple_option create_ready [OF a c r] upd) (auto dest: findIndex_Some)
qed

lemma ready_bind:
  assumes f: "triple (atW s l v) f (\<lambda>r. \<lambda>(s', l', b). \<exists>v'. at v' b \<and> X r s' l' v') E" "triple (atW s l v) f (\<lambda>_. readyW) (\<lambda>_ _. False)"
    and g: "\<And>r s' l' v'. X r s' l' v' \<Longrightarrow> ready room s' l' v' \<Longrightarrow> triple (atW s' l' v') (g r) Q (\<lambda>_ _. False)"
  shows "triple (atW s l v) (bindIO f g) Q (\<lambda>_ _. False)"
proof (rule triple_bindE [OF triple_conj [OF f]])
  show "triple (\<lambda>w. (case w of (s', l', b) \<Rightarrow> \<exists>v'. at v' b \<and> X r s' l' v') \<and> readyW w) (g r) Q (\<lambda>_ _. False)" for r
  proof (rule tripleI, clarify)
    fix s' l' b v' assume h: "invar b" "ready room s' l' (view b)" "at v' b" "X r s' l' v'"
    then show "post Q (\<lambda>_ _. False) (g r (s', l', b))"
      using tripleD [OF g [OF h(4)], of "(s', l', b)"] by (simp add: at_def)
  qed
qed simp

lemma ready_port:
  assumes a: "broker (access l) = B" "access_wf (access l)" and c: "lbClass s = Some c"
    and sync: "synced (T s l) s v" and r: "ready room s l v"
  shows "triple (atW s l v) (processPort ord p) (\<lambda>_. readyW) (\<lambda>_ _. False)"
  unfolding processPort_def Let_def
proof (rule ready_bind [OF process_monitor [OF a sync] ready_monitor [OF a sync r]], elim conjE)
  fix mon s1 v1 and l1 :: "'s lbService" assume "l1 = l" and m: "afterMonitor (T s l) (NewMapping p) s v mon s1 v1" and "ready room s1 l1 v1"
  note f = afterMonitor_fields [OF m] and r1 = \<open>ready room s1 l1 v1\<close> [unfolded \<open>l1 = l\<close>]
  have mirror: "mirrors pool_Id (ownPool s1 l) (\<lambda>_. True) (pools s1) (v_pools v1)"
    using sync f by (simp add: synced_def sameJob_def)
  show "triple (atW s1 l1 v1) (bindIO (getPool ord (NewMapping p) mon) (\<lambda>pool. bindIO (getVirtualServer (NewMapping p) (pool_Id pool)) (\<lambda>_. ret ())))
      (\<lambda>_. readyW) (\<lambda>_ _. False)"
    unfolding \<open>l1 = l\<close>
  proof (rule ready_bind [OF process_pool [OF a sync m] ready_pool [OF a r1 mirror]], elim conjE)
    fix x s2 v2 and l2 :: "'s lbService" assume "l2 = l" and q: "afterPool (T s l) (NewMapping p) s v mon x s2 v2" and "ready room s2 l2 v2"
    note g = afterPool_fields [OF q] and r2 = \<open>ready room s2 l2 v2\<close> [unfolded \<open>l2 = l\<close>]
    have job: "T s2 l = T s l" "lbClass s2 = Some c" using g(1) c(1) by (simp_all add: sameJob_def)
    have "mirrors vs_Id (ownServer s2 l) (\<lambda>_. True) (servers s2) (v_servers v2)" using sync g unfolding job by (simp add: synced_def)
    from ready_server [OF a(1) job(2) r2 this, of "NewMapping p" "pool_Id x"]
    show "triple (atW s2 l2 v2) (bindIO (getVirtualServer (NewMapping p) (pool_Id x)) (\<lambda>_. ret ())) (\<lambda>_. readyW) (\<lambda>_ _. False)"
      unfolding \<open>l2 = l\<close> by (rule triple_bind) (rule triple_ret)
  qed
qed

lemma ports_work:
  assumes a: "broker (access l) = B" "access_wf (access l)" and c: "lbClass s = Some c" "classTagsOk c"
    and sync: "synced (T s l) s v" and r: "ps \<noteq> [] \<longrightarrow> ready room s l v"
  shows "sure (atW s l v) (forIO (processPort ord) ps)"
proof -
  let ?I = "\<lambda>ys. \<lambda>(s', l', b). \<exists>v'. at v' b \<and> access l' = access l \<and> portsDone (T s l) ys s v s' v' \<and> (ps \<noteq> [] \<longrightarrow> ready room s' l' v')"
  have step: "triple (?I ys) (processPort ord y) (\<lambda>_. ?I (ys @ [y])) (\<lambda>_ _. False)" if ps: "ps = ys @ y # zs" for ys y zs
  proof (rule triple_world, elim conjE)
    fix s1 v1 and l1 :: "'s lbService"
    assume l1: "access l1 = access l" and d: "portsDone (T s l) ys s v s1 v1" and "ps \<noteq> [] \<longrightarrow> ready room s1 l1 v1"
    then have r1: "ready room s1 l1 v1" using ps by simp
    have job: "clusterName s1 = clusterName s" "objectName s1 = objectName s" "lbClass s1 = Some c" and sync1: "synced (T s1 l1) s1 v1"
      using d l1 c(1) by (auto simp: portsDone_def sameJob_def)
    have a1: "broker (access l1) = B" "access_wf (access l1)" using a l1 by simp_all
    show "triple (atW s1 l1 v1) (processPort ord y) (\<lambda>_. ?I (ys @ [y])) (\<lambda>_ _. False)"
      by (rule triple_post [OF triple_conj [OF process_port [OF a1 job(3) c(2) sync1] ready_port [OF a1 job(3) sync1 r1]]])
        (auto simp: job l1 at_def intro: portsDone_snoc [OF d])
  qed
  have "triple (?I []) (forIO (processPort ord) ps) (\<lambda>_. ?I ps) (\<lambda>_ _. False)" by (rule triple_for [OF step])
  then show ?thesis by (rule triple_conseq) (use sync r in \<open>auto simp: portsDone_def\<close>)
qed

text \<open>The cleanup needs nothing but the state and the service object.\<close>

abbreviation "sameW s l \<equiv> \<lambda>(s', l', b). invar b \<and> (s' = s \<and> l' = l)"

lemma triple_sameW: "(\<And>v. triple (atW s l v) f Q E) \<Longrightarrow> triple (sameW s l) f Q E"
  by (rule triple_viewW) auto

lemma call_same:
  assumes "triple (at v) (f (access l)) (\<lambda>_. at v') E" "sure (at v) (f (access l))"
  shows "triple (atW s l v) (callAccess f) (\<lambda>_. sameW s l) (\<lambda>_ _. False)"
  by (rule triple_callAccess_at, rule triple_post [OF triple_sure [OF assms]]) (auto simp: at_def)

lemma deletes_work:
  assumes a: "broker (access l) = B"
  shows "triple (sameW s l) (deletePool x) (\<lambda>_. sameW s l) (\<lambda>_ _. False)"
    "triple (sameW s l) (deleteTCPMonitor y) (\<lambda>_. sameW s l) (\<lambda>_ _. False)"
    "triple (sameW s l) (deleteVirtualServer z) (\<lambda>_. sameW s l) (\<lambda>_ _. False)"
proof -
  show "triple (sameW s l) (deletePool x) (\<lambda>_. sameW s l) (\<lambda>_ _. False)"
    unfolding deletePool_def by (rule triple_sameW, rule call_same, rule delete_lb_pool [OF a], rule delete_works(2) [OF a])
  show "triple (sameW s l) (deleteTCPMonitor y) (\<lambda>_. sameW s l) (\<lambda>_ _. False)"
    unfolding deleteTCPMonitor_def by (rule triple_sameW, rule call_same, rule delete_tcp_monitor [OF a], rule delete_works(1) [OF a])
  have remove: "triple (atW s l v) (onSnd (removeVirtualServerFromLoadBalancerService (clusterName s) (vs_Id z)))
      (\<lambda>_. sameW s l) (\<lambda>_ _. False)" for v
    by (rule triple_onSnd_at, rule triple_post [OF triple_sure [OF remove_server [OF a] remove_works [OF a]]]) (auto simp: at_def)
  have "triple (sameW s l) (callAccess (\<lambda>a. DeleteVirtualServer a (vs_Id z))) (\<lambda>_. sameW s l) (\<lambda>_ _. False)"
    by (rule triple_sameW, rule call_same, rule delete_virtual_server [OF a], rule delete_works(3) [OF a])
  then show "triple (sameW s l) (deleteVirtualServer z) (\<lambda>_. sameW s l) (\<lambda>_ _. False)"
    unfolding deleteVirtualServer_def by - (rule triple_sameW, rule triple_getState, rule triple_bind [OF remove])
qed

lemma delete_loop_works:
  assumes "\<And>x. triple (sameW s l) (del x) (\<lambda>_. sameW s l) (\<lambda>_ _. False)"
  shows "triple (sameW s l) (foldIO (\<lambda>acc x. if ok x then ret (add acc x) else bindIO (del x) (\<lambda>_. ret acc)) acc0 xs)
    (\<lambda>_. sameW s l) (\<lambda>_ _. False)"
  by (rule triple_fold [where I = "\<lambda>_ _. sameW s l"]) (intro triple_if triple_ret triple_bind [OF assms])

lemma cleanup_works:
  assumes a: "broker (access l) = B"
  shows "sure (atW s l v) (bindIO deleteOrphanVirtualServers (\<lambda>ids. bindIO (deleteOrphanPools ids) deleteOrphanTCPMonitors))"
proof -
  have servers: "triple (atW s l v) deleteOrphanVirtualServers (\<lambda>_. sameW s l) (\<lambda>_ _. False)" for v
    unfolding deleteOrphanVirtualServers_def
    by (rule triple_getState, rule triple_pre [OF delete_loop_works [OF deletes_work(3) [OF a]]]) (auto simp: at_def)
  have pools: "triple (sameW s l) (deleteOrphanPools ids) (\<lambda>_. sameW s l) (\<lambda>_ _. False)" for ids
    unfolding deleteOrphanPools_def
    by (rule triple_sameW, rule triple_getState, rule triple_pre [OF delete_loop_works [OF deletes_work(1) [OF a]]]) (auto simp: at_def)
  have "triple (sameW s l) (foldIO (\<lambda>acc x. if ok x then ret ((\<lambda>_ _. ()) acc x) else bindIO (deleteTCPMonitor x) (\<lambda>_. ret acc)) () xs)
      (\<lambda>_. sameW s l) (\<lambda>_ _. False)" for ok xs
    by (rule delete_loop_works [OF deletes_work(2) [OF a]])
  then have "sure (atW s l v) (foldIO (\<lambda>acc x. if ok x then ret ((\<lambda>_ _. ()) acc x) else bindIO (deleteTCPMonitor x) (\<lambda>_. ret acc)) () xs)" for ok xs v
    by (rule triple_conseq) (auto simp: at_def)
  then have "sure (sameW s l) (deleteOrphanTCPMonitors ids)" for ids
    unfolding deleteOrphanTCPMonitors_def forIO_def bindIO_unit by (intro triple_sameW triple_getState)
  then show ?thesis by (intro triple_bind [OF servers] triple_bind [OF pools])
qed

lemma find_objects_work:
  assumes a: "broker (access l) = B"
  shows "sure (atW s l v) findObjects"
proof -
  have servers: "triple (atW u l v) (callAccess (\<lambda>a. FindVirtualServers a cl n)) (\<lambda>_. atW u l v) (\<lambda>_ _. False)" for u cl n
    by (rule triple_callAccess_at, rule triple_post [OF triple_sure [OF find_virtual_servers [OF a] find_virtual_servers_works [OF a]]]) auto
  have pools: "triple (atW u l v) (callAccess (\<lambda>a. FindPools a cl n)) (\<lambda>_. atW u l v) (\<lambda>_ _. False)" for u cl n
    by (rule triple_callAccess_at, rule triple_post [OF triple_sure [OF find_lb_pools [OF a] find_pools_works [OF a]]]) auto
  show ?thesis
    unfolding findObjects_def
    by (intro triple_getState triple_bind [OF servers] triple_putState_bind triple_bind [OF pools] triple_bind [OF calls_work(3) [OF a]] sure_putState)
qed

text \<open>All of \<open>Process\<close> and \<open>Finish\<close>, and the requests.\<close>

lemma provided_ready:
  assumes sync: "synced tg s v" and p: "provided room tg c l v"
  shows "ready room (adoptClass c s) l v"
proof (cases "servers s")
  case Nil
  then have "ownServers tg v = {}" using sync unfolding synced_def by (metis ownSet_mirrors list.set(1))
  with p Nil show ?thesis by (simp add: provided_def ready_def adoptClass_def Let_def)
next
  case (Cons x xs)
  have "x \<in> ownServers tg v" using sync Cons by (auto simp: synced_def mirrors_def ownSet_def)
  with p Cons adoptClass_server [OF Cons, of c] show ?thesis by (auto simp: provided_def ready_def split: if_splits)
qed

lemma process_works:
  assumes a: "broker (access l) = B" "access_wf (access l)" and c: "classTagsOk c"
    and r: "s_Ports (service s) \<noteq> [] \<longrightarrow> provided room (T s l) c l v"
  shows "sure (atW s l v) (Process ord c)"
  unfolding Process_def
proof (rule triple_bind [OF triple_sure [OF find_objects [OF a(1)] find_objects_work [OF a(1)]]])
  let ?rest = "bindIO (putState (adoptClass c)) (\<lambda>_. bindIO getState (\<lambda>s. bindIO (forIO (processPort ord) (s_Ports (service s))) (\<lambda>_.
     bindIO deleteOrphanVirtualServers (\<lambda>ids. bindIO (deleteOrphanPools ids) deleteOrphanTCPMonitors))))"
  have "sure (atW s1 l v) ?rest"
    if s1: "s1 = s\<lparr>servers := servers s1, pools := pools s1, tcpMonitors := tcpMonitors s1\<rparr>" "synced (T s l) s1 v" for s1
  proof -
    let ?a = "adoptClass c s1"
    have job: "T ?a l = T s l" "service ?a = service s" by (simp_all, (subst s1(1), simp)+)
    obtain c' where c': "lbClass ?a = Some c'" "classTagsOk c'" using adoptClass_class [OF c, of s1] by blast
    have sync: "synced (T ?a l) ?a v" using s1(2) unfolding job(1) by (simp add: synced_def)
    have "s_Ports (service ?a) \<noteq> [] \<longrightarrow> ready room ?a l v" using r provided_ready [OF s1(2)] unfolding job by blast
    note ports = triple_sure [OF process_ports [OF a c' sync] ports_work [OF a c' sync this]]
    have "sure (atW s2 l2 v2) (bindIO deleteOrphanVirtualServers (\<lambda>ids. bindIO (deleteOrphanPools ids) deleteOrphanTCPMonitors))"
      if "access l2 = access l" for s2 v2 and l2 :: "'s lbService"
      using that a(1) by (intro cleanup_works) simp
    then have clean: "sure (\<lambda>(s2, l2, b). \<exists>v2. at v2 b \<and> access l2 = access l \<and> X s2 v2)
        (bindIO deleteOrphanVirtualServers (\<lambda>ids. bindIO (deleteOrphanPools ids) deleteOrphanTCPMonitors))" for X
      by (intro triple_world) auto
    show ?thesis by (rule triple_putState_bind, rule sure_getState, rule triple_bind [OF ports], rule clean)
  qed
  then show "sure (\<lambda>(s', l', b). at v b \<and> l' = l \<and> s' = s\<lparr>servers := servers s', pools := pools s', tcpMonitors := tcpMonitors s'\<rparr> \<and>
       synced (T s l) s' v \<and> (\<forall>x \<in> set (tcpMonitors s'). tcpTyped x)) ?rest"
    by (fastforce simp: triple_def)
qed

lemma finish_works:
  assumes a: "broker (access l) = B" and c: "lbClass s \<noteq> None"
  shows "sure (atW s l v) Finish"
proof -
  from c obtain c where c: "lbClass s = Some c" by auto
  have ask: "triple (atW s l v) (callAccess (\<lambda>a. IsAllocatedExternalIPAddress a (ipPoolID c) (ipAddress s)))
      (\<lambda>r w. (r \<longrightarrow> (\<exists>as. v_allocs v (ipPoolID c) = Some as \<and> ipAddress s \<in> as)) \<and> atW s l v w) (\<lambda>_ _. False)"
    by (rule triple_callAccess_at, rule triple_post [OF is_allocated_sure [OF a]]) auto
  have release: "sure (atW s l v) (callAccess (\<lambda>a. ReleaseExternalIPAddress a (ipPoolID c) (ipAddress s)))"
    if "\<exists>as. v_allocs v (ipPoolID c) = Some as \<and> ipAddress s \<in> as"
    using that by (elim exE conjE) (rule triple_callAccess_at, rule triple_post [OF release_sure [OF a]], auto)
  have "sure (atW s l v) releaseResources"
    unfolding releaseResources_def
    by (intro sure_getState triple_if triple_classOf [OF c] triple_bind [OF ask] triple_pure_pre sure_ret release) auto
  then show ?thesis unfolding Finish_def by (intro sure_getState triple_if triple_bind [OF _] sure_ret)
qed

lemma process_finish_works:
  assumes a: "broker (access l) = B" "access_wf (access l)" and c: "classTagsOk c" and s: "ipAddress s = ''''"
    and r: "s_Ports (service s) \<noteq> [] \<longrightarrow> provided room (T s l) c l v"
  shows "triple (atW s l v) (bindIO (tryIO (Process ord c)) finishBoth) (\<lambda>(status, err) _. err = None) (\<lambda>_ _. False)"
proof -
  let ?mid = "\<lambda>(s1, l1, b). \<exists>v1. at v1 b \<and> access l1 = access l \<and> lbClass s1 \<noteq> None"
  have process: "triple (atW s l v) (tryIO (Process ord c)) (\<lambda>r w. r = Inr () \<and> ?mid w) (\<lambda>_ _. False)"
    by (rule triple_try, rule triple_post [OF triple_sure [OF process [OF a c s] process_works [OF a c r]]]) auto
  have "triple (atW s1 l1 v1) (tryIO Finish) (\<lambda>f _. \<exists>status. f = Inr status) (\<lambda>_ _. False)"
    if "access l1 = access l" "lbClass s1 \<noteq> None" for s1 v1 and l1 :: "'s lbService"
    using that a(1) by (intro triple_try triple_post [OF finish_works]) auto
  then have fin: "triple ?mid (tryIO Finish) (\<lambda>f _. \<exists>status. f = Inr status) (\<lambda>_ _. False)" by (intro triple_world) auto
  have "triple ?mid (finishBoth (Inr ())) (\<lambda>(status, err) _. err = None) (\<lambda>_ _. False)"
    by (rule triple_bind [OF fin], rule triple_ret) auto
  then have "triple (\<lambda>w. r = Inr () \<and> ?mid w) (finishBoth r) (\<lambda>(status, err) _. err = None) (\<lambda>_ _. False)" for r
    by (intro triple_pure_pre) simp
  then show ?thesis by (rule triple_bind [OF process])
qed

lemma ensure_works:
  assumes p: "provider_ok B p" and free: "keyLock p (serviceKey svc) \<noteq> Some True"
    and c: "classFromService (classes p) svc = Inr c"
    and r: "s_Ports svc \<noteq> [] \<longrightarrow> provided room (serviceTags p cl svc) c (lbService p) v"
  shows "triple (atP p v) (EnsureLoadBalancer ord cl svc ns) (\<lambda>(status, err) _. err = None) (\<lambda>_ _. False)"
    (is "triple _ _ ?Q _")
proof -
  let ?p = "p\<lparr>keyLock := (keyLock p)(serviceKey svc \<mapsto> True)\<rparr>"
  let ?Q' = "\<lambda>r. \<lambda>(p', b). keyLock p' (serviceKey svc) = Some True \<and> ?Q r (p'\<lparr>keyLock := (keyLock p')(serviceKey svc \<mapsto> False)\<rparr>, b)"
  let ?E' = "\<lambda>e. \<lambda>(p', b). keyLock p' (serviceKey svc) = Some True \<and> False"
  have ok: "broker (access (lbService p)) = B" "access_wf (access (lbService p))" using p by (auto simp: provider_ok_def)
  have "triple (atP ?p v) (withState (newState cl svc ns) (bindIO (tryIO (Process ord c)) finishBoth)) ?Q' ?E'"
    by (rule triple_withState, rule triple_post [OF process_finish_works]) (use ok classFromService_ok [OF p c] r in auto)
  then have "triple (atP ?p v) (bindIO (getsIO (\<lambda>(p, _). classFromService (classes p) svc)) (\<lambda>found. case found of
      Inl e \<Rightarrow> ret (None, Some e)
    | Inr c \<Rightarrow> withState (newState cl svc ns) (bindIO (tryIO (Process ord c)) finishBoth))) ?Q' ?E'"
    by (intro triple_gets_bind [where c = "Inr c"]) (auto simp: c)
  from triple_locked [OF free this] show ?thesis unfolding EnsureLoadBalancer_def .
qed

text \<open>The update of the members; the pools that were found stay there.\<close>

lemma refresh_works:
  assumes a: "broker (access l) = B" and i: "i < length xs"
  shows "sure (atPools s l xs v dn ys) (refreshPool ord p ys i)"
proof -
  have "sure (atW s l v') (refreshPool ord p ys i)" if r: "refreshed (T s l) (nodes s) xs v dn ys v'" for v'
    using refreshed_match(2) [OF r i] by (intro triple_if triple_bind [OF update_pool_works [OF a]] sure_ret) simp
  then show ?thesis by (fastforce simp: triple_def)
qed

lemma refresh_port_works:
  assumes a: "broker (access l) = B"
  shows "sure (atPools s l xs v dn ys) (foldIO (refreshPool ord p) ys [0..<length ys])"
proof (cases "length ys = length xs")
  case True
  let ?I = "\<lambda>_ ys w. \<exists>dn. atPools s l xs v dn ys w"
  have "triple (?I is zs) (refreshPool ord p zs i) (?I (is @ [i])) (\<lambda>_ _. False)" if "[0..<length ys] = is @ i # js" for "is" i js zs
  proof -
    from that have "i \<in> set [0..<length ys]" by (metis in_set_conv_decomp)
    then have i: "i < length xs" using True by simp
    have "triple (atPools s l xs v dn zs) (refreshPool ord p zs i) (?I (is @ [i])) (\<lambda>_ _. False)" for dn
      by (rule triple_post [OF triple_sure [OF refresh_pool [OF a i] refresh_works [OF a i]]]) auto
    then show ?thesis by (fastforce simp: triple_def)
  qed
  then have "triple (?I [] ys) (foldIO (refreshPool ord p) ys [0..<length ys]) (?I [0..<length ys]) (\<lambda>_ _. False)" by (rule triple_fold)
  then show ?thesis by (rule triple_conseq) auto
next
  case False
  then show ?thesis by (auto simp: triple_def refreshed_def)
qed

lemma update_pool_members_works:
  assumes a: "broker (access l) = B"
  shows "sure (atW s l v) (UpdatePoolMembers ord)"
proof -
  let ?mir = "\<lambda>xs. mirrors pool_Id (ownPool s l) (\<lambda>_. True) xs (v_pools v)"
  let ?loop = "\<lambda>xs. foldIO (\<lambda>found p. foldIO (refreshPool ord p) found [0..<length found]) xs (s_Ports (service s))"
  have start: "triple (atW s l v) (callAccess (\<lambda>a. FindPools a (clusterName s) (objectName s))) (\<lambda>xs w. ?mir xs \<and> atW s l v w) (\<lambda>_ _. False)"
    by (rule triple_callAccess_at, rule triple_post [OF triple_sure [OF find_lb_pools [OF a] find_pools_works [OF a]]])
      (auto intro!: mirrors_lists)
  have "sure (atW s l v) (bindIO (?loop xs) (\<lambda>_. ret ()))" if mir: "?mir xs" for xs
  proof -
    let ?I = "\<lambda>_ ys w. \<exists>dn. atPools s l xs v dn ys w"
    have "triple (atPools s l xs v dn ys) (foldIO (refreshPool ord p) ys [0..<length ys]) (\<lambda>zs w. \<exists>dn. atPools s l xs v dn zs w) (\<lambda>_ _. False)" for dn ys p
      by (rule triple_post [OF triple_sure [OF refresh_port [OF a] refresh_port_works [OF a]]]) auto
    then have "triple (?I ps ys) (foldIO (refreshPool ord p) ys [0..<length ys]) (?I (ps @ [p])) (\<lambda>_ _. False)" for ps ys p
      by (fastforce simp: triple_def)
    then have "triple (?I [] xs) (?loop xs) (?I (s_Ports (service s))) (\<lambda>_ _. False)" by (rule triple_fold)
    then have "sure (atW s l v) (?loop xs)" by (rule triple_conseq) (use refreshed_start [OF mir] in auto)
    then show ?thesis by (rule triple_bind) (rule sure_ret)
  qed
  then show ?thesis
    unfolding UpdatePoolMembers_def by (intro sure_getState triple_bind [OF start] triple_pure_pre)
qed

lemma update_request_works:
  assumes p: "provider_ok B p" and free: "keyLock p (serviceKey svc) \<noteq> Some True"
  shows "sure (atP p v) (UpdateLoadBalancer ord cl svc ns)"
proof -
  have a: "broker (access (lbService p)) = B" using p by (simp add: provider_ok_def)
  show ?thesis
    unfolding UpdateLoadBalancer_def
    by (rule triple_locked [OF free], rule triple_withState,
        rule triple_post [OF triple_sure [OF update_pool_members update_pool_members_works]]) (use a in auto)
qed

lemma deleted_works:
  assumes p: "provider_ok B p" and free: "keyLock p (serviceKey svc) \<noteq> Some True" and c: "classFromService (classes p) svc = Inr c"
  shows "sure (atP p v) (EnsureLoadBalancerDeleted ord cl svc)"
proof -
  let ?svc = "svc\<lparr>s_Ports := []\<rparr>"
  have same: "objectNameFromService ?svc = objectNameFromService svc" "classFromService (classes p) ?svc = Inr c"
    using c by (simp_all add: objectNameFromService_def classFromService_def)
  have "triple (atP p v) (EnsureLoadBalancer ord cl ?svc []) (\<lambda>(status, err) _. err = None) (\<lambda>_ _. False)"
    by (rule ensure_works [OF p]) (use free same in simp_all)
  then show ?thesis
    unfolding EnsureLoadBalancerDeleted_def by (rule triple_bind) (auto intro!: tripleI simp: ret_def)
qed

end

section \<open>Requests succeed\<close>

lemma start_at: "nsxt_backend B invar view mt \<Longrightarrow> invar b \<Longrightarrow> (\<lambda>(p', b'). p' = p \<and> nsxt_backend.at invar view (view b) b') (p, b)"
  by (simp add: nsxt_backend.at_def)

text \<open>
  C3. \<open>EnsureLoadBalancer\<close> succeeds on a backend whose calls work, for a service with a known
  class: always when it has no ports, and otherwise when there is a load balancer service or one
  may be created and the virtual servers of the service have an address or, if it has none, the
  IP pool of the class has room. Then every port is served and no orphan is left.
\<close>

theorem EnsureLoadBalancer_succeeds:
  assumes backend: "working_backend B invar view mt room" and p: "provider_ok B p" "keyLock p (serviceKey svc) \<noteq> Some True" and b: "invar b"
    and c: "classFromService (classes p) svc = Inr c"
    and r: "s_Ports svc \<noteq> [] \<longrightarrow> provided room (serviceTags p cl svc) c (lbService p) (view b)"
  shows "\<exists>status p' b'. EnsureLoadBalancer ord cl svc ns (p, b) = (Ok (status, None), (p', b')) \<and> invar b' \<and>
    noOrphans (serviceTags p cl svc) (s_Ports svc) (view b') \<and> (status = None \<longleftrightarrow> s_Ports svc = []) \<and>
    (distinct (map portKey (s_Ports svc)) \<and> (\<forall>q \<in> ownPools (serviceTags p cl svc) (view b). distinctMembers q) \<longrightarrow>
       (\<forall>port \<in> set (s_Ports svc). servedBy True ns (ownServers (serviceTags p cl svc) (view b'))
          (ownPools (serviceTags p cl svc) (view b')) (ownMonitors (serviceTags p cl svc) (view b')) port))"
proof -
  note base = reliable_backend.axioms(1) [OF working_backend.axioms(1) [OF backend]]
  obtain status err p' b' where run: "EnsureLoadBalancer ord cl svc ns (p, b) = (Ok (status, err), (p', b'))" "invar b'"
    by (rule ensure_outcome [OF base p b])
  with triple_OkD [OF working_backend.ensure_works [OF backend p c r] start_at [OF base b] run(1)] have err: "err = None" by simp
  from ensure_success [OF base p b run(1) [unfolded err]] obtain s' v1
    where P: "processed (serviceTags p cl svc) c (newState cl svc ns) (view b) s' v1"
      and st: "s_Ports svc = [] \<Longrightarrow> status = None \<and> view b' = released s' v1" "s_Ports svc \<noteq> [] \<Longrightarrow> status \<noteq> None \<and> view b' = v1"
    using c by (metis Inr_inject option.distinct(1))
  have same: "v_servers (view b') = v_servers v1" "v_pools (view b') = v_pools v1" "v_monitors (view b') = v_monitors v1"
    using st by (cases "s_Ports svc = []"; simp)+
  have "status = None \<longleftrightarrow> s_Ports svc = []" using st by blast
  moreover have "noOrphans (serviceTags p cl svc) (s_Ports svc) (view b')" using P by (simp add: processed_def Let_def noOrphans_def same)
  moreover have "\<forall>port \<in> set (s_Ports svc). servedBy True ns (ownServers (serviceTags p cl svc) (view b'))
      (ownPools (serviceTags p cl svc) (view b')) (ownMonitors (serviceTags p cl svc) (view b')) port"
    if "distinct (map portKey (s_Ports svc))" "\<forall>q \<in> ownPools (serviceTags p cl svc) (view b). distinctMembers q"
    using P that by (simp add: processed_def Let_def same)
  ultimately show ?thesis using run unfolding err by blast
qed

lemma example_known: "classFromService (classes example_provider) example_service = Inr example_class"
    "classFromService (classes example_busy) example_service = Inr example_class"
  by (simp_all add: example_busy_def run_example)

lemma example_provided: "provided inmem_room (serviceTags example_provider ''c'' example_service) example_class (lbService example_provider) (inmem_view example_store)"
proof -
  have "v_allocs (inmem_view example_store) ''ip-pool-0'' = Some {}" by (simp add: inmem_view_def example_store_def run_example)
  then have "inmem_room (inmem_view example_store) ''ip-pool-0''" by (simp add: inmem_room_def)
  then show ?thesis
    by (simp add: provided_def serviceReady_def example_store_empty example_provider_def newLbService_def newLBClass_def)
qed

theorem EnsureLoadBalancer_succeeds_witness:
  "\<exists>status p' b'. EnsureLoadBalancer (\<lambda>_ ks. ks) ''c'' example_service example_nodes (example_provider, example_store) = (Ok (status, None), (p', b')) \<and>
     noOrphans (serviceTags example_provider ''c'' example_service) (s_Ports example_service) (inmem_view b')"
  using EnsureLoadBalancer_succeeds [OF imw.working_backend_axioms example_ok(1) example_free(1) example_ok(3) example_known(1) impI [OF example_provided]]
  by metis



end
