(* ===== verification/Reorg.thy ===== *)
theory Reorg
  imports LB_Provider "HOL-Library.Signed_Division"
begin

text \<open>
  The cleanup of forgotten objects (\<open>reorg.go\<close>): the periods between two runs, one run, and
  the loop. The list of the services comes from the Kubernetes client and is an argument; the
  cluster name is the variable \<open>ClusterName\<close> that \<open>main\<close> sets.
\<close>

section \<open>Periods\<close>

text \<open>A \<open>time.Duration\<close> counts nanoseconds in 64 bits, with wrap-around; division truncates.\<close>

definition int64 :: "int \<Rightarrow> int" where
  "int64 i = (i + 2 ^ 63) mod 2 ^ 64 - 2 ^ 63"

definition Millisecond :: int where "Millisecond = 1000000"

definition Second :: int where "Second = 1000 * Millisecond"

definition Minute :: int where "Minute = 60 * Second"

definition maxPeriod :: int where
  "maxPeriod = 30 * Minute"

record reorgTimer =
  lastErrNext :: int
  timer :: int

definition newTimer :: reorgTimer where
  "newTimer = \<lparr>lastErrNext = 0, timer = 1 * Second\<rparr>"

definition nextErr :: "int \<Rightarrow> int" where
  "nextErr d =
     (if d = 0 then 500 * Millisecond
      else let d = int64 (5 * d) sdiv 4 in if d > maxPeriod then maxPeriod else d)"

definition resetTimer :: "bool \<Rightarrow> reorgTimer \<Rightarrow> reorgTimer" where
  "resetTimer failed t =
     (if \<not> failed then \<lparr>lastErrNext = 0, timer = maxPeriod\<rparr>
      else let d = nextErr (lastErrNext t) in \<lparr>lastErrNext = d, timer = d\<rparr>)"

section \<open>One run\<close>

definition ServiceTypeLoadBalancer :: string where "ServiceTypeLoadBalancer = ''LoadBalancer''"

definition servicesByName :: "Service list \<Rightarrow> (NamespacedName \<times> Service) list" where
  "servicesByName items = fold (\<lambda>item services.
     if s_Type item = ServiceTypeLoadBalancer then AList.update (objectNameFromService item) item services else services) items []"

definition addNames :: "tag list list \<Rightarrow> NamespacedName list \<Rightarrow> ('s, NamespacedName list) io" where
  "addNames objects lbs = foldIO (\<lambda>lbs tags.
     let tag = getTag tags ScopeService
     in if tag \<noteq> '''' then (case parseObjectName tag of
          Ok name \<Rightarrow> ret (List.insert name lbs) | Err e \<Rightarrow> throw e | Panic m \<Rightarrow> panic m)
        else ret lbs) lbs objects"

definition emptyService :: "NamespacedName \<Rightarrow> Service" where
  "emptyService lb = \<lparr>s_Namespace = Namespace lb, s_Name = Name lb, s_Annotations = [], s_Type = '''', s_Ports = [], s_Ingress = []\<rparr>"

definition onAccess :: "('s access \<Rightarrow> ('s, 'a) io) \<Rightarrow> ('s lbProvider \<times> 's, 'a) io" where
  "onAccess f = bindIO (getsIO (\<lambda>(p, _). access (lbService p))) (\<lambda>a. onSnd (f a))"

definition doReorgStep ::
  "('s, string) order \<Rightarrow> ('s, NamespacedName) order \<Rightarrow> string \<Rightarrow> error + Service list \<Rightarrow> ('s lbProvider \<times> 's, unit) io" where
  "doReorgStep ord names cluster listed =
     (case listed of
        Inl err \<Rightarrow> throw err
      | Inr items \<Rightarrow>
          let services = servicesByName items in
          bindIO (onAccess (\<lambda>a. ListVirtualServers a cluster)) (\<lambda>servers.
          bindIO (addNames (map vs_Tags servers) []) (\<lambda>lbs.
          bindIO (onAccess (\<lambda>a. ListPools a cluster)) (\<lambda>pools.
          bindIO (addNames (map pool_Tags pools) lbs) (\<lambda>lbs.
          bindIO (onAccess (\<lambda>a. ListTCPMonitorLight a cluster)) (\<lambda>monitors.
          bindIO (addNames (map lm_Tags monitors) lbs) (\<lambda>lbs.
          bindIO (getsIO (\<lambda>(_, b). rangeKeys names b lbs)) (\<lambda>lbs.
          forIO (\<lambda>lb.
            if (case map_of services lb of None \<Rightarrow> True | Some svc \<Rightarrow> s_Type svc \<noteq> ServiceTypeLoadBalancer)
            then EnsureLoadBalancerDeleted ord cluster (emptyService lb)
            else ret ()) lbs))))))))"

section \<open>The loop\<close>

text \<open>What the \<open>select\<close> of the loop receives: the timer fires, and the services are these, or it has to stop.\<close>

datatype signal = Timer "error + Service list" | Stop

fun reorg ::
  "('s, string) order \<Rightarrow> ('s, NamespacedName) order \<Rightarrow> string \<Rightarrow> signal list \<Rightarrow> reorgTimer \<Rightarrow>
   ('s lbProvider \<times> 's, reorgTimer) io" where
  "reorg ord names cluster [] t = ret t"
| "reorg ord names cluster (Stop # signals) t = ret t"
| "reorg ord names cluster (Timer listed # signals) t =
     bindIO (tryIO (doReorgStep ord names cluster listed)) (\<lambda>r.
     reorg ord names cluster signals (resetTimer (case r of Inl _ \<Rightarrow> True | Inr _ \<Rightarrow> False) t))"

text \<open>What the goroutine runs that \<open>Initialize\<close> of the provider starts, until the stop channel is closed.\<close>

definition lbProvider_Initialize ::
  "('s, string) order \<Rightarrow> ('s, NamespacedName) order \<Rightarrow> string \<Rightarrow> signal list \<Rightarrow> ('s lbProvider \<times> 's, unit) io" where
  "lbProvider_Initialize ord names cluster signals = bindIO (reorg ord names cluster signals newTimer) (\<lambda>_. ret ())"

section \<open>Properties of the periods\<close>

lemma int64_id: "- (2 ^ 63) \<le> i \<Longrightarrow> i < 2 ^ 63 \<Longrightarrow> int64 i = i"
  by (simp add: int64_def)

lemma nextErr_eq:
  assumes "d = 0 \<or> 500 * Millisecond \<le> d \<and> d \<le> maxPeriod"
  shows "nextErr d = (if d = 0 then 500 * Millisecond else min maxPeriod (5 * d div 4))"
proof -
  have "int64 (5 * d) = 5 * d" using assms by (intro int64_id) (auto simp: maxPeriod_def Minute_def Second_def Millisecond_def)
  moreover have "(5 * d) sdiv 4 = 5 * d div 4" if "d > 0" using that by (simp add: signed_divide_int_def)
  ultimately show ?thesis using assms by (auto simp: nextErr_def Let_def Millisecond_def)
qed

definition timer_ok :: "reorgTimer \<Rightarrow> bool" where
  "timer_ok t \<longleftrightarrow> (lastErrNext t = 0 \<or> 500 * Millisecond \<le> lastErrNext t \<and> lastErrNext t \<le> maxPeriod) \<and>
     500 * Millisecond \<le> timer t \<and> timer t \<le> maxPeriod"

lemma timer_ok_new: "timer_ok newTimer"
  by (simp add: timer_ok_def newTimer_def maxPeriod_def Minute_def Second_def Millisecond_def)

lemma timer_ok_reset: "timer_ok t \<Longrightarrow> timer_ok (resetTimer failed t)"
  using nextErr_eq [of "lastErrNext t"]
  by (auto simp: timer_ok_def resetTimer_def Let_def maxPeriod_def Minute_def Second_def Millisecond_def)

section \<open>What a run removes\<close>

text \<open>Objects with none of the given tag sets are the same before and after.\<close>

definition keptBut :: "tag list set \<Rightarrow> ('a \<Rightarrow> tag list) \<Rightarrow> ('k \<rightharpoonup> 'a) \<Rightarrow> ('k \<rightharpoonup> 'a) \<Rightarrow> bool" where
  "keptBut TS tags m m' \<longleftrightarrow> (\<forall>k x. (\<forall>T \<in> TS. \<not> checkTags (tags x) T) \<longrightarrow> (m' k = Some x \<longleftrightarrow> m k = Some x))"

definition reorgKept :: "tag list set \<Rightarrow> nsxt_view \<Rightarrow> nsxt_view \<Rightarrow> bool" where
  "reorgKept TS v v' \<longleftrightarrow> keptBut TS vs_Tags (v_servers v) (v_servers v') \<and> keptBut TS pool_Tags (v_pools v) (v_pools v') \<and>
     keptBut TS mon_Tags (v_monitors v) (v_monitors v') \<and>
     (\<forall>k x. v_servers v k = Some x \<and> (\<forall>T \<in> TS. \<not> checkTags (vs_Tags x) T) \<longrightarrow> attached v' k = attached v k)"

lemma keptBut_one: "restrictBy (\<lambda>x. \<not> checkTags (tags x) T) m' = restrictBy (\<lambda>x. \<not> checkTags (tags x) T) m \<Longrightarrow> keptBut {T} tags m m'"
proof -
  assume eq: "restrictBy (\<lambda>x. \<not> checkTags (tags x) T) m' = restrictBy (\<lambda>x. \<not> checkTags (tags x) T) m"
  have "m' k = Some x \<longleftrightarrow> m k = Some x" if "\<not> checkTags (tags x) T" for k x
    using that fun_cong [OF eq, of k] restrictBy_Some [of "\<lambda>x. \<not> checkTags (tags x) T" m k x]
      restrictBy_Some [of "\<lambda>x. \<not> checkTags (tags x) T" m' k x] by simp
  then show ?thesis by (simp add: keptBut_def)
qed

lemma keptBut_trans: "keptBut TS tags m m' \<Longrightarrow> keptBut {T} tags m' m'' \<Longrightarrow> keptBut (insert T TS) tags m m''"
  by (simp add: keptBut_def)

lemma reorgKept_refl [simp]: "reorgKept {} v v"
  by (simp add: reorgKept_def keptBut_def)

lemma others_kept_reorg: "others_kept T v v' \<Longrightarrow> reorgKept {T} v v'"
  by (simp add: others_kept_def reorgKept_def keptBut_one)

lemma reorgKept_step:
  assumes "reorgKept TS v v'" "others_kept T v' v''"
  shows "reorgKept (insert T TS) v v''"
proof -
  have k: "keptBut TS vs_Tags (v_servers v) (v_servers v')"
    "\<forall>k x. v_servers v k = Some x \<and> (\<forall>T \<in> TS. \<not> checkTags (vs_Tags x) T) \<longrightarrow> attached v' k = attached v k"
    using assms(1) by (simp_all add: reorgKept_def)
  have "attached v'' k = attached v k" if x: "v_servers v k = Some x" "\<forall>S \<in> insert T TS. \<not> checkTags (vs_Tags x) S" for k x
  proof -
    from x k(1) have "v_servers v' k = Some x" by (simp add: keptBut_def)
    with x assms(2) have "attached v'' k = attached v' k" by (simp add: others_kept_def)
    with k(2) x show ?thesis by simp
  qed
  then show ?thesis using others_kept_reorg [OF assms(2)] assms(1) by (auto simp: reorgKept_def intro: keptBut_trans)
qed

lemma ownSet_kept:
  assumes "keptBut {T} tags m m'" "\<forall>x \<in> ownSet (\<lambda>x. checkTags (tags x) T) m'. P x"
    "\<forall>x \<in> ownSet (\<lambda>x. checkTags (tags x) S) m. P x"
  shows "\<forall>x \<in> ownSet (\<lambda>x. checkTags (tags x) S) m'. P x"
  using assms unfolding keptBut_def ownSet_def by blast

lemma emptied_kept:
  assumes "emptied S v" "others_kept T v v'" "emptied T v'"
  shows "emptied S v'"
  using assms(1,3) others_kept_reorg [OF assms(2)] ownSet_kept [of T vs_Tags "v_servers v" "v_servers v'" "\<lambda>_. False" S]
    ownSet_kept [of T pool_Tags "v_pools v" "v_pools v'" "\<lambda>_. False" S]
    ownSet_kept [of T mon_Tags "v_monitors v" "v_monitors v'" "\<lambda>x. mon_ResourceType x \<noteq> ''LbTcpMonitor''" S]
  by (auto simp: emptied_def reorgKept_def)

text \<open>The names that the service tags of the objects give.\<close>

definition nameOf :: "tag list \<Rightarrow> NamespacedName option" where
  "nameOf tags = (if getTag tags ScopeService = '''' then None
     else case parseObjectName (getTag tags ScopeService) of Ok n \<Rightarrow> Some n | _ \<Rightarrow> None)"

definition wellNamed :: "tag list \<Rightarrow> bool" where
  "wellNamed tags \<longleftrightarrow> getTag tags ScopeService = '''' \<or> CHR ''/'' \<in> set (getTag tags ScopeService)"

lemma parse_slash:
  assumes "CHR ''/'' \<in> set s"
  obtains n where "parseObjectName s = Ok n" "CHR ''/'' \<notin> set (Namespace n)"
proof -
  from assms obtain xs ys where "s = xs @ CHR ''/'' # ys" "CHR ''/'' \<notin> set xs" by (meson split_list_first)
  then show thesis by (cases "splitOn (CHR ''/'') ys") (auto simp: parseObjectName_def splitOn_append intro!: that)
qed

lemma nameOf_slash: "wellNamed tags \<Longrightarrow> nameOf tags = Some n \<Longrightarrow> CHR ''/'' \<notin> set (Namespace n)"
  by (auto simp: nameOf_def wellNamed_def split: if_splits outcome.splits elim: parse_slash)

lemma addNames_run:
  assumes "\<forall>tags \<in> set objects. wellNamed tags"
  shows "\<exists>lbs'. addNames objects lbs s = (Ok lbs', s) \<and> (distinct lbs \<longrightarrow> distinct lbs') \<and>
    set lbs' = set lbs \<union> {n. \<exists>tags \<in> set objects. nameOf tags = Some n}"
  using assms
proof (induction objects arbitrary: lbs)
  case Nil
  then show ?case by (simp add: addNames_def ret_def)
next
  case (Cons tags objects)
  let ?lbs = "case nameOf tags of None \<Rightarrow> lbs | Some n \<Rightarrow> List.insert n lbs"
  have "addNames (tags # objects) lbs s = addNames objects ?lbs s"
    using Cons.prems by (auto simp: addNames_def nameOf_def wellNamed_def Let_def elim: parse_slash)
  moreover have "set ?lbs = set lbs \<union> {n. nameOf tags = Some n}" "distinct lbs \<longrightarrow> distinct ?lbs" by (auto split: option.split)
  ultimately show ?case using Cons.IH [of ?lbs] Cons.prems by auto
qed

text \<open>The services the run counts as existing.\<close>

abbreviation "liveNames items \<equiv> objectNameFromService ` {svc \<in> set items. s_Type svc = ServiceTypeLoadBalancer}"

lemma image_filter_Cons:
  "f ` {x \<in> set (y # ys). P x} = (if P y then insert (f y) (f ` {x \<in> set ys. P x}) else f ` {x \<in> set ys. P x})"
  by auto

lemma fold_update_keys:
  "fst ` set (fold (\<lambda>x m. if P x then AList.update (f x) x m else m) xs m) = fst ` set m \<union> f ` {x \<in> set xs. P x}"
  by (induction xs arbitrary: m) (simp, simp add: dom_update image_filter_Cons del: set_simps)

lemma fold_update_values:
  "map_of (fold (\<lambda>x m. if P x then AList.update (f x) x m else m) xs m) k = Some y \<Longrightarrow> map_of m k = Some y \<or> P y"
proof (induction xs arbitrary: m)
  case (Cons x xs)
  then have "map_of (if P x then AList.update (f x) x m else m) k = Some y \<or> P y" by simp
  then show ?case by (auto simp: update_conv' split: if_splits)
qed simp

lemma orphaned_iff:
  "(case map_of (servicesByName items) lb of None \<Rightarrow> True | Some svc \<Rightarrow> s_Type svc \<noteq> ServiceTypeLoadBalancer) \<longleftrightarrow> lb \<notin> liveNames items"
proof -
  have "fst ` set (servicesByName items) = liveNames items" unfolding servicesByName_def fold_update_keys by simp
  then have "map_of (servicesByName items) lb = None \<longleftrightarrow> lb \<notin> liveNames items" by (simp only: map_of_eq_None_iff)
  moreover have "s_Type svc = ServiceTypeLoadBalancer" if "map_of (servicesByName items) lb = Some svc" for svc
    using fold_update_values [OF that [unfolded servicesByName_def]] by simp
  ultimately show ?thesis by (cases "map_of (servicesByName items) lb") simp_all
qed

text \<open>Every object of owner and cluster that a run looks at, by its tags, and the names these give.\<close>

definition artefactTags :: "'s access \<Rightarrow> string \<Rightarrow> nsxt_view \<Rightarrow> tag list set" where
  "artefactTags a cl v = (let T = [ownerTag a, clusterTag cl] in
     vs_Tags ` ownServers T v \<union> pool_Tags ` ownPools T v \<union> mon_Tags ` {x \<in> ownMonitors T v. mon_ResourceType x = ''LbTcpMonitor''})"

definition artefactNames :: "'s access \<Rightarrow> string \<Rightarrow> nsxt_view \<Rightarrow> NamespacedName set" where
  "artefactNames a cl v = {n. \<exists>tags \<in> artefactTags a cl v. nameOf tags = Some n}"

definition allFree :: "'s lbProvider \<Rightarrow> bool" where
  "allFree p \<longleftrightarrow> (\<forall>k. keyLock p k \<noteq> Some True)"

lemma light_tags:
  assumes "lists lm_Id xs (\<lambda>k. map_option light (m k))"
  shows "lm_Tags ` set (filter (\<lambda>i. lm_ResourceType i = R \<and> Q (lm_Tags i)) xs) =
    mon_Tags ` {x \<in> ownSet (\<lambda>x. Q (mon_Tags x)) m. mon_ResourceType x = R}"
proof -
  have all: "y \<in> set xs \<longleftrightarrow> (\<exists>k x. m k = Some x \<and> y = light x)" for y
    using assms unfolding lists_def by (metis map_option_eq_Some)
  have light: "lm_Tags (light x) = mon_Tags x" "lm_ResourceType (light x) = mon_ResourceType x" for x by (simp_all add: light_def)
  have "set (filter (\<lambda>i. lm_ResourceType i = R \<and> Q (lm_Tags i)) xs) = light ` {x \<in> ownSet (\<lambda>x. Q (mon_Tags x)) m. mon_ResourceType x = R}"
    using all by (fastforce simp: ownSet_def light)
  then show ?thesis by (simp only: image_image light)
qed

context nsxt_backend
begin

lemma triple_onAccess_bind:
  assumes "triple (at v) (f (access (lbService p))) (\<lambda>x b. R x \<and> at v b) (\<lambda>_. at v)"
    and "\<And>x. R x \<Longrightarrow> triple (atP p v) (g x) Q E" and "\<And>e b. at v b \<Longrightarrow> E e (p, b)"
  shows "triple (atP p v) (bindIO (onAccess f) g) Q E"
proof -
  have "triple (atP p v) (onSnd (f (access (lbService p)))) (\<lambda>x w. R x \<and> atP p v w) E"
    by (rule triple_onSnd) (use assms(1,3) in \<open>auto simp: triple_def elim!: post_mono\<close>)
  then have "triple (atP p v) (onAccess f) (\<lambda>x w. R x \<and> atP p v w) E"
    unfolding onAccess_def by (intro triple_gets_bind [of _ _ "access (lbService p)"]) auto
  then show ?thesis by (rule triple_bind) (auto intro!: triple_pure_pre assms(2))
qed

lemma list_virtual_servers:
  "broker a = B \<Longrightarrow> triple (at v) (ListVirtualServers a cl) (\<lambda>xs b. set xs = ownServers [ownerTag a, clusterTag cl] v \<and> at v b) (\<lambda>_. at v)"
  unfolding ListVirtualServers_def listVirtualServers_def
  by (simp, rule triple_bind [OF triple_wrap [OF at_list_servers]])
    (auto intro!: triple_ret simp: ownSet_def lists_def)

lemma list_pools:
  "broker a = B \<Longrightarrow> triple (at v) (ListPools a cl) (\<lambda>xs b. set xs = ownPools [ownerTag a, clusterTag cl] v \<and> at v b) (\<lambda>_. at v)"
  unfolding ListPools_def listPools_def
  by (simp, rule triple_bind [OF triple_wrap [OF at_list_pools]])
    (auto intro!: triple_ret simp: ownSet_def lists_def)

lemma list_monitors_light:
  assumes "broker a = B"
  shows "triple (at v) (ListTCPMonitorLight a cl)
     (\<lambda>xs b. lm_Tags ` set xs = mon_Tags ` {x \<in> ownMonitors [ownerTag a, clusterTag cl] v. mon_ResourceType x = ''LbTcpMonitor''} \<and> at v b) (\<lambda>_. at v)"
  unfolding ListTCPMonitorLight_def assms
  by (rule triple_bind [OF triple_wrap [OF at_list_monitors]]) (intro triple_ret conjI, elim conjE, erule light_tags, elim conjE, assumption)

text \<open>The loop over the names that have no service any more.\<close>

lemma delete_orphaned_services:
  assumes p: "provider_ok B p" "allFree p"
  shows "triple (atP p v) (forIO (\<lambda>lb. if lb \<in> D then EnsureLoadBalancerDeleted ord cl (emptyService lb) else ret ()) lbs)
    (\<lambda>_. \<lambda>(p', b). provider_ok B p' \<and> allFree p' \<and> access (lbService p') = access (lbService p) \<and> (\<exists>v'. at v' b \<and>
       reorgKept (ownTags (access (lbService p)) cl ` (set lbs \<inter> D)) v v' \<and> (\<forall>d \<in> set lbs \<inter> D. emptied (ownTags (access (lbService p)) cl d) v')))
    (\<lambda>_. \<lambda>(p', b). provider_ok B p' \<and> allFree p' \<and> access (lbService p') = access (lbService p) \<and> (\<exists>v'. at v' b \<and>
       (\<exists>N \<subseteq> set lbs \<inter> D. reorgKept (ownTags (access (lbService p)) cl ` N) v v')))"
    (is "triple _ (forIO ?body lbs) _ ?E")
proof -
  let ?T = "ownTags (access (lbService p)) cl"
  let ?same = "\<lambda>p'. provider_ok B p' \<and> allFree p' \<and> access (lbService p') = access (lbService p)"
  let ?I = "\<lambda>ds. \<lambda>(p', b). ?same p' \<and> (\<exists>v'. at v' b \<and> reorgKept (?T ` (set ds \<inter> D)) v v' \<and> (\<forall>d \<in> set ds \<inter> D. emptied (?T d) v'))"
  have step: "triple (?I ds) (?body lb) (\<lambda>_. ?I (ds @ [lb])) ?E" if lbs: "lbs = ds @ lb # rest" for ds lb rest
  proof -
    have each: "triple (atP p1 v1) (?body lb) (\<lambda>_. ?I (ds @ [lb])) ?E"
      if s: "?same p1" "reorgKept (?T ` (set ds \<inter> D)) v v1" "\<forall>d \<in> set ds \<inter> D. emptied (?T d) v1" for p1 v1
    proof (cases "lb \<in> D")
      case True
      have name: "objectNameFromService (emptyService lb) = lb" by (simp add: objectNameFromService_def emptyService_def)
      have free: "keyLock p1 (serviceKey (emptyService lb)) \<noteq> Some True" using s(1) by (simp add: allFree_def)
      have ins: "set (ds @ [lb]) \<inter> D = insert lb (set ds \<inter> D)" using True by auto
      have sub: "insert lb (set ds \<inter> D) \<subseteq> set lbs \<inter> D" using True lbs by auto
      have kept: "reorgKept (?T ` insert lb (set ds \<inter> D)) v v2" if "others_kept (?T lb) v1 v2" for v2
        using reorgKept_step [OF s(2) that] by simp
      have gone: "emptied (?T d) v2" if "others_kept (?T lb) v1 v2" "emptied (?T lb) v2" "d \<in> insert lb (set ds \<inter> D)" for d v2
        using that emptied_kept [OF _ that(1,2)] s(3) by auto
      have free': "allFree p2" if "keyLock p2 = (keyLock p1)(k \<mapsto> False)" for p2 :: "'s lbProvider" and k
        using that s(1) by (simp add: allFree_def)
      have "triple (atP p1 v1) (EnsureLoadBalancerDeleted ord cl (emptyService lb)) (\<lambda>_. ?I (ds @ [lb])) ?E"
      proof (rule triple_post [OF ensure_load_balancer_deleted [OF conjunct1 [OF s(1)] free, unfolded name]], goal_cases)
        case (1 u w)
        obtain p2 b2 where w: "w = (p2, b2)" by (cases w)
        from 1 s(1) obtain v2 where "?same p2" "at v2 b2" "others_kept (?T lb) v1 v2" "emptied (?T lb) v2"
          unfolding w by (auto dest: free')
        with kept gone show ?case unfolding w ins by blast
      next
        case (2 e w)
        obtain p2 b2 where w: "w = (p2, b2)" by (cases w)
        from 2 s(1) obtain v2 where "?same p2" "at v2 b2" "others_kept (?T lb) v1 v2" unfolding w by (auto dest: free')
        with kept sub show ?case unfolding w by blast
      qed
      with True show ?thesis by simp
    next
      case False
      then have "set (ds @ [lb]) \<inter> D = set ds \<inter> D" by auto
      with False s show ?thesis by (auto intro!: triple_ret)
    qed
    then show ?thesis by (fastforce simp: triple_def)
  qed
  have "triple (?I []) (forIO ?body lbs) (\<lambda>_. ?I lbs) ?E" by (rule triple_for) (rule step)
  then show ?thesis by (rule triple_conseq) (use p in auto)
qed

lemma do_reorg_step:
  assumes p: "provider_ok B p" "allFree p"
    and named: "\<forall>tags \<in> artefactTags (access (lbService p)) cl v. wellNamed tags"
  shows "triple (atP p v) (doReorgStep ord names cl (Inr items))
    (\<lambda>_. \<lambda>(p', b). provider_ok B p' \<and> allFree p' \<and> access (lbService p') = access (lbService p) \<and> (\<exists>v'. at v' b \<and>
       reorgKept (ownTags (access (lbService p)) cl ` (artefactNames (access (lbService p)) cl v - liveNames items)) v v' \<and>
       (\<forall>d \<in> artefactNames (access (lbService p)) cl v - liveNames items. emptied (ownTags (access (lbService p)) cl d) v')))
    (\<lambda>_. \<lambda>(p', b). provider_ok B p' \<and> allFree p' \<and> access (lbService p') = access (lbService p) \<and> (\<exists>v'. at v' b \<and>
       (\<exists>N \<subseteq> artefactNames (access (lbService p)) cl v - liveNames items. reorgKept (ownTags (access (lbService p)) cl ` N) v v')))"
    (is "triple _ _ ?Q ?E")
proof -
  let ?a = "access (lbService p)" and ?T = "[ownerTag (access (lbService p)), clusterTag cl]"
  have a: "broker ?a = B" using p(1) by (simp add: provider_ok_def)
  have fail: "?E e (p, b)" if "at v b" for e b
    using that p by (auto intro!: exI [of _ v] exI [of _ "{}"])
  have names: "triple (atP p v) (bindIO (addNames objects lbs) g) ?Q ?E"
    if "set objects \<subseteq> artefactTags ?a cl v" "\<And>lbs'. set lbs' = set lbs \<union> {n. \<exists>tags \<in> set objects. nameOf tags = Some n} \<Longrightarrow> triple (atP p v) (g lbs') ?Q ?E"
    for objects lbs g
  proof (rule tripleI)
    fix w assume w: "atP p v w"
    from that(1) named have "\<forall>tags \<in> set objects. wellNamed tags" by blast
    from addNames_run [OF this, of lbs w] obtain lbs' where "addNames objects lbs w = (Ok lbs', w)"
      "set lbs' = set lbs \<union> {n. \<exists>tags \<in> set objects. nameOf tags = Some n}" by blast
    with tripleD [OF that(2) w] show "post ?Q ?E (bindIO (addNames objects lbs) g w)" by (simp add: bindIO_def)
  qed
  have loop: "triple (atP p v) (bindIO (getsIO (\<lambda>(_, b). rangeKeys names b lbs)) (forIO (\<lambda>lb.
      if (case map_of (servicesByName items) lb of None \<Rightarrow> True | Some svc \<Rightarrow> s_Type svc \<noteq> ServiceTypeLoadBalancer)
      then EnsureLoadBalancerDeleted ord cl (emptyService lb) else ret ()))) ?Q ?E"
    if lbs: "set lbs = artefactNames ?a cl v" for lbs
  proof (rule triple_bind [OF triple_gets, where R = "\<lambda>ks w. set ks = set lbs \<and> atP p v w"])
    fix ks
    have "set ks \<inter> - liveNames items = artefactNames ?a cl v - liveNames items" if "set ks = set lbs" using that lbs by auto
    then show "triple (\<lambda>w. set ks = set lbs \<and> atP p v w) (forIO (\<lambda>lb.
      if (case map_of (servicesByName items) lb of None \<Rightarrow> True | Some svc \<Rightarrow> s_Type svc \<noteq> ServiceTypeLoadBalancer)
      then EnsureLoadBalancerDeleted ord cl (emptyService lb) else ret ()) ks) ?Q ?E"
      using delete_orphaned_services [OF p, of v "- liveNames items" ord cl ks]
      by (intro triple_pure_pre) (simp only: orphaned_iff Compl_iff)
  qed auto
  show ?thesis
    unfolding doReorgStep_def sum.case Let_def
    apply (rule triple_onAccess_bind, rule list_virtual_servers [OF a])
    subgoal for servers
      apply (rule names)
      subgoal by (auto simp: artefactTags_def Let_def)
      apply (rule triple_onAccess_bind, rule list_pools [OF a])
      subgoal for lbs pools
        apply (rule names)
        subgoal by (auto simp: artefactTags_def Let_def)
        apply (rule triple_onAccess_bind, rule list_monitors_light [OF a])
        subgoal for lbs' monitors
          apply (rule names)
          subgoal by (auto simp: artefactTags_def Let_def)
          by (rule loop) (auto simp: artefactNames_def artefactTags_def Let_def)
        by (rule fail)
      by (rule fail)
    by (rule fail)
qed

end

section \<open>Properties of the loop\<close>

text \<open>
  C30. The periods of the loop, over every sequence of successful and failed runs: after every
  run the timer is set to at least half a second and at most thirty minutes, and the product
  that is computed for the next period never leaves the 64 bits of a duration. A failed run
  does not end the loop with an error.
\<close>

theorem reorg_period_bounds:
  assumes "timer_ok t"
  shows "(\<exists>t'. fst (reorg ord names cl signals t w) = Ok t' \<and> 500 * Millisecond \<le> timer t' \<and> timer t' \<le> maxPeriod \<and>
      0 \<le> lastErrNext t' \<and> 5 * lastErrNext t' < 2 ^ 63 \<and> int64 (5 * lastErrNext t') = 5 * lastErrNext t') \<or>
    (\<exists>m. fst (reorg ord names cl signals t w) = Panic m)"
  using assms
proof (induction signals arbitrary: t w)
  case Nil
  then have b: "0 \<le> lastErrNext t" "5 * lastErrNext t < 2 ^ 63"
    by (auto simp: timer_ok_def maxPeriod_def Minute_def Second_def Millisecond_def)
  with Nil int64_id [of "5 * lastErrNext t"] show ?case by (auto simp: ret_def timer_ok_def)
next
  case (Cons s signals)
  show ?case
  proof (cases s)
    case (Timer listed)
    obtain r w' where r: "doReorgStep ord names cl listed w = (r, w')" by (cases "doReorgStep ord names cl listed w")
    show ?thesis
      using Cons.IH [OF timer_ok_reset [OF Cons.prems]] by (cases r) (auto simp: Timer bindIO_def tryIO_def r)
  next
    case Stop
    then have b: "0 \<le> lastErrNext t" "5 * lastErrNext t < 2 ^ 63"
      using Cons.prems by (auto simp: timer_ok_def maxPeriod_def Minute_def Second_def Millisecond_def)
    with Cons.prems Stop int64_id [of "5 * lastErrNext t"] show ?thesis by (auto simp: ret_def timer_ok_def)
  qed
qed

theorem reorg_period_bounds_witness:
  "timer_ok newTimer \<and> (\<exists>t'. fst (reorg (\<lambda>_ ks. ks) (\<lambda>_ ks. ks) ''c'' [Timer (Inl (ApiError ''down'')), Timer (Inl (ApiError ''down'')), Stop] newTimer
     (undefined :: inmem lbProvider \<times> inmem)) = Ok t' \<and> timer t' \<le> maxPeriod \<and> timer t' = 625 * Millisecond)"
proof -
  have run: "fst (reorg (\<lambda>_ ks. ks) (\<lambda>_ ks. ks) ''c'' [Timer (Inl (ApiError ''down'')), Timer (Inl (ApiError ''down'')), Stop] newTimer
      (undefined :: inmem lbProvider \<times> inmem)) = Ok \<lparr>lastErrNext = 625 * Millisecond, timer = 625 * Millisecond\<rparr>"
    by (simp add: doReorgStep_def io_defs resetTimer_def newTimer_def nextErr_def int64_def signed_divide_int_def maxPeriod_def
        Minute_def Second_def Millisecond_def)
  from reorg_period_bounds [OF timer_ok_new, of "\<lambda>_ ks. ks" "\<lambda>_ ks. ks" "''c''"
      "[Timer (Inl (ApiError ''down'')), Timer (Inl (ApiError ''down'')), Stop]" "undefined :: inmem lbProvider \<times> inmem", unfolded run]
  show ?thesis using timer_ok_new unfolding run by auto
qed

text \<open>
  C31. The backoff grows until it stays at its limit: from the first failure on, every further
  failure in a row gives a longer period until thirty minutes are reached, which is after 38
  failures at the latest; one success starts it over.
\<close>

theorem backoff_reaches_limit:
  "(\<forall>n \<ge> 38. (nextErr ^^ n) 0 = maxPeriod) \<and>
   (\<forall>n > 0. (nextErr ^^ n) 0 < maxPeriod \<longrightarrow> (nextErr ^^ n) 0 < (nextErr ^^ Suc n) 0) \<and>
   lastErrNext (resetTimer False t) = 0 \<and> timer (resetTimer False t) = maxPeriod"
proof -
  have range: "500 * Millisecond \<le> (nextErr ^^ n) 0 \<and> (nextErr ^^ n) 0 \<le> maxPeriod" if "n > 0" for n
    using that
  proof (induction n)
    case (Suc n)
    have next_range: "500 * Millisecond \<le> nextErr d \<and> nextErr d \<le> maxPeriod" if "d = 0 \<or> 500 * Millisecond \<le> d \<and> d \<le> maxPeriod" for d
      using that nextErr_eq [OF that] by (auto simp: maxPeriod_def Minute_def Second_def Millisecond_def)
    from Suc.IH have "(nextErr ^^ n) 0 = 0 \<or> 500 * Millisecond \<le> (nextErr ^^ n) 0 \<and> (nextErr ^^ n) 0 \<le> maxPeriod"
      by (cases n) simp_all
    from next_range [OF this] show ?case by (simp only: funpow.simps o_apply)
  qed simp
  have at38: "(nextErr ^^ 38) 0 = maxPeriod"
    by (simp add: eval_nat_numeral nextErr_def int64_def signed_divide_int_def maxPeriod_def Minute_def Second_def Millisecond_def)
  have stays: "(nextErr ^^ (38 + k)) 0 = maxPeriod" for k
  proof (induction k)
    case (Suc k)
    have "nextErr maxPeriod = maxPeriod" by code_simp
    with Suc show ?case by (simp only: add_Suc_right funpow.simps o_apply)
  qed (simp only: at38 add_0_right)
  have grows: "(nextErr ^^ n) 0 < (nextErr ^^ Suc n) 0" if "n > 0" "(nextErr ^^ n) 0 < maxPeriod" for n
  proof -
    have "d < min maxPeriod (5 * d div 4)" if "500 * Millisecond \<le> d" "d < maxPeriod" for d :: int
      using that by (simp add: Millisecond_def)
    from this [of "(nextErr ^^ n) 0"] range [OF that(1)] that(2) nextErr_eq [of "(nextErr ^^ n) 0"]
    show ?thesis by (simp add: Millisecond_def)
  qed
  have "(nextErr ^^ n) 0 = maxPeriod" if "n \<ge> 38" for n
    using stays [of "n - 38"] that by (simp only: le_add_diff_inverse)
  moreover have "lastErrNext (resetTimer False t) = 0" "timer (resetTimer False t) = maxPeriod" by (simp_all add: resetTimer_def)
  ultimately show ?thesis using grows by blast
qed

theorem backoff_reaches_limit_witness:
  "(nextErr ^^ 40) 0 = 30 * Minute \<and> (nextErr ^^ 1) 0 < (nextErr ^^ Suc 1) 0"
proof -
  note all = backoff_reaches_limit [of newTimer]
  have "(nextErr ^^ 1) 0 < maxPeriod" by code_simp
  with conjunct1 [OF conjunct2 [OF all], rule_format, of 1] have "(nextErr ^^ 1) 0 < (nextErr ^^ Suc 1) 0" by (simp only: zero_less_one)
  moreover have "(nextErr ^^ 40) 0 = maxPeriod" by (rule conjunct1 [OF all, rule_format]) simp
  ultimately show ?thesis by (simp only: maxPeriod_def)
qed

end
