(* ===== verification/Reorg_Guarantees.thy ===== *)
theory Reorg_Guarantees
  imports Reorg LB_Guarantees
begin

text \<open>
  What a cleanup run guarantees: it spares the services that exist, and after a success only
  their objects are left; and where it fails.
\<close>

section \<open>Names and tags\<close>

lemma nn_String_inj:
  assumes "nn_String m = nn_String n" "CHR ''/'' \<notin> set (Namespace m)" "CHR ''/'' \<notin> set (Namespace n)"
  shows "m = n"
proof -
  have first: "takeWhile (\<lambda>c. c \<noteq> CHR ''/'') (nn_String x) = Namespace x" if "CHR ''/'' \<notin> set (Namespace x)" for x
    using that by (auto simp: nn_String_def takeWhile_append2 takeWhile_append)
  from first [OF assms(2)] first [OF assms(3)] assms(1) have "Namespace m = Namespace n" by simp
  with assms(1) show ?thesis by (simp add: nn_String_def)
qed

lemma ownTags_iff: "checkTags tags (ownTags a cl n) \<longleftrightarrow> checkTags tags [ownerTag a, clusterTag cl] \<and> checkTags tags [serviceTag n]"
  using checkTags_append [of tags "[ownerTag a, clusterTag cl]" "[serviceTag n]"] by simp

lemma ownTags_name:
  assumes "checkTags tags (ownTags a cl n)"
  shows "getTag tags ScopeService = nn_String n"
  using assms [unfolded ownTags_iff, THEN conjunct2, unfolded serviceTag_def] by (rule getTag_checkTags)

lemma nn_String_nonempty: "nn_String n \<noteq> ''''" "CHR ''/'' \<in> set (nn_String n)"
  by (simp_all add: nn_String_def)

lemma artefactTags_iff:
  "tags \<in> artefactTags a cl v \<longleftrightarrow> checkTags tags [ownerTag a, clusterTag cl] \<and>
     ((\<exists>k x. v_servers v k = Some x \<and> tags = vs_Tags x) \<or> (\<exists>k x. v_pools v k = Some x \<and> tags = pool_Tags x) \<or>
      (\<exists>k x. v_monitors v k = Some x \<and> mon_ResourceType x = ''LbTcpMonitor'' \<and> tags = mon_Tags x))"
  unfolding artefactTags_def Let_def ownSet_def by blast

lemma emptied_artefact: "emptied T v \<Longrightarrow> tags \<in> artefactTags a cl v \<Longrightarrow> \<not> checkTags tags T"
  unfolding emptied_def ownSet_def artefactTags_iff by blast

lemma kept_artefact:
  assumes "reorgKept TS v v'" "tags \<in> artefactTags a cl v'" "\<And>T. T \<in> TS \<Longrightarrow> \<not> checkTags tags T"
  shows "tags \<in> artefactTags a cl v"
proof -
  from assms(1) have "keptBut TS vs_Tags (v_servers v) (v_servers v')" "keptBut TS pool_Tags (v_pools v) (v_pools v')"
    "keptBut TS mon_Tags (v_monitors v) (v_monitors v')" by (simp_all add: reorgKept_def)
  with assms(2,3) show ?thesis unfolding keptBut_def artefactTags_iff by blast
qed

text \<open>
  The objects with given tags are the same in both views, with the same ids, and their virtual
  servers are attached to the same load balancer services.
\<close>

definition sameOwn :: "tag list \<Rightarrow> ('a \<Rightarrow> tag list) \<Rightarrow> ('k \<rightharpoonup> 'a) \<Rightarrow> ('k \<rightharpoonup> 'a) \<Rightarrow> bool" where
  "sameOwn S tags m m' \<longleftrightarrow> (\<forall>k x. checkTags (tags x) S \<longrightarrow> (m' k = Some x \<longleftrightarrow> m k = Some x))"

definition undisturbed :: "tag list \<Rightarrow> nsxt_view \<Rightarrow> nsxt_view \<Rightarrow> bool" where
  "undisturbed S v v' \<longleftrightarrow> sameOwn S vs_Tags (v_servers v) (v_servers v') \<and> sameOwn S pool_Tags (v_pools v) (v_pools v') \<and>
     sameOwn S mon_Tags (v_monitors v) (v_monitors v') \<and>
     (\<forall>k x. v_servers v k = Some x \<and> checkTags (vs_Tags x) S \<longrightarrow> attached v' k = attached v k)"

lemma sameOwn_refl [simp]: "sameOwn S tags m m"
  by (simp add: sameOwn_def)

lemma sameOwn_trans: "sameOwn S tags m m' \<Longrightarrow> sameOwn S tags m' m'' \<Longrightarrow> sameOwn S tags m m''"
  by (simp add: sameOwn_def)

lemma sameOwn_ownSet: "sameOwn S tags m m' \<Longrightarrow> ownSet (\<lambda>x. checkTags (tags x) S) m' = ownSet (\<lambda>x. checkTags (tags x) S) m"
  by (auto simp: sameOwn_def ownSet_def)

lemma keptBut_sameOwn:
  "keptBut TS tags m m' \<Longrightarrow> (\<And>ts T. checkTags ts S \<Longrightarrow> T \<in> TS \<Longrightarrow> \<not> checkTags ts T) \<Longrightarrow> sameOwn S tags m m'"
  by (simp add: keptBut_def sameOwn_def)

lemma undisturbed_own:
  assumes "undisturbed S v v'"
  shows "ownServers S v' = ownServers S v" "ownPools S v' = ownPools S v" "ownMonitors S v' = ownMonitors S v"
  using assms by (simp_all add: undisturbed_def sameOwn_ownSet)

lemma undisturbed_refl [simp]: "undisturbed S v v"
  by (simp add: undisturbed_def)

lemma undisturbed_trans:
  assumes "undisturbed S v v'" "undisturbed S v' v''"
  shows "undisturbed S v v''"
proof -
  have "attached v'' k = attached v k" if x: "v_servers v k = Some x" "checkTags (vs_Tags x) S" for k x
  proof -
    from x assms(1) have "v_servers v' k = Some x" "attached v' k = attached v k" by (auto simp: undisturbed_def sameOwn_def)
    with x(2) assms(2) show ?thesis by (simp add: undisturbed_def)
  qed
  with assms show ?thesis by (auto simp: undisturbed_def elim: sameOwn_trans)
qed

lemma kept_undisturbed:
  assumes kept: "reorgKept TS v v'" and other: "\<And>tags T. checkTags tags S \<Longrightarrow> T \<in> TS \<Longrightarrow> \<not> checkTags tags T"
  shows "undisturbed S v v'"
proof -
  have "attached v' k = attached v k" if "v_servers v k = Some x" "checkTags (vs_Tags x) S" for k x
    using that kept other [OF that(2)] by (simp add: reorgKept_def)
  moreover have "sameOwn S vs_Tags (v_servers v) (v_servers v')" "sameOwn S pool_Tags (v_pools v) (v_pools v')"
    "sameOwn S mon_Tags (v_monitors v) (v_monitors v')"
    using kept [unfolded reorgKept_def] keptBut_sameOwn [of TS _ _ _ S, OF _ other] by blast+
  ultimately show ?thesis by (simp add: undisturbed_def)
qed

section \<open>Runs\<close>

lemma reorg_outcome:
  assumes backend: "nsxt_backend B invar view mt" and p: "provider_ok B p" "allFree p" and b: "invar b"
    and named: "\<forall>tags \<in> artefactTags (access (lbService p)) cl (view b). wellNamed tags"
  obtains (Ok) p' b' where "doReorgStep ord names cl (Inr items) (p, b) = (Ok (), (p', b'))" "invar b'" "provider_ok B p'" "allFree p'"
      "reorgKept (ownTags (access (lbService p)) cl ` (artefactNames (access (lbService p)) cl (view b) - liveNames items)) (view b) (view b')"
      "\<forall>d \<in> artefactNames (access (lbService p)) cl (view b) - liveNames items. emptied (ownTags (access (lbService p)) cl d) (view b')"
    | (Err) e p' b' N where "doReorgStep ord names cl (Inr items) (p, b) = (Err e, (p', b'))" "invar b'" "provider_ok B p'" "allFree p'"
      "N \<subseteq> artefactNames (access (lbService p)) cl (view b) - liveNames items"
      "reorgKept (ownTags (access (lbService p)) cl ` N) (view b) (view b')"
proof -
  note at = nsxt_backend.at_def [OF backend]
  have start: "(\<lambda>(p', b'). p' = p \<and> nsxt_backend.at invar view (view b) b') (p, b)" using b by (simp add: at)
  from nsxt_backend.do_reorg_step [OF backend p named, of ord names items] start show thesis
    by (cases rule: triple_elim) (auto simp: at intro: Ok Err)
qed

lemma spared:
  assumes named: "\<forall>tags \<in> artefactTags a cl v. wellNamed tags" and N: "N \<subseteq> artefactNames a cl v - liveNames items"
    and n: "n \<in> liveNames items" "CHR ''/'' \<notin> set (Namespace n)" and x: "checkTags tags (ownTags a cl n)" and d: "d \<in> N"
  shows "\<not> checkTags tags (ownTags a cl d)"
proof
  assume "checkTags tags (ownTags a cl d)"
  with x have "nn_String d = nn_String n" using ownTags_name by metis
  moreover have "CHR ''/'' \<notin> set (Namespace d)"
    using d N named nameOf_slash unfolding artefactNames_def by blast
  ultimately have "d = n" using n(2) nn_String_inj by blast
  with d N n(1) show False by blast
qed

text \<open>
  C5. A cleanup run never touches what belongs to an existing service of type load balancer:
  also when a call fails and the run stops, every virtual server, pool and monitor with the
  tags of such a service and every attachment of its virtual servers is exactly as before, and
  none appears. The run does not panic and gives back every lock, provided every service tag in
  the cluster has a slash.
\<close>

theorem reorg_spares_services:
  assumes "nsxt_backend B invar view mt" "provider_ok B p" "allFree p" "invar b"
    and named: "\<forall>tags \<in> artefactTags (access (lbService p)) cl (view b). wellNamed tags"
    and svc: "svc \<in> set items" "s_Type svc = ServiceTypeLoadBalancer" "CHR ''/'' \<notin> set (s_Namespace svc)"
  shows "\<exists>r p' b'. doReorgStep ord names cl (Inr items) (p, b) = (r, (p', b')) \<and> (\<forall>m. r \<noteq> Panic m) \<and> invar b' \<and> allFree p' \<and>
    undisturbed (serviceTags p cl svc) (view b) (view b')"
proof -
  let ?a = "access (lbService p)" and ?n = "objectNameFromService svc"
  have n: "?n \<in> liveNames items" "CHR ''/'' \<notin> set (Namespace ?n)" using svc by (simp_all add: objectNameFromService_def)
  have kept: "undisturbed (serviceTags p cl svc) (view b) v'"
    if k: "reorgKept (ownTags ?a cl ` N) (view b) v'" and N: "N \<subseteq> artefactNames ?a cl (view b) - liveNames items" for N v'
    using k by (rule kept_undisturbed) (use spared [OF named N n] in blast)
  show ?thesis
    by (rule reorg_outcome [OF assms(1-5), of ord names items]) (use kept in \<open>blast intro: order_refl\<close>)+
qed


section \<open>Runs of the simulation\<close>

lemma index_by_member: "index_by key xs k = Some x \<Longrightarrow> x \<in> set xs"
  by (auto simp: index_by_def dest: map_of_SomeD)

lemma inmem_artefacts:
  "artefactTags a cl (inmem_view b) \<subseteq> vs_Tags ` set (lbVirtualServers b) \<union> pool_Tags ` set (lbPools b) \<union> mon_Tags ` set (lbMonitors b)"
proof -
  show ?thesis
    unfolding artefactTags_iff inmem_view_def subset_iff by (auto dest!: index_by_member)
qed

lemma example_full_tags:
  "vs_Tags ` set (lbVirtualServers example_full) \<union> pool_Tags ` set (lbPools example_full) \<union> mon_Tags ` set (lbMonitors example_full) \<subseteq>
   {tags. getTag tags ScopeService = ''shop/web''}"
  by (simp add: example_full_def example_tags example_service_fields Let_def getTag_def ScopeService_def portTag_def ScopePort_def)

lemma example_full_named: "\<forall>tags \<in> artefactTags (access (lbService example_busy)) ''c'' (inmem_view example_full). wellNamed tags"
proof
  fix tags assume "tags \<in> artefactTags (access (lbService example_busy)) ''c'' (inmem_view example_full)"
  with inmem_artefacts example_full_tags have "getTag tags ScopeService = ''shop/web''" by blast
  then show "wellNamed tags" by (simp add: wellNamed_def)
qed

lemma example_all_free: "allFree example_busy"
  by (simp add: allFree_def example_busy_def)

lemma example_type: "s_Type example_service = ''LoadBalancer''"
  by (simp add: example_service_def)

lemma objectNameFromService_emptyService:
  "objectNameFromService \<lparr>s_Namespace = Namespace lb, s_Name = Name lb, s_Annotations = an, s_Type = ty, s_Ports = ps, s_Ingress = ing\<rparr> = lb"
  by (simp add: objectNameFromService_def)

lemma example_parsed: "parseObjectName ''shop/web'' = Ok example_name"
  by (simp add: parseObjectName_def example_name_def)

lemma example_reorg:
  "doReorgStep (\<lambda>_ ks. ks) (\<lambda>_ ks. ks) ''c'' (Inr [example_service]) (example_busy, example_full) = (Ok (), (example_busy, example_full))"
  by (simp add: example_full_def example_busy_def newMember_def example_type example_parsed doReorgStep_def onAccess_def addNames_def
      servicesByName_def ServiceTypeLoadBalancer_def run_example cong: run_cong)

theorem reorg_spares_services_witness:
  "\<exists>r p' b'. doReorgStep (\<lambda>_ ks. ks) (\<lambda>_ ks. ks) ''c'' (Inr [example_service]) (example_busy, example_full) = (r, (p', b')) \<and>
     (\<forall>m. r \<noteq> Panic m) \<and> allFree p' \<and>
     ownServers (serviceTags example_busy ''c'' example_service) (inmem_view b') =
       ownServers (serviceTags example_busy ''c'' example_service) (inmem_view example_full)"
proof -
  have "s_Type example_service = ServiceTypeLoadBalancer" "CHR ''/'' \<notin> set (s_Namespace example_service)"
    by (simp_all add: example_type ServiceTypeLoadBalancer_def) (simp add: example_service_def)
  from reorg_spares_services [OF im.nsxt_backend_axioms example_ok(2) example_all_free example_full_inv example_full_named
      list.set_intros(1) [of example_service "[]"] this] show ?thesis by (blast dest: undisturbed_own(1))
qed




end
