(* ===== verification/Histories.thy ===== *)
theory Histories
  imports Reorg_Guarantees Member_Update
begin

text \<open>
  Sequences of operations: the cloud controller manager calls ensure, update and delete for
  any services in any order, and the cleanup runs in between. A failed operation is followed
  by the next one. One operation after the other: the lock of a service makes the operations
  on it one step, the operations on different services are taken in the order they finish.
\<close>

section \<open>Requests\<close>

datatype request =
    EnsureRequest Service "Node list"
  | UpdateRequest Service "Node list"
  | DeleteRequest Service
  | CleanupRequest "error + Service list"

fun handle :: "('s, string) order \<Rightarrow> ('s, NamespacedName) order \<Rightarrow> string \<Rightarrow> request \<Rightarrow> ('s lbProvider \<times> 's, unit) io" where
  "handle ord names cl (EnsureRequest svc ns) =
     bindIO (EnsureLoadBalancer ord cl svc ns) (\<lambda>(_, err). case err of None \<Rightarrow> ret () | Some e \<Rightarrow> throw e)"
| "handle ord names cl (UpdateRequest svc ns) = UpdateLoadBalancer ord cl svc ns"
| "handle ord names cl (DeleteRequest svc) = EnsureLoadBalancerDeleted ord cl svc"
| "handle ord names cl (CleanupRequest listed) = doReorgStep ord names cl listed"

definition serve ::
  "('s, string) order \<Rightarrow> ('s, NamespacedName) order \<Rightarrow> string \<Rightarrow> request list \<Rightarrow> ('s lbProvider \<times> 's, unit) io" where
  "serve ord names cl rs = forIO (\<lambda>r. bindIO (tryIO (handle ord names cl r)) (\<lambda>_. ret ())) rs"

text \<open>The request is for another service, or a cleanup that sees the service in the list of the cluster.\<close>

fun spares :: "Service \<Rightarrow> request \<Rightarrow> bool" where
  "spares svc (EnsureRequest s ns) \<longleftrightarrow> serviceKey s \<noteq> serviceKey svc"
| "spares svc (UpdateRequest s ns) \<longleftrightarrow> serviceKey s \<noteq> serviceKey svc"
| "spares svc (DeleteRequest s) \<longleftrightarrow> serviceKey s \<noteq> serviceKey svc"
| "spares svc (CleanupRequest (Inl e)) \<longleftrightarrow> True"
| "spares svc (CleanupRequest (Inr items)) \<longleftrightarrow>
     list_ex (\<lambda>s. s_Type s = ServiceTypeLoadBalancer \<and> objectNameFromService s = objectNameFromService svc) items"

text \<open>The cleanup goroutine is a sequence of cleanup requests.\<close>

fun cleanups :: "signal list \<Rightarrow> request list" where
  "cleanups [] = []"
| "cleanups (Stop # signals) = []"
| "cleanups (Timer listed # signals) = CleanupRequest listed # cleanups signals"

lemma reorg_requests: "bindIO (reorg ord names cl signals t) (\<lambda>_. ret ()) w = serve ord names cl (cleanups signals) w"
proof (induction signals arbitrary: t w rule: cleanups.induct)
  case (3 listed signals)
  have rest: "bindIO (reorg ord names cl signals t) (\<lambda>_. ret ()) = serve ord names cl (cleanups signals)" for t
    by (rule ext) (rule "3.IH")
  show ?case by (simp add: bindIO_assoc rest) (simp add: serve_def bindIO_assoc)
qed (simp_all add: serve_def bindIO_def ret_def)

lemma cleanup_goroutine: "lbProvider_Initialize ord names cl signals = serve ord names cl (cleanups signals)"
  by (rule ext) (simp add: lbProvider_Initialize_def reorg_requests)

section \<open>One request\<close>

definition named :: "'s access \<Rightarrow> string \<Rightarrow> nsxt_view \<Rightarrow> bool" where
  "named a cl v \<longleftrightarrow> (\<forall>tags \<in> artefactTags a cl v. wellNamed tags)"

text \<open>
  The services whose objects changed, by name: none of them is one that the request spares.
\<close>

definition handled :: "'s access \<Rightarrow> string \<Rightarrow> request \<Rightarrow> nsxt_view \<Rightarrow> nsxt_view \<Rightarrow> bool" where
  "handled a cl r v v' \<longleftrightarrow> (\<exists>N. reorgKept (ownTags a cl ` N) v v' \<and>
     (\<forall>svc. spares svc r \<and> CHR ''/'' \<notin> set (s_Namespace svc) \<longrightarrow> serviceKey svc \<notin> nn_String ` N))"

lemma kept_named:
  assumes "reorgKept (ownTags a cl ` N) v v'" "named a cl v"
  shows "named a cl v'"
  unfolding named_def
proof
  fix tags assume tags: "tags \<in> artefactTags a cl v'"
  show "wellNamed tags"
  proof (cases "\<exists>n \<in> N. checkTags tags (ownTags a cl n)")
    case True
    then show ?thesis using ownTags_name nn_String_nonempty(2) by (fastforce simp: wellNamed_def)
  next
    case False
    with kept_artefact [OF assms(1) tags] assms(2) show ?thesis by (auto simp: named_def)
  qed
qed

lemma handled_named: "handled a cl r v v' \<Longrightarrow> named a cl v \<Longrightarrow> named a cl v'"
  unfolding handled_def by (blast intro: kept_named)

lemma handled_undisturbed:
  assumes "handled a cl r v v'" "spares svc r" "CHR ''/'' \<notin> set (s_Namespace svc)"
  shows "undisturbed (ownTags a cl (objectNameFromService svc)) v v'"
proof -
  from assms obtain N where N: "reorgKept (ownTags a cl ` N) v v'" "serviceKey svc \<notin> nn_String ` N" unfolding handled_def by blast
  from N(1) show ?thesis
  proof (rule kept_undisturbed)
    fix tags T assume tags: "checkTags tags (ownTags a cl (objectNameFromService svc))" and "T \<in> ownTags a cl ` N"
    then obtain n where "n \<in> N" "T = ownTags a cl n" by blast
    with tags N(2) show "\<not> checkTags tags T" by (metis image_eqI ownTags_name)
  qed
qed

lemma handledI:
  assumes "others_kept (ownTags a cl (objectNameFromService s)) v v'" "\<And>svc. spares svc r \<Longrightarrow> serviceKey s \<noteq> serviceKey svc"
  shows "handled a cl r v v'"
  unfolding handled_def
  using others_kept_reorg [OF assms(1)] assms(2) by (intro exI [of _ "{objectNameFromService s}"]) fastforce

lemma handled_same: "handled a cl r v v"
  unfolding handled_def by (intro exI [of _ "{}"]) simp

lemma handled_cleanup:
  assumes "named a cl v" "N \<subseteq> artefactNames a cl v - liveNames items" "reorgKept (ownTags a cl ` N) v v'"
  shows "handled a cl (CleanupRequest (Inr items)) v v'"
  unfolding handled_def
proof (intro exI conjI allI impI, rule assms(3), elim conjE, rule notI)
  fix svc assume sp: "spares svc (CleanupRequest (Inr items))" and ns: "CHR ''/'' \<notin> set (s_Namespace svc)"
    and "serviceKey svc \<in> nn_String ` N"
  then obtain d where d: "d \<in> N" "nn_String d = serviceKey svc" by auto
  have "CHR ''/'' \<notin> set (Namespace d)"
    using d assms(1,2) nameOf_slash unfolding artefactNames_def named_def by blast
  with d(2) ns have "d = objectNameFromService svc" by (intro nn_String_inj) (auto simp: objectNameFromService_def)
  moreover have "objectNameFromService svc \<in> liveNames items" using sp by (auto simp: list_ex_iff) (metis (mono_tags, lifting) image_eqI mem_Collect_eq)
  ultimately show False using d(1) assms(2) by blast
qed

lemma poolsOnly_others:
  assumes "poolsOnly tg v v'"
  shows "others_kept tg v v'"
proof -
  from assms obtain q where "v' = v\<lparr>v_pools := q\<rparr>" unfolding poolsOnly_def by blast
  then have "v_servers v' = v_servers v" "v_monitors v' = v_monitors v" "attached v' = attached v"
    by (simp_all add: attached_def fun_eq_iff)
  with assms show ?thesis by (simp add: poolsOnly_def others_kept_def)
qed

context nsxt_backend
begin

text \<open>A provider that can take requests, on a view where every service tag is a name.\<close>

abbreviation ready :: "'s access \<Rightarrow> string \<Rightarrow> 's lbProvider \<Rightarrow> nsxt_view \<Rightarrow> bool" where
  "ready a cl p v \<equiv> provider_ok B p \<and> allFree p \<and> access (lbService p) = a \<and> named a cl v"

abbreviation "afterRequest a cl r v \<equiv> \<lambda>(p', b). \<exists>v'. at v' b \<and> ready a cl p' v' \<and> handled a cl r v v'"

lemma afterRequestI:
  assumes "ready a cl p v" "\<And>svc. spares svc r \<Longrightarrow> serviceKey s \<noteq> serviceKey svc"
    "case w of (p', b) \<Rightarrow> provider_ok B p' \<and> access (lbService p') = access (lbService p) \<and>
       keyLock p' = (keyLock p)(serviceKey s \<mapsto> False) \<and> (\<exists>v'. at v' b \<and> others_kept (serviceTags p cl s) v v')"
  shows "afterRequest a cl r v w"
proof -
  obtain p' b where w: "w = (p', b)" by (cases w)
  with assms(3) obtain v' where p': "provider_ok B p'" "access (lbService p') = access (lbService p)"
    "keyLock p' = (keyLock p)(serviceKey s \<mapsto> False)" "at v' b" and "others_kept (serviceTags p cl s) v v'" by auto
  then have "handled a cl r v v'" using assms(1) by (intro handledI [OF _ assms(2)]) simp_all
  with assms(1) p' handled_named [OF this] show ?thesis unfolding w by (auto simp: allFree_def)
qed

lemma handle_cleanup:
  assumes "ready a cl p v"
  shows "triple (atP p v) (doReorgStep ord names cl listed) (\<lambda>_. afterRequest a cl (CleanupRequest listed) v)
    (\<lambda>_. afterRequest a cl (CleanupRequest listed) v)"
proof (cases listed)
  case (Inl e)
  then show ?thesis unfolding doReorgStep_def using assms by (auto intro!: triple_throw handled_same)
next
  case (Inr items)
  have p: "provider_ok B p" "allFree p" "\<forall>tags \<in> artefactTags (access (lbService p)) cl v. wellNamed tags" "named a cl v"
    "access (lbService p) = a" using assms by (auto simp: named_def)
  have finished: "afterRequest a cl (CleanupRequest (Inr items)) v (p', b)"
    if "provider_ok B p'" "allFree p'" "access (lbService p') = access (lbService p)" "at v' b"
      "N \<subseteq> artefactNames a cl v - liveNames items" "reorgKept (ownTags a cl ` N) v v'" for N v' p' b
    using that p(5) handled_cleanup [OF p(4) that(5,6)] handled_named [OF _ p(4)] by auto
  show ?thesis
    unfolding Inr by (rule triple_post [OF do_reorg_step [OF p(1-3)]]) (use finished p(5) in \<open>blast intro: order_refl\<close>)+
qed

lemma handle_request:
  assumes "ready a cl p v"
  shows "triple (atP p v) (handle ord names cl r) (\<lambda>_. afterRequest a cl r v) (\<lambda>_. afterRequest a cl r v)"
proof (cases r)
  case (EnsureRequest svc ns)
  have free: "keyLock p (serviceKey svc) \<noteq> Some True" using assms by (simp add: allFree_def)
  show ?thesis
    unfolding EnsureRequest handle.simps
  proof (rule triple_bindE [OF ensure_load_balancer [OF conjunct1 [OF assms] free]], goal_cases)
    case (1 res)
    obtain status err where res: "res = (status, err)" by (cases res)
    have "triple (afterRequest a cl (EnsureRequest svc ns) v) (case err of None \<Rightarrow> ret () | Some e \<Rightarrow> throw e)
        (\<lambda>_. afterRequest a cl (EnsureRequest svc ns) v) (\<lambda>_. afterRequest a cl (EnsureRequest svc ns) v)"
      by (intro triple_option triple_ret triple_throw)
    then show ?case
      unfolding res prod.case
      by (rule triple_pre, intro afterRequestI [OF assms, of _ svc]) (use ensured_frame(1) in fastforce)+
  qed auto
next
  case (UpdateRequest svc ns)
  have free: "keyLock p (serviceKey svc) \<noteq> Some True" using assms by (simp add: allFree_def)
  have ok: "provider_ok B (p\<lparr>keyLock := k\<rparr>)" for k using assms by (auto simp: provider_ok_def)
  show ?thesis
    unfolding UpdateRequest handle.simps
    by (rule triple_post [OF update_load_balancer [OF conjunct1 [OF assms] free]]; rule afterRequestI [OF assms, of _ svc])
      (auto simp: ok membersUpdated_def intro: poolsOnly_others)
next
  case (DeleteRequest svc)
  have free: "keyLock p (serviceKey svc) \<noteq> Some True" using assms by (simp add: allFree_def)
  show ?thesis
    unfolding DeleteRequest handle.simps
    by (rule triple_post [OF ensure_load_balancer_deleted [OF conjunct1 [OF assms] free]]; rule afterRequestI [OF assms, of _ svc]) auto
next
  case (CleanupRequest listed)
  show ?thesis unfolding CleanupRequest handle.simps by (rule handle_cleanup [OF assms])
qed

end

section \<open>Sequences of requests\<close>

text \<open>
  What is needed of a server of requests: from a state in which it is fit it takes every request,
  does not panic, is fit again and has moved as the request allows. Then it takes any sequence of
  requests, failed ones included, and a relation that every move respects holds of the whole.
\<close>

locale request_server =
  fixes perform :: "'r \<Rightarrow> ('w, unit) io" and fit :: "'w \<Rightarrow> bool" and moved :: "'r \<Rightarrow> 'w \<Rightarrow> 'w \<Rightarrow> bool"
  assumes perform: "fit w \<Longrightarrow> triple (\<lambda>x. x = w) (perform q) (\<lambda>_ x. fit x \<and> moved q w x) (\<lambda>_ x. fit x \<and> moved q w x)"
begin

lemma perform_one:
  assumes "fit w"
  obtains w' where "bindIO (tryIO (perform q)) (\<lambda>_. ret ()) w = (Ok (), w')" "fit w'" "moved q w w'"
  using perform [OF assms, of q] by (cases rule: triple_elim [of _ _ _ _ w]) (auto simp: bindIO_def tryIO_def ret_def)

lemma perform_all:
  assumes "fit w" "\<And>x. R x x" "\<And>x y z. R x y \<Longrightarrow> R y z \<Longrightarrow> R x z" "\<And>q x y. q \<in> set qs \<Longrightarrow> moved q x y \<Longrightarrow> R x y"
  shows "\<exists>w'. forIO (\<lambda>q. bindIO (tryIO (perform q)) (\<lambda>_. ret ())) qs w = (Ok (), w') \<and> fit w' \<and> R w w'"
  using assms(1,4)
proof (induction qs arbitrary: w)
  case Nil
  then show ?case using assms(2) by (auto simp: ret_def)
next
  case (Cons q qs)
  from Cons.prems(1) obtain w1 where w1: "bindIO (tryIO (perform q)) (\<lambda>_. ret ()) w = (Ok (), w1)" "fit w1" "moved q w w1"
    by (rule perform_one)
  from Cons.IH [OF w1(2)] Cons.prems(2) obtain w'
    where "forIO (\<lambda>q. bindIO (tryIO (perform q)) (\<lambda>_. ret ())) qs w1 = (Ok (), w')" "fit w'" "R w1 w'" by auto
  moreover have "R w w1" by (rule Cons.prems(2) [OF _ w1(3)]) simp
  ultimately show ?case using assms(3) w1(1) unfolding forIO_simps by (auto simp: bindIO_def [of "bindIO _ _"])
qed

end

text \<open>A provider on any backend with the contract is such a server.\<close>

sublocale nsxt_backend \<subseteq> rs: request_server "handle ord names cl" "\<lambda>(p, b). invar b \<and> ready a cl p (view b)"
    "\<lambda>r (p, b) (p', b'). handled a cl r (view b) (view b')" for ord names cl a
proof
  fix w q
  assume "case w of (p, b) \<Rightarrow> invar b \<and> ready a cl p (view b)"
  then obtain p b where w: "w = (p, b)" "invar b" "ready a cl p (view b)" by (cases w) auto
  show "triple (\<lambda>x. x = w) (handle ord names cl q)
      (\<lambda>_ x. (case x of (p, b) \<Rightarrow> invar b \<and> ready a cl p (view b)) \<and> (case w of (p, b) \<Rightarrow> \<lambda>(p', b'). handled a cl q (view b) (view b')) x)
      (\<lambda>_ x. (case x of (p, b) \<Rightarrow> invar b \<and> ready a cl p (view b)) \<and> (case w of (p, b) \<Rightarrow> \<lambda>(p', b'). handled a cl q (view b) (view b')) x)"
    by (rule triple_conseq [OF handle_request [OF w(3), of ord names q]]) (auto simp: at_def w)
qed

context nsxt_backend
begin

lemma serve_requests:
  assumes "ready a cl p (view b)" "invar b"
  shows "\<exists>p' b'. serve ord names cl rs (p, b) = (Ok (), (p', b')) \<and> invar b' \<and> ready a cl p' (view b') \<and>
    (\<forall>svc. list_all (spares svc) rs \<and> CHR ''/'' \<notin> set (s_Namespace svc) \<longrightarrow>
       undisturbed (ownTags a cl (objectNameFromService svc)) (view b) (view b'))"
proof -
  let ?R = "\<lambda>(p, b) (p', b'). \<forall>svc. list_all (spares svc) rs \<and> CHR ''/'' \<notin> set (s_Namespace svc) \<longrightarrow>
      undisturbed (ownTags a cl (objectNameFromService svc)) (view b) (view b')"
  have "\<exists>w'. serve ord names cl rs (p, b) = (Ok (), w') \<and> (case w' of (p, b) \<Rightarrow> invar b \<and> ready a cl p (view b)) \<and> ?R (p, b) w'"
    unfolding serve_def
    by (rule rs.perform_all [where a = a])
      (use assms in \<open>auto simp: list_all_iff split: prod.splits intro: handled_undisturbed elim!: undisturbed_trans\<close>)
  then show ?thesis by (auto split: prod.splits)
qed

end

section \<open>Properties\<close>

lemma requests_outcome:
  assumes backend: "nsxt_backend B invar view mt" and p: "provider_ok B p" "allFree p" and b: "invar b"
    and named: "named (access (lbService p)) cl (view b)"
  obtains p' b' where "serve ord names cl rs (p, b) = (Ok (), (p', b'))" "invar b'" "provider_ok B p'" "allFree p'"
    "access (lbService p') = access (lbService p)" "named (access (lbService p)) cl (view b')"
    "\<And>svc. list_all (spares svc) rs \<Longrightarrow> CHR ''/'' \<notin> set (s_Namespace svc) \<Longrightarrow> undisturbed (serviceTags p cl svc) (view b) (view b')"
proof -
  have "provider_ok B p \<and> allFree p \<and> access (lbService p) = access (lbService p) \<and> named (access (lbService p)) cl (view b)"
    using p named by simp
  from nsxt_backend.serve_requests [OF backend this b, of ord names rs] show thesis by (auto intro: that)
qed

text \<open>
  C14. Any sequence of requests, whatever fails: none of them panics or waits for a lock that is
  never given back, the provider can take the next request, the backend keeps its invariant and
  every service tag stays a name that a cleanup can read. The objects and attachments of every
  service that all the requests spare are as before: those for other services do not touch it, nor
  do the cleanups that see it among the services of the cluster.
\<close>

theorem requests_isolate_services:
  assumes "nsxt_backend B invar view mt" "provider_ok B p" "allFree p" "invar b" "named (access (lbService p)) cl (view b)"
  shows "\<exists>p' b'. serve ord names cl rs (p, b) = (Ok (), (p', b')) \<and> invar b' \<and> provider_ok B p' \<and> allFree p' \<and>
    named (access (lbService p)) cl (view b') \<and>
    (\<forall>svc. list_all (spares svc) rs \<and> CHR ''/'' \<notin> set (s_Namespace svc) \<longrightarrow>
       undisturbed (serviceTags p cl svc) (view b) (view b'))"
  by (rule requests_outcome [OF assms, of ord names rs]) blast

text \<open>
  C6. A service stays served: after a successful ensure, and after any further requests that spare
  the service, every port still has its virtual server, pool and monitor with the nodes of the
  ensure as members, nothing else is there, and the virtual servers are attached as they were.
\<close>

theorem ensured_service_stays_served:
  assumes backend: "nsxt_backend B invar view mt" and p: "provider_ok B p" "allFree p" and b: "invar b"
    and named: "named (access (lbService p)) cl (view b)"
    and run: "EnsureLoadBalancer ord cl svc ns (p, b) = (Ok (status, None), (p1, b1))"
    and svc: "s_Ports svc \<noteq> []" "distinct (map portKey (s_Ports svc))" "CHR ''/'' \<notin> set (s_Namespace svc)"
    and pools: "\<forall>q \<in> ownPools (serviceTags p cl svc) (view b). distinctMembers q"
    and rs: "list_all (spares svc) rs"
  shows "\<exists>p2 b2. serve ord' names cl rs (p1, b1) = (Ok (), (p2, b2)) \<and> noOrphans (serviceTags p cl svc) (s_Ports svc) (view b2) \<and>
    (\<forall>port \<in> set (s_Ports svc). servedBy True ns (ownServers (serviceTags p cl svc) (view b2))
       (ownPools (serviceTags p cl svc) (view b2)) (ownMonitors (serviceTags p cl svc) (view b2)) port) \<and>
    undisturbed (serviceTags p cl svc) (view b1) (view b2)"
proof -
  let ?tg = "serviceTags p cl svc"
  have free: "keyLock p (serviceKey svc) \<noteq> Some True" using p(2) by (simp add: allFree_def)
  from ensure_success [OF backend p(1) free b run] svc(1) obtain c s'
    where P: "processed ?tg c (newState cl svc ns) (view b) s' (view b1)" by metis
  have served: "noOrphans ?tg (s_Ports svc) (view b1)"
    "\<forall>port \<in> set (s_Ports svc). servedBy True ns (ownServers ?tg (view b1)) (ownPools ?tg (view b1)) (ownMonitors ?tg (view b1)) port"
    using P svc(2) pools by (simp_all add: processed_def Let_def)
  have p1: "invar b1" "provider_ok B p1" "access (lbService p1) = access (lbService p)" "keyLock p1 = (keyLock p)(serviceKey svc \<mapsto> False)"
    by (rule ensure_outcome [OF backend p(1) free b, of ord cl ns]; use run in simp)+
  have "others_kept ?tg (view b) (view b1)" using processed_safe [OF P] by (simp add: safe_def)
  then have "reorgKept (ownTags (access (lbService p)) cl ` {objectNameFromService svc}) (view b) (view b1)"
    by (simp add: others_kept_reorg)
  from kept_named [OF this named] have named1: "named (access (lbService p1)) cl (view b1)" by (simp add: p1(3))
  have free1: "allFree p1" using p(2) by (simp add: allFree_def p1(4))
  show ?thesis
  proof (rule requests_outcome [OF backend p1(2) free1 p1(1) named1, of ord' names rs])
    fix p2 b2 assume r: "serve ord' names cl rs (p1, b1) = (Ok (), (p2, b2))"
      and "\<And>svc. list_all (spares svc) rs \<Longrightarrow> CHR ''/'' \<notin> set (s_Namespace svc) \<Longrightarrow> undisturbed (serviceTags p1 cl svc) (view b1) (view b2)"
    then have un: "undisturbed ?tg (view b1) (view b2)" using rs svc(3) unfolding p1(3) by blast
    from served have "noOrphans ?tg (s_Ports svc) (view b2)"
      "\<forall>port \<in> set (s_Ports svc). servedBy True ns (ownServers ?tg (view b2)) (ownPools ?tg (view b2)) (ownMonitors ?tg (view b2)) port"
      unfolding noOrphans_def undisturbed_own [OF un] by blast+
    with r un show ?thesis by blast
  qed
qed

section \<open>Requests in simulation mode\<close>

definition example_other :: Service where
  "example_other = example_service\<lparr>s_Name := ''api''\<rparr>"

definition example_requests :: "request list" where
  "example_requests = [EnsureRequest example_other example_nodes, CleanupRequest (Inr [example_service]), DeleteRequest example_other,
     CleanupRequest (Inl (ApiError ''timeout''))]"

lemma example_requests_spare: "list_all (spares example_service) example_requests"
  by (simp add: example_requests_def example_other_def example_service_def objectNameFromService_def nn_String_def ServiceTypeLoadBalancer_def)

lemma example_namespace: "CHR ''/'' \<notin> set (s_Namespace example_service)"
  by (simp add: example_service_def)

theorem requests_isolate_services_witness:
  "\<exists>p b. serve (\<lambda>_ ks. ks) (\<lambda>_ ks. ks) ''c'' example_requests (example_busy, example_full) = (Ok (), (p, b)) \<and> allFree p \<and>
     undisturbed (serviceTags example_busy ''c'' example_service) (inmem_view example_full) (inmem_view b)"
proof -
  have "named (access (lbService example_busy)) ''c'' (inmem_view example_full)" using example_full_named by (simp add: named_def)
  from requests_isolate_services [OF im.nsxt_backend_axioms example_ok(2) example_all_free example_full_inv this, of "\<lambda>_ ks. ks" "\<lambda>_ ks. ks" example_requests]
  show ?thesis using example_requests_spare example_namespace by blast
qed

theorem ensured_service_stays_served_witness:
  "\<exists>p b. serve (\<lambda>_ ks. ks) (\<lambda>_ ks. ks) ''c'' example_requests (example_busy, example_full) = (Ok (), (p, b)) \<and>
     noOrphans (serviceTags example_provider ''c'' example_service) (s_Ports example_service) (inmem_view b) \<and>
     undisturbed (serviceTags example_provider ''c'' example_service) (inmem_view example_full) (inmem_view b)"
proof -
  have "allFree example_provider" by (simp add: allFree_def example_provider_def newKeyLock_def)
  moreover have "named (access (lbService example_provider)) ''c'' (inmem_view example_store)"
    by (simp add: named_def artefactTags_def example_store_def NewInMemoryNsxtBroker_def inmem_view_def ownSet_def index_by_def)
  moreover have "s_Ports example_service \<noteq> []" "distinct (map portKey (s_Ports example_service))"
    "\<forall>q \<in> ownPools (serviceTags example_provider ''c'' example_service) (inmem_view example_store). distinctMembers q"
    by (simp_all add: example_service_fields portKey_def example_store_def NewInMemoryNsxtBroker_def inmem_view_def ownSet_def index_by_def)
  ultimately show ?thesis
    using ensured_service_stays_served [OF im.nsxt_backend_axioms example_ok(1) _ example_ok(3) _ example_ensured _ _ example_namespace _ example_requests_spare,
        of "\<lambda>_ ks. ks" "\<lambda>_ ks. ks"] by blast
qed

end
