(* ===== verification/Cloud_Provider.thy ===== *)
theory Cloud_Provider
  imports Reorg Execution
begin

text \<open>
  The cloud provider that is registered with the cloud controller manager (\<open>cloud.go\<close>,
  \<open>provider.go\<close>): from the configuration to a provider, and the parts it offers. The nil
  interface of a disabled load balancer is \<open>Disabled\<close>. The Kubernetes client is a value of
  any type; the cleanup goroutine that \<open>Initialize\<close> starts with it is \<open>reorg\<close>.
\<close>

definition ProviderName :: string where
  "ProviderName = ''vsphere''"

record 'c provider =
  lbProvider :: "'c started"

definition newProvider ::
  "(inmem, string) order \<Rightarrow> ('c, string) order \<Rightarrow> (nsxt_Configuration \<Rightarrow> error + 'c APIClient) \<Rightarrow> string \<Rightarrow>
   LBConfig \<Rightarrow> ('c, 'c provider) io" where
  "newProvider iord cord newAPIClient version cfg =
     bindIO (NewLBProvider iord cord newAPIClient version cfg) (\<lambda>p. ret \<lparr>lbProvider = p\<rparr>)"

text \<open>The factory that \<open>init\<close> registers under \<open>ProviderName\<close>.\<close>

definition cloudProviderFactory ::
  "(inmem, string) order \<Rightarrow> ('c, string) order \<Rightarrow> (nsxt_Configuration \<Rightarrow> error + 'c APIClient) \<Rightarrow> string \<Rightarrow>
   ('r \<Rightarrow> error + LBConfig) \<Rightarrow> env \<Rightarrow> 'r option \<Rightarrow> ('c, 'c provider) io" where
  "cloudProviderFactory iord cord newAPIClient version gcfg env configReader =
     (case ReadConfig gcfg env configReader of
        Inl err \<Rightarrow> throw err
      | Inr cfg \<Rightarrow> newProvider iord cord newAPIClient version cfg)"

text \<open>\<open>Initialize\<close> ends with the client that the cleanup runs with, or panics.\<close>

definition Initialize :: "error + 'k \<Rightarrow> 'c provider \<Rightarrow> 'k outcome" where
  "Initialize client p =
     (case client of
        Inl err \<Rightarrow> Panic ''panic(err)''
      | Inr c \<Rightarrow> (case lbProvider p of
            Disabled \<Rightarrow> Panic nilClass
          | _ \<Rightarrow> Ok c))"

definition LoadBalancer_interface :: "'c provider \<Rightarrow> 'c started \<times> bool" where
  "LoadBalancer_interface p = (lbProvider p, True)"

definition Instances :: "'c provider \<Rightarrow> unit option \<times> bool" where "Instances p = (None, False)"

definition Zones :: "'c provider \<Rightarrow> unit option \<times> bool" where "Zones p = (None, False)"

definition Clusters :: "'c provider \<Rightarrow> unit option \<times> bool" where "Clusters p = (None, False)"

definition Routes :: "'c provider \<Rightarrow> unit option \<times> bool" where "Routes p = (None, False)"

definition provider_ProviderName :: "'c provider \<Rightarrow> string" where "provider_ProviderName p = ProviderName"

definition HasClusterID :: "'c provider \<Rightarrow> bool" where "HasClusterID p = True"

section \<open>Construction keeps the backend\<close>

context nsxt_backend
begin

lemma classes_add_keeps: "broker a = B \<Longrightarrow> triple (at v) (classes_add a name cc dc c) (\<lambda>_. at v) (\<lambda>_. at v)"
  unfolding classes_add_def FindIPPoolByName_def Let_def
  by (intro triple_bind [where R = "\<lambda>_. at v"] triple_if triple_wrap triple_option triple_ret triple_throw)
    (simp_all add: at_list_ip_pools)

lemma setup_loop_keeps: "broker a = B \<Longrightarrow> triple (at v) (setupLoop a dc c entries) (\<lambda>_. at v) (\<lambda>_. at v)"
  unfolding setupLoop_def
  by (rule triple_fold [where I = "\<lambda>_ _. at v"])
    (auto split: prod.splits option.splits intro!: triple_throw triple_wrap classes_add_keeps)

lemma provider_for_keeps: "triple (at v) (providerFor ord B cfg) (\<lambda>_. at v) (\<lambda>_. at v)"
proof (cases "NewAccess B cfg")
  case (Inl e)
  then show ?thesis by (simp add: providerFor_def triple_throw)
next
  case (Inr a)
  then have a: "broker a = B" by (rule NewAccess_wf)
  have "triple (at v) (setupClasses ord a cfg) (\<lambda>_. at v) (\<lambda>_. at v)"
    unfolding setupClasses_def Let_def
    by (intro triple_if triple_throw triple_bind [where R = "\<lambda>_. at v"] triple_option triple_ret triple_wrap triple_gets
        classes_add_keeps [OF a] setup_loop_keeps [OF a])
  with Inr show ?thesis
    unfolding providerFor_def by (auto intro!: triple_bind [where R = "\<lambda>_. at v"] triple_wrap triple_ret)
qed

end

section \<open>Properties\<close>

lemma allFree_new: "\<forall>k. keyLock q k = None \<Longrightarrow> allFree q"
  by (simp add: allFree_def)

text \<open>
  C18. What the registered factory delivers, for a configuration that was read: a nil load
  balancer exactly when the load balancer part of the configuration is empty; in simulation mode
  a provider on the in-memory backend, whose store is in its invariant; otherwise a provider on
  the client that the library made from the NSX-T section. In both cases the provider is fit for
  its broker and holds no lock.
\<close>

theorem provider_from_config:
  assumes "cloudProviderFactory iord cord newAPIClient version gcfg env r c = (Ok p, c')"
    and cfg: "ReadConfig gcfg env r = Inr cfg" "distinct (map fst (LoadBalancerClasses cfg))"
  shows "case lbProvider p of
      Disabled \<Rightarrow> \<not> IsEnabled cfg
    | Simulation q b \<Rightarrow> IsEnabled cfg \<and> NSXTSimulation cfg \<noteq> None \<and> provider_ok (inmemoryNsxtBroker iord) q \<and> inmem_inv b \<and> allFree q
    | Connected q s \<Rightarrow> IsEnabled cfg \<and> NSXTSimulation cfg = None \<and> allFree q \<and>
        (\<exists>client. newAPIClient (clientConfiguration version (NSXT cfg)) = Inr client \<and> provider_ok (NewNsxtBroker client) q)"
proof -
  from assms(1) cfg(1) have run: "NewLBProvider iord cord newAPIClient version cfg c = (Ok (lbProvider p), c')"
    by (auto simp: cloudProviderFactory_def newProvider_def bindIO_Ok ret_def)
  show ?thesis
  proof (cases "IsEnabled cfg")
    case False
    with run show ?thesis by (auto simp: NewLBProvider_def ret_def)
  next
    case True
    show ?thesis
    proof (cases "NSXTSimulation cfg")
      case (Some sim)
      let ?b = "NewInMemoryNsxtBroker (SimulatedIPPools sim)"
      from run True Some obtain q b where q: "providerFor iord (inmemoryNsxtBroker iord) cfg ?b = (Ok q, b)" "lbProvider p = Simulation q b"
        by (auto simp: NewLBProvider_def setupNsxtBroker_def ret_def throw_def panic_def split: prod.splits outcome.splits)
      have "inmem_inv b"
        using triple_OkD [OF im.provider_for_keeps _ q(1), of "inmem_view ?b"] inmem_init_inv by (simp add: im.at_def)
      with providerFor_ok [OF q(1) cfg(2)] allFree_new True Some q(2) show ?thesis by auto
    next
      case None
      with run True obtain client q where cl: "newAPIClient (clientConfiguration version (NSXT cfg)) = Inr client"
        and q: "providerFor cord (NewNsxtBroker client) cfg c = (Ok q, c')" "lbProvider p = Connected q c'"
        by (auto simp: NewLBProvider_def setupNsxtBroker_def ret_def throw_def getsIO_def bindIO_Ok split: sum.splits)
      from providerFor_ok [OF q(1) cfg(2)] allFree_new True None q(2) cl show ?thesis by auto
    qed
  qed
qed

theorem provider_from_config_witness:
  "\<exists>p c. cloudProviderFactory (\<lambda>_ ks. ks) (\<lambda>_ ks. ks) (\<lambda>_. Inl (ApiError ''offline'') :: error + unit APIClient) ''v1'' Inr (\<lambda>_. '''')
     (Some example_cfg) () = (Ok p, c) \<and> (\<exists>q b. lbProvider p = Simulation q b \<and> inmem_inv b)"
proof -
  let ?cfg = "example_cfg\<lparr>NSXT := example_nsxt\<lparr>nsxt_MaxRetries := 30, nsxt_RetryMinDelay := 500, nsxt_RetryMaxDelay := 5000\<rparr>\<rparr>"
  have read: "ReadConfig Inr (\<lambda>_. '''') (Some example_cfg) = Inr ?cfg" by (simp add: ReadConfig_def example_completes)
  have keys: "distinct (map fst (LoadBalancerClasses ?cfg))" by (simp add: example_cfg_def)
  have "\<exists>q b. fst (cloudProviderFactory (\<lambda>_ ks. ks) (\<lambda>_ ks. ks) (\<lambda>_. Inl (ApiError ''offline'') :: error + unit APIClient) ''v1'' Inr (\<lambda>_. '''')
     (Some example_cfg) ()) = Ok \<lparr>lbProvider = Simulation q b\<rparr>"
    unfolding cloudProviderFactory_def read
    by (simp add: newProvider_def setupNsxtBroker_def IsEnabled_def example_cfg_def NewAccess_def run_defs cong: run_cong)
  then obtain q b c where run: "cloudProviderFactory (\<lambda>_ ks. ks) (\<lambda>_ ks. ks) (\<lambda>_. Inl (ApiError ''offline'') :: error + unit APIClient) ''v1'' Inr
     (\<lambda>_. '''') (Some example_cfg) () = (Ok \<lparr>lbProvider = Simulation q b\<rparr>, c)" by (metis prod.collapse)
  from provider_from_config [OF run read keys] run show ?thesis by auto
qed



end
