(* ===== verification/Manager.thy ===== *)
theory Manager
  imports Cloud_Provider
begin

text \<open>
  The command (\<open>cmd/nsxt-lb-provider-manager/main.go\<close>): it sets the variables of the provider
  package, changes flags of the cloud controller manager command and wraps its run function.
  The command with its flags, the effect of setting a flag, the parsing of the arguments and the
  inner run function are library code and are arguments here. Seeding, logging and the
  normalisation of flag names are left out.
\<close>

definition LockResourceName :: string where
  "LockResourceName = ''lb-controller-manager''"

record flag =
  flagName :: string
  flagValue :: string
  flagDefValue :: string

text \<open>The variables that outlive \<open>main\<close>: those of the provider package, and the controllers the manager does not start.\<close>

record globals =
  glob_Version :: string
  glob_AppName :: string
  glob_ClusterName :: string
  glob_Disabled :: "string set"

text \<open>How the process goes on: it exits, it panics, \<open>main\<close> returns, or the manager runs.\<close>

datatype ending = Exit int string | PanicEnd string | Returned | Running "flag list" "string list"

text \<open>What \<open>Execute\<close> makes of the arguments: an error, nothing to run (as for help), or a run with the parsed flags.\<close>

datatype parsed = ParseError string | NoRun | Parsed "flag list" "string list"

text \<open>
  The visit of all flags. The pointers that it keeps to the values of two flags are the indices
  of these flags; they are read after parsing.
\<close>

definition visitFlag ::
  "(flag \<Rightarrow> string \<Rightarrow> string) \<Rightarrow> nat \<Rightarrow> flag list \<times> nat option \<times> nat option \<Rightarrow> flag list \<times> nat option \<times> nat option" where
  "visitFlag setValue i = (\<lambda>(flags, versionFlag, clusterNameFlag).
     let f = flags ! i in
     if flagName f = ''cloud-provider''
     then (flags[i := f\<lparr>flagValue := setValue f ProviderName, flagDefValue := ProviderName\<rparr>], versionFlag, clusterNameFlag)
     else if flagName f = ''leader-elect-resource-name''
     then (flags[i := f\<lparr>flagValue := setValue f LockResourceName, flagDefValue := LockResourceName\<rparr>], versionFlag, clusterNameFlag)
     else if flagName f = ''cluster-name'' then (flags, versionFlag, Some i)
     else if flagName f = ''version'' then (flags, Some i, clusterNameFlag)
     else (flags, versionFlag, clusterNameFlag))"

definition visitFlags ::
  "(flag \<Rightarrow> string \<Rightarrow> string) \<Rightarrow> flag list \<Rightarrow> flag list \<times> nat option \<times> nat option" where
  "visitFlags setValue flags = fold (visitFlag setValue) [0..<length flags] (flags, None, None)"

definition commandRun ::
  "string \<Rightarrow> nat option \<Rightarrow> nat option \<Rightarrow> flag list \<Rightarrow> string list \<Rightarrow> globals \<Rightarrow> ending \<times> globals" where
  "commandRun version versionFlag clusterNameFlag flags args g =
     (if (case versionFlag of None \<Rightarrow> False | Some i \<Rightarrow> flagValue (flags ! i) \<noteq> ''false'')
      then (Exit 0 (AppName @ '' '' @ version @ [CHR 0x0A]), g)
      else case clusterNameFlag of
             Some i \<Rightarrow> (Running flags args, g\<lparr>glob_ClusterName := flagValue (flags ! i)\<rparr>)
           | None \<Rightarrow> (PanicEnd ''cluster-name flag not found'', g))"

definition manager_main ::
  "(flag \<Rightarrow> string \<Rightarrow> string) \<Rightarrow> (string set \<Rightarrow> flag list) \<Rightarrow> (flag list \<Rightarrow> string list \<Rightarrow> parsed) \<Rightarrow> string \<Rightarrow>
   string list \<Rightarrow> globals \<Rightarrow> ending \<times> globals" where
  "manager_main setValue newCommand parse version args g =
     (let g = g\<lparr>glob_Version := version, glob_AppName := AppName,
                glob_Disabled := glob_Disabled g \<union> {''cloud-node'', ''cloud-node-lifecycle'', ''route''}\<rparr>;
          (flags, versionFlag, clusterNameFlag) = visitFlags setValue (newCommand (glob_Disabled g))
      in case parse flags args of
           ParseError err \<Rightarrow> (Exit 1 (''error: '' @ err @ [CHR 0x0A]), g)
         | NoRun \<Rightarrow> (Returned, g)
         | Parsed flags rest \<Rightarrow> commandRun version versionFlag clusterNameFlag flags rest g)"

section \<open>The visit\<close>

definition adjusted :: "(flag \<Rightarrow> string \<Rightarrow> string) \<Rightarrow> flag \<Rightarrow> flag" where
  "adjusted setValue f =
     (if flagName f = ''cloud-provider'' then f\<lparr>flagValue := setValue f ProviderName, flagDefValue := ProviderName\<rparr>
      else if flagName f = ''leader-elect-resource-name''
      then f\<lparr>flagValue := setValue f LockResourceName, flagDefValue := LockResourceName\<rparr> else f)"

primrec lastNamed :: "string \<Rightarrow> flag list \<Rightarrow> nat \<Rightarrow> nat option" where
  "lastNamed n flags 0 = None"
| "lastNamed n flags (Suc k) = (if flagName (flags ! k) = n then Some k else lastNamed n flags k)"

lemma flagName_adjusted [simp]: "flagName (adjusted setValue f) = flagName f"
  by (simp add: adjusted_def)

lemma lastNamed_None: "lastNamed n flags k = None \<longleftrightarrow> (\<forall>i < k. flagName (flags ! i) \<noteq> n)"
  by (induction k) (auto simp: less_Suc_eq)

lemma lastNamed_Some: "lastNamed n flags k = Some i \<Longrightarrow> i < k \<and> flagName (flags ! i) = n"
  by (induction k) (auto split: if_splits)

lemma visit_prefix:
  assumes "k \<le> length flags"
  shows "fold (visitFlag setValue) [0..<k] (flags, None, None) =
   (map (adjusted setValue) (take k flags) @ drop k flags, lastNamed ''version'' flags k, lastNamed ''cluster-name'' flags k)"
  using assms
proof (induction k)
  case 0
  then show ?case by simp
next
  case (Suc k)
  let ?pre = "map (adjusted setValue) (take k flags)"
  have drop: "drop k flags = flags ! k # drop (Suc k) flags" using Suc.prems by (simp add: Cons_nth_drop_Suc)
  have pre: "length ?pre = k" "map (adjusted setValue) (take (Suc k) flags) = ?pre @ [adjusted setValue (flags ! k)]"
    using Suc.prems by (simp_all add: take_Suc_conv_app_nth)
  have "visitFlag setValue k (?pre @ flags ! k # drop (Suc k) flags, vf, cf) =
      (?pre @ adjusted setValue (flags ! k) # drop (Suc k) flags, if flagName (flags ! k) = ''version'' then Some k else vf,
       if flagName (flags ! k) = ''cluster-name'' then Some k else cf)" for vf cf
    using pre(1) by (simp add: visitFlag_def Let_def nth_append list_update_append adjusted_def)
  with Suc drop show ?case by (simp add: pre(2))
qed

lemma visitFlags_eq:
  "visitFlags setValue flags =
     (map (adjusted setValue) flags, lastNamed ''version'' flags (length flags), lastNamed ''cluster-name'' flags (length flags))"
  unfolding visitFlags_def using visit_prefix [of "length flags" flags setValue] by simp

text \<open>The value of a flag by its name.\<close>

definition valueOf :: "string \<Rightarrow> flag list \<Rightarrow> string option" where
  "valueOf n flags = map_option flagValue (find (\<lambda>f. flagName f = n) flags)"

lemma valueOf_nth:
  assumes "distinct (map flagName flags)" "i < length flags"
  shows "valueOf (flagName (flags ! i)) flags = Some (flagValue (flags ! i))"
proof -
  let ?P = "\<lambda>f. flagName f = flagName (flags ! i)"
  have "find ?P flags \<noteq> None" using nth_mem [OF assms(2)] unfolding find_None_iff by blast
  then obtain j where j: "j < length flags" "flagName (flags ! j) = flagName (flags ! i)" "find ?P flags = Some (flags ! j)"
    by (auto simp: find_Some_iff)
  with assms have "j = i" by (metis length_map nth_eq_iff_index_eq nth_map)
  with j show ?thesis by (simp add: valueOf_def)
qed

lemma lastNamed_value:
  assumes "distinct (map flagName flags')" "map flagName flags' = map flagName flags" "lastNamed n flags (length flags) = Some i"
  shows "valueOf n flags' = Some (flagValue (flags' ! i))"
proof -
  have i: "i < length flags" "flagName (flags ! i) = n" using lastNamed_Some [OF assms(3)] by auto
  have "length flags' = length flags" using assms(2) by (rule map_eq_imp_length_eq)
  moreover have "flagName (flags' ! i) = n" using i assms(2) by (metis calculation nth_map)
  ultimately show ?thesis using valueOf_nth [OF assms(1)] i(1) by metis
qed

lemma lastNamed_absent: "lastNamed n flags (length flags) = None \<longleftrightarrow> n \<notin> flagName ` set flags"
  unfolding lastNamed_None by (metis (no_types, lifting) image_iff in_set_conv_nth)

section \<open>Properties\<close>

text \<open>
  C19. The command starts the manager with the flags as parsed and with the value of
  \<open>cluster-name\<close> as the cluster name of the provider, exactly if there is such a flag and the
  version is not asked for; with the version it prints and exits, and without a cluster name flag
  it panics. The flags it hands to the parser are those of the library, with the provider name and
  the lock name as defaults, and three controllers are off.
\<close>

theorem command_runs_manager:
  assumes flags: "newCommand (glob_Disabled g \<union> {''cloud-node'', ''cloud-node-lifecycle'', ''route''}) = flags" "distinct (map flagName flags)"
    and parsed: "parse (map (adjusted setValue) flags) args = Parsed flags' rest" "map flagName flags' = map flagName flags"
    and main: "manager_main setValue newCommand parse version args g = (e, g')"
  shows "(case valueOf ''version'' flags' of Some v \<Rightarrow> v \<noteq> ''false'' | None \<Rightarrow> False) \<and> e = Exit 0 (AppName @ '' '' @ version @ [CHR 0x0A]) \<or>
    (case valueOf ''version'' flags' of Some v \<Rightarrow> v = ''false'' | None \<Rightarrow> True) \<and>
      (case valueOf ''cluster-name'' flags' of
         Some cl \<Rightarrow> e = Running flags' rest \<and> glob_ClusterName g' = cl \<and> glob_AppName g' = AppName \<and> glob_Version g' = version \<and>
           {''cloud-node'', ''cloud-node-lifecycle'', ''route''} \<subseteq> glob_Disabled g'
       | None \<Rightarrow> e = PanicEnd ''cluster-name flag not found'')"
proof -
  let ?g = "g\<lparr>glob_Version := version, glob_AppName := AppName,
         glob_Disabled := glob_Disabled g \<union> {''cloud-node'', ''cloud-node-lifecycle'', ''route''}\<rparr>"
  have d: "distinct (map flagName flags')" using flags(2) parsed(2) by simp
  have absent: "valueOf n flags' = None" if "lastNamed n flags (length flags) = None" for n
  proof -
    from that parsed(2) have "n \<notin> flagName ` set flags'" unfolding lastNamed_absent by (metis list.set_map)
    then show ?thesis by (auto simp: valueOf_def find_None_iff)
  qed
  note val = lastNamed_value [OF d parsed(2)]
  have "visitFlags setValue (newCommand (glob_Disabled ?g)) =
     (map (adjusted setValue) flags, lastNamed ''version'' flags (length flags), lastNamed ''cluster-name'' flags (length flags))"
    using flags(1) by (simp add: visitFlags_eq)
  with main parsed(1) have "commandRun version (lastNamed ''version'' flags (length flags)) (lastNamed ''cluster-name'' flags (length flags))
      flags' rest ?g = (e, g')"
    by (simp add: manager_main_def)
  then show ?thesis
    by (cases "lastNamed ''version'' flags (length flags)"; cases "lastNamed ''cluster-name'' flags (length flags)")
      (auto simp: commandRun_def absent val split: if_splits)
qed

definition example_flags :: "flag list" where
  "example_flags = [\<lparr>flagName = ''cloud-provider'', flagValue = '''', flagDefValue = ''''\<rparr>,
     \<lparr>flagName = ''cluster-name'', flagValue = ''kubernetes'', flagDefValue = ''kubernetes''\<rparr>,
     \<lparr>flagName = ''version'', flagValue = ''false'', flagDefValue = ''false''\<rparr>]"

definition example_parse :: "flag list \<Rightarrow> string list \<Rightarrow> parsed" where
  "example_parse flags args = Parsed (map (\<lambda>f. if flagName f = ''cluster-name'' then f\<lparr>flagValue := hd args\<rparr> else f) flags) (tl args)"

theorem command_runs_manager_witness:
  "\<exists>flags g. manager_main (\<lambda>_ v. v) (\<lambda>_. example_flags) example_parse ''v1'' [''prod'']
       \<lparr>glob_Version = '''', glob_AppName = '''', glob_ClusterName = '''', glob_Disabled = {}\<rparr> = (Running flags [], g) \<and>
     valueOf ''cloud-provider'' flags = Some ''vsphere'' \<and> glob_ClusterName g = ''prod''"
proof -
  let ?fs = "map (\<lambda>f. if flagName f = ''cluster-name'' then f\<lparr>flagValue := ''prod''\<rparr> else f) (map (adjusted (\<lambda>_ v. v)) example_flags)"
  let ?g = "\<lparr>glob_Version = '''', glob_AppName = '''', glob_ClusterName = '''', glob_Disabled = {}\<rparr>"
  obtain e g' where main: "manager_main (\<lambda>_ v. v) (\<lambda>_. example_flags) example_parse ''v1'' [''prod''] ?g = (e, g')" by fastforce
  have "distinct (map flagName example_flags)" "map flagName ?fs = map flagName example_flags"
    "valueOf ''version'' ?fs = Some ''false''" "valueOf ''cluster-name'' ?fs = Some ''prod''"
    and prov: "valueOf ''cloud-provider'' ?fs = Some ''vsphere''"
    by (simp_all add: example_flags_def valueOf_def adjusted_def ProviderName_def)
  moreover have "example_parse (map (adjusted (\<lambda>_ v. v)) example_flags) [''prod''] = Parsed ?fs []" by (simp add: example_parse_def)
  ultimately have "e = Running ?fs [] \<and> glob_ClusterName g' = ''prod''"
    using command_runs_manager [OF refl _ _ _ main, of ?fs "[]"] by simp
  with main prov show ?thesis by blast
qed

end
