(* ===== verification/Spec2Isabelle.thy ===== *)
theory Spec2Isabelle
  imports Stability Success Histories Manager
begin

text \<open>
  Verification of the NSX-T load balancer provider: a cloud provider that keeps, for every
  Kubernetes service of type load balancer, virtual servers, pools and health monitors in
  VMware NSX-T. All Go files below are in \<open>src/pkg/loadbalancer\<close>.

  \<^bold>\<open>The parts and how they interact.\<close> The cloud controller manager asks the registered factory
  (\<open>cloud.go\<close>, \<open>provider.go\<close>) for a provider. The factory reads and validates the
  configuration (\<open>config/config.go\<close>), builds a broker, which is either the NSX-T client
  (\<open>nsxt_broker.go\<close>) or a simulation in memory (\<open>nsxt_broker_inmem.go\<close>), an access
  layer on it that creates and finds tagged objects (\<open>access.go\<close>, \<open>tag.go\<close>,
  \<open>mapping.go\<close>, \<open>helpers.go\<close>), the load balancer classes (\<open>class.go\<close>), a shared object
  for the load balancer service (\<open>lbservice.go\<close>) and a lock per service (\<open>lock.go\<close>). The
  provider (\<open>lbprovider.go\<close>) handles ensure, update, delete and get; each of the first three
  takes the lock of the service and works with a fresh state object (\<open>state.go\<close>). A goroutine
  (\<open>reorg.go\<close>) deletes the objects of services that no longer exist. The command
  (\<open>main.go\<close> under \<open>src/cmd/nsxt-lb-provider-manager\<close>) runs the cloud controller manager with
  this provider and sets the cluster name.

  \<^bold>\<open>Theories and code.\<close>
  \<^item> \<open>Prelude\<close>: errors as values (\<open>error\<close>), outcomes (\<open>Ok\<close>, \<open>Err\<close>, \<open>Panic\<close>),
    computations on a state (\<open>io\<close>) with \<open>bindIO\<close>, \<open>tryIO\<close>, \<open>wrapErr\<close> and loops, total
    Hoare triples for them (a panic satisfies none), Go's string functions, and the iteration
    order of maps, which is an argument (\<open>order\<close>) of every definition that ranges over a map.
  \<^item> \<open>Api_Types\<close>: the NSX-T and Kubernetes objects, restricted to the fields the code uses.
  \<^item> \<open>Tags\<close> (\<open>tag.go\<close>, and the tag sources of \<open>interface.go\<close>), \<open>Port_Mapping\<close> (\<open>mapping.go\<close>, \<open>helpers.go\<close>), \<open>Config\<close>
    (\<open>config/config.go\<close>).
  \<^item> \<open>Broker\<close> (\<open>nsxt_broker.go\<close>): the broker as a record of operations, its implementation on
    the client library, whose operations are the parameter \<open>APIClient\<close>, and the locale
    \<open>nsxt_backend\<close>: the contract of a backend, with a view (objects by id, allocated
    addresses by pool), an invariant, and for every operation what it does on success and that
    it changes nothing on an error. Two locales extend it: \<open>reliable_backend\<close>, where the calls
    of an undo work, and \<open>working_backend\<close>, where every call works on objects that exist and an
    IP pool with room gives an address. \<open>Inmem_Broker\<close> (\<open>nsxt_broker_inmem.go\<close>) models the
    simulation and interprets the three locales with it; every law is proved there for the model
    of the code.
  \<^item> \<open>Access\<close> (\<open>access.go\<close>), \<open>LB_Classes\<close> (\<open>class.go\<close>), \<open>LB_Service\<close>
    (\<open>lbservice.go\<close>), \<open>LB_State\<close> (\<open>state.go\<close>): one definition per function, and inside the
    locale one triple per operation.
  \<^item> \<open>Key_Lock\<close> (\<open>lock.go\<close>): the lock as a map for one goroutine, the locale \<open>key_mutex\<close> with
    what a body between lock and deferred unlock relies on (interpreted with the lock and with the
    provider that has it), and the interleaving of any number of goroutines as a step relation.
  \<^item> \<open>Reconcile_View\<close>, \<open>Reconcile_Steps\<close>, \<open>Reconcile\<close>: the effect of every operation of
    \<open>state.go\<close> on the view and on the lists of the state, which mirror the own objects, up to
    \<open>Process\<close>.
  \<^item> \<open>LB_Provider\<close> (\<open>lbprovider.go\<close>), \<open>Member_Update\<close> (\<open>UpdatePoolMembers\<close> and
    \<open>UpdateLoadBalancer\<close>), \<open>Reorg\<close> (\<open>reorg.go\<close>), \<open>Cloud_Provider\<close> (\<open>cloud.go\<close>,
    \<open>provider.go\<close>), \<open>Manager\<close> (\<open>main.go\<close>).
  \<^item> \<open>Execution\<close>, \<open>Example_Run\<close>: rules by which the simplifier runs the model, and a provider
    in simulation mode with the runs of its operations. \<open>LB_Guarantees\<close> and
    \<open>Reorg_Guarantees\<close>: the properties of the provider and of the cleanup. \<open>Stability\<close>: a
    reconciliation that has nothing to do, and ensure repeated. \<open>Rollback\<close>: what a failure
    undoes. \<open>Success\<close>: total correctness where the backend works. \<open>Histories\<close>: sequences of
    operations for any services, with cleanups in between, by the locale \<open>request_server\<close>, of
    which every backend with the contract is an instance; the cleanup goroutine is such a sequence.

  \<^bold>\<open>State.\<close> An operation of the provider works on the provider record (load balancer service
  object, classes, lock) and the backend; an operation of \<open>state.go\<close> on the state object, the
  load balancer service object and the backend. A pointer into a list of the state is the index
  of the element. An error is a value, a panic (nil dereference, index out of range, unlock of a
  free lock, a lock that would never come free) is an outcome of its own.

  \<^bold>\<open>What is shown.\<close> For every backend with the contract and every outcome of its calls: ensure does
  not panic, gives the lock back and leaves foreign objects and addresses alone; after a success
  every port is served, no orphan is left, all virtual servers have the reported address and are
  attached; delete leaves nothing and frees the address; update makes the members follow the
  nodes and changes nothing else; get agrees with ensure; a cleanup run spares the services that
  exist and leaves only their objects. Ensure repeated after a success changes nothing. Where an
  undo works, the creation of a virtual server is all or nothing and ensure loses no address,
  whatever else fails; where every call works, ensure, update and delete succeed, given a load
  balancer service and an address for a service with ports. Through any sequence of operations,
  failed ones included, the provider stays usable, and a service that was ensured stays served
  as long as the operations are for others and the cleanups see it in the list. The lock
  excludes and lets everyone in eventually; the periods of the cleanup stay in their bounds. The
  factory delivers a provider for which all this holds, and the command runs with the cluster
  name of its flag. Tags, names and numbers can be read back, members of pools are computed
  correctly, and the simulation keeps unique ids and distinct addresses. Several theorems record
  behaviour that is not intended: an id of a deleted load balancer service is kept, a failed
  delete frees the address, a cleanup races with a new service or panics on a foreign tag, the
  simulation never deletes monitors, a disabled load balancer panics at the start.

  \<^bold>\<open>Hypotheses.\<close> The contract of the backend is the documented behaviour of
  the NSX-T API; the simulation has it. That an undo or every call works is assumed only where
  it is said. A provider has to be fit for its broker (\<open>provider_ok\<close>), which
  construction gives. Ports are distinct by number and protocol and pool members by address
  where the result depends on it. The cleanup needs service tags with a slash; the operations
  only make such tags. A repeated ensure is silent if there was at most one object of a kind for
  a port and the backend reports TCP monitors as such, which the simulation does not.

  \<^bold>\<open>Bounds.\<close> Recursion is structural everywhere, and loops run over lists, so there is no fuel.
  Integers of the API are unbounded; durations of the cleanup and numbers from the environment
  are 64 bit, with wrap-around or range check written out.

  \<^bold>\<open>Not modelled.\<close> The interfaces of \<open>interface.go\<close> but for the tag sources (declarations,
  modelled with their implementations), the cloud controller manager and its flags (parameters), log output, the text
  of formatted errors beyond format and arguments, the gcfg parser, the NSX-T and Kubernetes
  clients (parameters), vendored code. Operations are one step for the lock proofs of
  \<open>lbservice.go\<close> and of the simulation, whose mutexes cover whole methods; the steps of
  operations on different services are not interleaved, whole operations are. The memory sharing of Go slices
  is left out: a slice that the code keeps is not used again after an append through another.
  Time is the sequence of the signals of the cleanup loop.
\<close>

end
